(* ===== verification/Prelude.thy ===== *)
theory Prelude
  imports Main "HOL-Library.Word" "HOL-Library.AList" "HOL-Library.Multiset" "HOL-Library.Sublist"
begin

text \<open>
  Shared vocabulary of the development.

  \<^item> Machine integers of the Go sources as words of their width.
  \<^item> Go maps as association lists with distinct keys (\<open>gwf\<close>).  The position of an entry in the
    list is the position at which the next \<open>range\<close> loop visits it.  Go leaves that order open: every
    theorem about a range loop is stated for an arbitrary well-formed list, and the step relations of
    the components contain a step that permutes the maps (\<open>reorder\<close>).
  \<^item> The contract of a keyed store, as a locale: what a lookup returns after an insertion, a removal
    or a sequence of insertions.
  \<^item> Reachable states of a transition system and the invariant rule, as a locale.
  \<^item> Decimal printing, which the sources use through \<open>fmt.Sprintf\<close>.
\<close>

named_theorems gomap_simps \<open>lookup, update and delete on Go maps\<close>
named_theorems wf_intros \<open>preservation of well-formedness\<close>

type_synonym u8 = "8 word"
type_synonym u16 = "16 word"
type_synonym u32 = "32 word"
type_synonym u64 = "64 word"

text \<open>Instants of \<open>time.Now()\<close>, in nanoseconds.\<close>

type_synonym time = int

text \<open>\<open>uint64(t.Unix())\<close>.\<close>

definition unix_seconds :: "time \<Rightarrow> u64" where
  "unix_seconds now = of_int (now div 1000000000)"

section \<open>Go maps\<close>

type_synonym ('k, 'v) gomap = "('k \<times> 'v) list"

abbreviation gget :: "('k, 'v) gomap \<Rightarrow> 'k \<Rightarrow> 'v option" where
  "gget m k \<equiv> map_of m k"

abbreviation gput :: "'k \<Rightarrow> 'v \<Rightarrow> ('k, 'v) gomap \<Rightarrow> ('k, 'v) gomap" where
  "gput k v m \<equiv> AList.update k v m"

abbreviation gdel :: "'k \<Rightarrow> ('k, 'v) gomap \<Rightarrow> ('k, 'v) gomap" where
  "gdel k m \<equiv> AList.delete k m"

abbreviation gwf :: "('k, 'v) gomap \<Rightarrow> bool" where
  "gwf m \<equiv> distinct (map fst m)"

text \<open>Two lists that hold the same entries stand for the same Go map.\<close>

definition reorder :: "('k, 'v) gomap \<Rightarrow> ('k, 'v) gomap \<Rightarrow> bool" where
  "reorder m m' \<longleftrightarrow> mset m = mset m'"

lemmas [simp] = update_conv' delete_conv'
declare map_of_eq_Some_iff [simp del] Some_eq_map_of_iff [simp del]
lemmas [gomap_simps] = update_conv' delete_conv' update_keys delete_keys
lemmas [wf_intros] = distinct_update distinct_delete

lemma gwf_gput [simp, intro]: "gwf m \<Longrightarrow> gwf (gput k v m)"
  by (rule distinct_update)

lemma gwf_gdel [simp, intro]: "gwf m \<Longrightarrow> gwf (gdel k m)"
  by (rule distinct_delete)

lemma gget_iff_mem: "gwf m \<Longrightarrow> gget m k = Some v \<longleftrightarrow> (k, v) \<in> set m"
  by (simp add: map_of_eq_Some_iff)

lemma gget_None_iff: "gget m k = None \<longleftrightarrow> k \<notin> fst ` set m"
  by (simp add: map_of_eq_None_iff)

lemma dom_gget: "dom (gget m) = fst ` set m"
  by (simp add: dom_map_of_conv_image_fst)

lemma length_gwf: "gwf m \<Longrightarrow> length m = card (dom (gget m))"
  by (metis distinct_card dom_gget length_map set_map)

lemma gdel_eq_Nil_iff: "gdel k m = [] \<longleftrightarrow> dom (gget m) \<subseteq> {k}"
proof -
  have "gdel k m = [] \<longleftrightarrow> removeAll k (map fst m) = []"
    by (metis delete_keys map_is_Nil_conv)
  then show ?thesis
    by (auto simp: dom_gget removeAll_filter_not_eq filter_empty_conv)
qed

lemma gput_new: "gget m k = None \<Longrightarrow> gput k v m = m @ [(k, v)]"
  by (induction m) (auto split: if_splits)

lemma length_gput:
  "length (gput k v m) = (if gget m k = None then Suc (length m) else length m)"
  by (induction m) auto

lemma length_gdel:
  assumes "gwf m"
  shows "length (gdel k m) = (if gget m k = None then length m else length m - 1)"
proof -
  have "dom (gget (gdel k m)) = dom (gget m) - {k}"
    by (auto split: if_splits)
  then have "length (gdel k m) = card (dom (gget m) - {k})"
    using assms by (simp add: length_gwf)
  moreover have "length m = card (dom (gget m))"
    using assms by (rule length_gwf)
  moreover have "card (dom (gget m) - {k}) = (if gget m k = None then card (dom (gget m)) else card (dom (gget m)) - 1)"
    by (simp add: card_Diff_singleton_if domIff)
  ultimately show ?thesis
    by simp
qed

lemma gget_nonempty: "m \<noteq> [] \<Longrightarrow> \<exists>k v. gget m k = Some v"
  by (cases m) auto

lemma reorder_gget: "gwf m \<Longrightarrow> reorder m m' \<Longrightarrow> gget m' = gget m"
  unfolding reorder_def by (metis map_of_inject_set mset_eq_setD mset_map mset_eq_imp_distinct_iff)

text \<open>Counting the pairs of a key and an element of the value stored under it.\<close>

lemma finite_gomap_pairs:
  assumes "\<And>k v. gget m k = Some v \<Longrightarrow> finite (F v)"
  shows "finite {(k, x). \<exists>v. gget m k = Some v \<and> x \<in> F v}"
proof -
  have "{(k, x). \<exists>v. gget m k = Some v \<and> x \<in> F v} \<subseteq> (SIGMA k : dom (gget m). F (the (gget m k)))"
    by auto
  moreover have "finite (SIGMA k : dom (gget m). F (the (gget m k)))"
    using assms by (intro finite_SigmaI) (auto simp: dom_gget[symmetric] finite_dom_map_of)
  ultimately show ?thesis
    by (rule finite_subset)
qed

lemma card_gomap_pairs:
  assumes "gwf m" and "\<And>k v. gget m k = Some v \<Longrightarrow> finite (F v)"
  shows "card {(k, x). \<exists>v. gget m k = Some v \<and> x \<in> F v} = sum_list (map (\<lambda>(k, v). card (F v)) m)"
  using assms
proof (induction m)
  case Nil
  then show ?case by simp
next
  case (Cons p m)
  obtain k v where p: "p = (k, v)" by (cases p)
  have new: "gget m k = None"
    using Cons.prems(1) by (simp add: p gget_None_iff)
  have fin: "finite (F w)" if "gget m j = Some w" for j w
    using Cons.prems(2)[of j w] that new by (cases "j = k") (auto simp: p)
  let ?B = "{(j, x). \<exists>w. gget m j = Some w \<and> x \<in> F w}"
  have "{(j, x). \<exists>w. gget (p # m) j = Some w \<and> x \<in> F w} = Pair k ` F v \<union> ?B"
    using new by (auto simp: p split: if_splits)
  moreover have "card (Pair k ` F v \<union> ?B) = card (Pair k ` F v) + card ?B"
  proof (rule card_Un_disjoint)
    show "finite (Pair k ` F v)"
      using Cons.prems(2)[of k v] by (simp add: p)
    show "finite ?B"
      using fin by (rule finite_gomap_pairs)
    show "Pair k ` F v \<inter> ?B = {}"
      using new by auto
  qed
  moreover have "card (Pair k ` F v) = card (F v)"
    by (rule card_image) (simp add: inj_on_def)
  moreover have "card ?B = sum_list (map (\<lambda>(k, v). card (F v)) m)"
    using Cons.prems(1) fin by (intro Cons.IH) auto
  ultimately show ?case
    by (simp add: p)
qed

text \<open>The zero value that Go returns for a missing key of a map with boolean values.\<close>

definition gbool :: "('k, bool) gomap \<Rightarrow> 'k \<Rightarrow> bool" where
  "gbool m k = (case gget m k of Some b \<Rightarrow> b | None \<Rightarrow> False)"

lemma gbool_gput [simp]: "gbool (gput k b m) k' = (if k' = k then b else gbool m k')"
  by (simp add: gbool_def)

section \<open>The contract of a keyed store\<close>

text \<open>
  Several components keep a map from an identifier to an object and expose an add, a remove and a
  lookup on it.  An addition may be refused (\<open>ok\<close>) and may complete the object before it is stored
  (\<open>stored\<close>: time stamps, defaults).  The laws are those of the lookup after each of the two other
  operations; the lemmas describe whole sequences of additions.
\<close>

locale keyed_store =
  fixes inv :: "'s \<Rightarrow> bool"
    and find :: "'s \<Rightarrow> 'k \<Rightarrow> 'v option"
    and add :: "'a \<Rightarrow> 's \<Rightarrow> 's"
    and remove :: "'k \<Rightarrow> 's \<Rightarrow> 's"
    and key :: "'a \<Rightarrow> 'k"
    and ok :: "'a \<Rightarrow> bool"
    and stored :: "'a \<Rightarrow> 'v"
  assumes inv_add: "inv s \<Longrightarrow> inv (add v s)"
    and inv_remove: "inv s \<Longrightarrow> inv (remove k s)"
    and find_add: "inv s \<Longrightarrow> find (add v s) = (if ok v then (find s)(key v \<mapsto> stored v) else find s)"
    and find_remove: "inv s \<Longrightarrow> find (remove k s) = (find s)(k := None)"
begin

lemma inv_fold_add: "inv s \<Longrightarrow> inv (fold add vs s)"
  by (induction vs arbitrary: s) (auto intro: inv_add)

lemma find_fold_add:
  "inv s \<Longrightarrow> find (fold add vs s) = find s ++ map_of (rev (map (\<lambda>v. (key v, stored v)) (filter ok vs)))"
proof (induction vs arbitrary: s)
  case Nil
  then show ?case by simp
next
  case (Cons v vs)
  have "find (fold add vs (add v s)) =
      find (add v s) ++ map_of (rev (map (\<lambda>v. (key v, stored v)) (filter ok vs)))"
    by (rule Cons.IH[OF inv_add[OF Cons.prems]])
  then show ?case
    by (simp add: find_add[OF Cons.prems] map_add_def fun_eq_iff split: option.splits)
qed

lemma find_fold_add_distinct:
  assumes "inv s" and "distinct (map key vs)" and "v \<in> set vs" and "ok v"
  shows "find (fold add vs s) (key v) = Some (stored v)"
proof -
  let ?ps = "map (\<lambda>v. (key v, stored v)) (filter ok vs)"
  have "distinct (map fst ?ps)"
    using assms(2) by (simp add: comp_def distinct_map_filter)
  then have "distinct (map fst (rev ?ps))"
    by (simp add: rev_map[symmetric])
  moreover have "(key v, stored v) \<in> set (rev ?ps)"
    using assms(3,4) by auto
  ultimately have "map_of (rev ?ps) (key v) = Some (stored v)"
    by (rule map_of_is_SomeI)
  then show ?thesis
    by (simp add: find_fold_add[OF assms(1)])
qed

lemma find_fold_add_other:
  assumes "inv s" and "k \<notin> key ` set vs"
  shows "find (fold add vs s) k = find s k"
proof -
  have "map_of (rev (map (\<lambda>v. (key v, stored v)) (filter ok vs))) k = None"
    using assms(2) by (auto simp: map_of_eq_None_iff)
  then show ?thesis
    by (simp add: find_fold_add[OF assms(1)] map_add_def)
qed

lemma find_add_remove: "inv s \<Longrightarrow> find (remove (key v) (add v s)) = find (remove (key v) s)"
  by (simp add: find_add find_remove inv_add)

lemma find_remove_idem: "inv s \<Longrightarrow> find (remove k (remove k s)) = find (remove k s)"
  by (simp add: find_remove inv_remove)

end

section \<open>Transition systems\<close>

inductive reach :: "('s \<Rightarrow> bool) \<Rightarrow> ('s \<Rightarrow> 's \<Rightarrow> bool) \<Rightarrow> 's \<Rightarrow> bool"
  for init :: "'s \<Rightarrow> bool" and step :: "'s \<Rightarrow> 's \<Rightarrow> bool" where
  reach_init: "init s \<Longrightarrow> reach init step s"
| reach_step: "reach init step s \<Longrightarrow> step s t \<Longrightarrow> reach init step t"

locale invariant_system =
  fixes init :: "'s \<Rightarrow> bool"
    and step :: "'s \<Rightarrow> 's \<Rightarrow> bool"
    and inv :: "'s \<Rightarrow> bool"
  assumes inv_init: "init s \<Longrightarrow> inv s"
    and inv_step: "inv s \<Longrightarrow> step s t \<Longrightarrow> inv t"
begin

lemma reach_inv: "reach init step s \<Longrightarrow> inv s"
  by (induction rule: reach.induct) (auto intro: inv_init inv_step)

lemma inv_steps: "step\<^sup>*\<^sup>* s t \<Longrightarrow> inv s \<Longrightarrow> inv t"
  by (induction rule: rtranclp_induct) (auto intro: inv_step)

lemma reach_steps: "reach init step s \<Longrightarrow> step\<^sup>*\<^sup>* s t \<Longrightarrow> reach init step t"
  by (rotate_tac 1, induction rule: rtranclp_induct) (auto intro: reach_step)

end

section \<open>Decimal printing\<close>

fun dec_digits :: "nat \<Rightarrow> string" where
  "dec_digits n = (if n < 10 then [char_of (48 + n)] else dec_digits (n div 10) @ [char_of (48 + n mod 10)])"

declare dec_digits.simps [simp del]

text \<open>\<open>%d\<close> and \<open>%v\<close> of an unsigned value, and of an \<open>int\<close>.\<close>

definition show_word :: "'a::len word \<Rightarrow> string" where
  "show_word w = dec_digits (unat w)"

definition show_int :: "int \<Rightarrow> string" where
  "show_int i = (if i < 0 then CHR ''-'' # dec_digits (nat (- i)) else dec_digits (nat i))"

definition show_bool :: "bool \<Rightarrow> string" where
  "show_bool b = (if b then ''true'' else ''false'')"

definition is_digit :: "char \<Rightarrow> bool" where
  "is_digit c \<longleftrightarrow> 48 \<le> (of_char c :: nat) \<and> (of_char c :: nat) \<le> 57"

definition dec_value :: "string \<Rightarrow> nat" where
  "dec_value s = foldl (\<lambda>a c. 10 * a + ((of_char c :: nat) - 48)) 0 s"

lemma dec_value_snoc: "dec_value (s @ [c]) = 10 * dec_value s + ((of_char c :: nat) - 48)"
  by (simp add: dec_value_def)

lemma of_char_digit: "d < 10 \<Longrightarrow> (of_char (char_of (48 + d)) :: nat) = 48 + d"
  by (simp add: of_char_of)

lemma dec_value_digits [simp]: "dec_value (dec_digits n) = n"
proof (induction n rule: dec_digits.induct)
  case (1 n)
  show ?case
  proof (cases "n < 10")
    case True
    then show ?thesis
      by (subst dec_digits.simps) (simp add: dec_value_def of_char_digit)
  next
    case False
    with 1 show ?thesis
      by (subst dec_digits.simps) (simp add: dec_value_snoc of_char_digit)
  qed
qed

lemma dec_digits_inject [simp]: "dec_digits m = dec_digits n \<longleftrightarrow> m = n"
  by (metis dec_value_digits)

lemma dec_digits_digits: "c \<in> set (dec_digits n) \<Longrightarrow> is_digit c"
proof (induction n rule: dec_digits.induct)
  case (1 n)
  have d: "is_digit (char_of (48 + d))" if "d < 10" for d :: nat
    using that by (simp add: is_digit_def of_char_digit)
  show ?case
  proof (cases "n < 10")
    case True
    with 1 d show ?thesis
      by (auto simp: dec_digits.simps[of n])
  next
    case False
    with 1 d show ?thesis
      by (auto simp: dec_digits.simps[of n])
  qed
qed

lemma dec_digits_nonempty [simp]: "dec_digits n \<noteq> []"
  by (subst dec_digits.simps) simp

lemma show_word_inject [simp]: "show_word v = show_word w \<longleftrightarrow> v = w"
  by (simp add: show_word_def word_unat_eq_iff)

lemma show_bool_inject [simp]: "show_bool a = show_bool b \<longleftrightarrow> a = b"
  by (simp add: show_bool_def)


lemma find_SomeD: "find P xs = Some x \<Longrightarrow> x \<in> set xs \<and> P x"
  by (induction xs) (auto split: if_splits)


lemma map_of_rev_distinct: "distinct (map fst m) \<Longrightarrow> map_of (rev m) = map_of m"
  by (subst map_of_inject_set) (simp_all flip: rev_map)

lemma gget_fold_gput:
  "gget (fold (\<lambda>x m. gput (key x) (f x) m) xs m) = gget m ++ map_of (rev (map (\<lambda>x. (key x, f x)) xs))"
  by (induction xs arbitrary: m) (simp_all add: fun_eq_iff map_add_def split: option.split)

lemma ucast_ucast_widen:
  fixes x :: "'a::len word"
  assumes "LENGTH('a) \<le> LENGTH('b::len)"
  shows "ucast (ucast x :: 'b word) = x"
proof (rule bit_word_eqI)
  fix n
  assume "n < LENGTH('a)"
  with assms show "bit (ucast (ucast x :: 'b word) :: 'a word) n \<longleftrightarrow> bit x n"
    by (simp add: bit_simps)
qed

end
