(* ===== verification/GoStrings.thy ===== *)
theory GoStrings
  imports Prelude
begin

text \<open>
  The functions of Go's \<open>strings\<close> and \<open>fmt\<close> packages that the sources call, on byte strings
  (\<open>string\<close> is a list of bytes), with the lemmas the component theories use about them.
\<close>

definition HasPrefix :: "string \<Rightarrow> string \<Rightarrow> bool" where
  "HasPrefix s p = (take (length p) s = p)"

definition HasSuffix :: "string \<Rightarrow> string \<Rightarrow> bool" where
  "HasSuffix s p = HasPrefix (rev s) (rev p)"

definition TrimPrefix :: "string \<Rightarrow> string \<Rightarrow> string" where
  "TrimPrefix s p = (if HasPrefix s p then drop (length p) s else s)"

definition TrimSuffix :: "string \<Rightarrow> string \<Rightarrow> string" where
  "TrimSuffix s p = (if HasSuffix s p then take (length s - length p) s else s)"

text \<open>\<open>strings.Index\<close>: the first position of the substring, \<open>None\<close> for \<open>-1\<close>.\<close>

fun Index :: "string \<Rightarrow> string \<Rightarrow> nat option" where
  "Index [] p = (if p = [] then Some 0 else None)"
| "Index (c # s) p = (if HasPrefix (c # s) p then Some 0 else map_option Suc (Index s p))"

definition LastIndex :: "string \<Rightarrow> string \<Rightarrow> nat option" where
  "LastIndex s p = map_option (\<lambda>i. length s - i - length p) (Index (rev s) (rev p))"

definition Contains :: "string \<Rightarrow> string \<Rightarrow> bool" where
  "Contains s p = (Index s p \<noteq> None)"

definition ContainsAny :: "string \<Rightarrow> string \<Rightarrow> bool" where
  "ContainsAny s cs = list_ex (\<lambda>c. c \<in> set cs) s"

text \<open>\<open>strings.Split\<close> for a non-empty separator.\<close>

function Split :: "string \<Rightarrow> string \<Rightarrow> string list" where
  "Split s sep =
     (case Index s sep of
        None \<Rightarrow> [s]
      | Some i \<Rightarrow>
          if sep = [] then [s] else take i s # Split (drop (i + length sep) s) sep)"
  by pat_completeness auto

lemma Index_Some: "Index s p = Some i \<Longrightarrow> i + length p \<le> length s \<and> take (length p) (drop i s) = p"
proof (induction s p arbitrary: i rule: Index.induct)
  case (1 p)
  then show ?case by (auto split: if_splits)
next
  case (2 c s p)
  show ?case
  proof (cases "HasPrefix (c # s) p")
    case True
    then have "length (take (length p) (c # s)) = length p"
      by (simp only: HasPrefix_def)
    then have "length p \<le> length (c # s)"
      unfolding length_take by linarith
    with True 2(2) show ?thesis by (simp add: HasPrefix_def)
  next
    case False
    with 2 show ?thesis by auto
  qed
qed

termination Split
proof (relation "measure (length \<circ> fst)", goal_cases)
  case 1
  show ?case by simp
next
  case (2 s sep i)
  then have "i + length sep \<le> length s" and "0 < length sep"
    by (auto dest: Index_Some)
  then have "length s - (i + length sep) < length s"
    by linarith
  then show ?case by simp
qed

declare Split.simps [simp del]

text \<open>White space of \<open>strings.TrimSpace\<close> and \<open>strings.Fields\<close> for bytes.\<close>

definition is_space :: "char \<Rightarrow> bool" where
  "is_space c \<longleftrightarrow> (of_char c :: nat) \<in> {9, 10, 11, 12, 13, 32}"

definition TrimSpace :: "string \<Rightarrow> string" where
  "TrimSpace s = rev (dropWhile is_space (rev (dropWhile is_space s)))"

function Fields :: "string \<Rightarrow> string list" where
  "Fields s =
     (let t = dropWhile is_space s
      in if t = [] then []
         else takeWhile (\<lambda>c. \<not> is_space c) t # Fields (dropWhile (\<lambda>c. \<not> is_space c) t))"
  by pat_completeness auto

termination Fields
proof (relation "measure length", goal_cases)
  case 1
  show ?case by simp
next
  case (2 s t)
  then have h: "\<not> is_space (hd t)"
    by (metis hd_dropWhile)
  from 2(2) obtain c u where t: "t = c # u"
    by (cases t) auto
  have "length (dropWhile (\<lambda>c. \<not> is_space c) t) = length (dropWhile (\<lambda>c. \<not> is_space c) u)"
    using h by (simp add: t)
  also have "\<dots> < length t"
    using length_dropWhile_le[of "\<lambda>c. \<not> is_space c" u] by (simp add: t)
  also have "\<dots> \<le> length s"
    using 2 by (simp add: length_dropWhile_le)
  finally show ?case by simp
qed

declare Fields.simps [simp del]

text \<open>\<open>strings.Replace(s, old, new, 1)\<close>.\<close>

definition Replace1 :: "string \<Rightarrow> string \<Rightarrow> string \<Rightarrow> string" where
  "Replace1 s old new =
     (case Index s old of None \<Rightarrow> s | Some i \<Rightarrow> take i s @ new @ drop (i + length old) s)"

text \<open>Two lower case hexadecimal digits of a byte, \<open>%02x\<close>.\<close>

definition hex_digit :: "nat \<Rightarrow> char" where
  "hex_digit d = (if d < 10 then char_of (48 + d) else char_of (87 + d))"

definition hex2 :: "u8 \<Rightarrow> string" where
  "hex2 b = [hex_digit (unat b div 16), hex_digit (unat b mod 16)]"

fun join :: "string \<Rightarrow> string list \<Rightarrow> string" where
  "join sep [] = []"
| "join sep [x] = x"
| "join sep (x # y # xs) = x @ sep @ join sep (y # xs)"

section \<open>Lemmas\<close>

lemma HasPrefix_prefix: "HasPrefix s p \<longleftrightarrow> prefix p s"
  by (auto simp: HasPrefix_def prefix_def take_is_prefix) (metis append_take_drop_id)

lemma HasPrefix_append [simp]: "HasPrefix (p @ s) p"
  by (simp add: HasPrefix_def)

lemma HasSuffix_suffix: "HasSuffix s p \<longleftrightarrow> suffix p s"
  by (simp add: HasSuffix_def HasPrefix_prefix suffix_to_prefix)

lemma TrimPrefix_append [simp]: "TrimPrefix (p @ s) p = s"
  by (simp add: TrimPrefix_def)

text \<open>A string none of whose bytes starts the pattern can be skipped.\<close>

lemma Index_skip:
  assumes "p = c # p'" and "c \<notin> set xs"
  shows "Index (xs @ s) p = map_option (\<lambda>i. length xs + i) (Index s p)"
  using assms(2)
proof (induction xs)
  case Nil
  then show ?case by (cases "Index s p") auto
next
  case (Cons x xs)
  then have "\<not> HasPrefix (x # xs @ s) p"
    by (auto simp: HasPrefix_def assms(1))
  with Cons show ?case
    by (cases "Index s p") auto
qed

lemma Index_prefix: "Index (p @ s) p = Some 0"
  by (cases "p @ s") (auto simp: HasPrefix_def dest: sym)

text \<open>Cutting a separated string at the first separator is unambiguous when the parts avoid it.\<close>

lemma append_sep_inject:
  assumes "c \<notin> set a" and "c \<notin> set b"
  shows "a @ c # s = b @ c # t \<longleftrightarrow> a = b \<and> s = t"
proof
  assume eq: "a @ c # s = b @ c # t"
  have "takeWhile (\<lambda>x. x \<noteq> c) (a @ c # s) = a" "takeWhile (\<lambda>x. x \<noteq> c) (b @ c # t) = b"
    using assms by (auto simp: takeWhile_append)
  with eq have "a = b" by simp
  with eq show "a = b \<and> s = t" by simp
qed simp

end
