(* ===== verification/GoNet.thy ===== *)
theory GoNet
  imports GoStrings
begin

text \<open>
  The part of Go's \<open>net\<close> package that the sources use: \<open>net.IP\<close>, \<open>net.IPNet\<close> and
  \<open>net.HardwareAddr\<close> as byte strings, their printers and parsers.  A \<open>nil\<close> address is the
  empty list.
\<close>

unbundle bit_operations_syntax

type_synonym ip = "u8 list"
type_synonym mac = "u8 list"

record IPNet =
  net_ip :: ip
  net_mask :: "u8 list"

definition To4 :: "ip \<Rightarrow> ip option" where
  "To4 a =
     (if length a = 4 then Some a
      else if length a = 16 \<and> take 12 a = replicate 10 0 @ [255, 255] then Some (drop 12 a)
      else None)"

definition dotted :: "ip \<Rightarrow> string" where
  "dotted a = join ''.'' (map show_word a)"

text \<open>Lower case hexadecimal without leading zeros.\<close>

definition hex16 :: "nat \<Rightarrow> string" where
  "hex16 n =
     (let ds = [n div 4096 mod 16, n div 256 mod 16, n div 16 mod 16];
          ds' = dropWhile (\<lambda>d. d = 0) ds
      in map hex_digit (ds' @ [n mod 16]))"

fun groups16 :: "ip \<Rightarrow> nat list" where
  "groups16 (a # b # r) = (256 * unat a + unat b) # groups16 r"
| "groups16 _ = []"

text \<open>The first longest run of at least two zero groups, as its start and its end.\<close>

definition zero_run :: "nat list \<Rightarrow> nat \<times> nat" where
  "zero_run gs =
     fold (\<lambda>i (s, e).
        let l = length (takeWhile (\<lambda>g. g = 0) (drop i gs))
        in if 2 \<le> l \<and> e - s < l then (i, i + l) else (s, e))
       [0..<length gs] (255, 255)"

definition show_v6 :: "ip \<Rightarrow> string" where
  "show_v6 a =
     (let gs = groups16 a; (s, e) = zero_run gs
      in if s = 255 then join '':'' (map hex16 gs)
         else join '':'' (map hex16 (take s gs)) @ ''::'' @ join '':'' (map hex16 (drop e gs)))"

definition IP_String :: "ip \<Rightarrow> string" where
  "IP_String a =
     (if a = [] then ''<nil>''
      else if length a \<noteq> 4 \<and> length a \<noteq> 16 then CHR ''?'' # concat (map hex2 a)
      else case To4 a of Some v \<Rightarrow> dotted v | None \<Rightarrow> show_v6 a)"

fun parse_v4 :: "string \<Rightarrow> nat \<Rightarrow> nat \<Rightarrow> u8 list \<Rightarrow> u8 list option" where
  "parse_v4 [] val digLen fs = (if length fs < 3 then None else Some (fs @ [of_nat val]))"
| "parse_v4 (c # s) val digLen fs =
     (if is_digit c then
        (if digLen = 1 \<and> val = 0 then None
         else let v = 10 * val + ((of_char c :: nat) - 48)
              in if 255 < v then None else parse_v4 s v (Suc digLen) fs)
      else if c = CHR ''.'' then
        (if digLen = 0 \<or> s = [] then None
         else if length fs = 3 then None
         else parse_v4 s 0 0 (fs @ [of_nat val]))
      else None)"

definition hex_val :: "char \<Rightarrow> nat option" where
  "hex_val c =
     (let n = (of_char c :: nat)
      in if 48 \<le> n \<and> n \<le> 57 then Some (n - 48)
         else if 97 \<le> n \<and> n \<le> 102 then Some (n - 87)
         else if 65 \<le> n \<and> n \<le> 70 then Some (n - 55)
         else None)"

fun take_hex :: "string \<Rightarrow> nat \<Rightarrow> nat \<Rightarrow> (nat \<times> nat \<times> string) option" where
  "take_hex [] off acc = Some (off, acc, [])"
| "take_hex (c # s) off acc =
     (case hex_val c of
        None \<Rightarrow> Some (off, acc, c # s)
      | Some h \<Rightarrow>
          if 3 < off then None
          else if 65535 < 16 * acc + h then None
          else take_hex s (Suc off) (16 * acc + h))"

text \<open>
  The group loop of the IPv6 parser; its first argument counts the groups that still fit, so that
  the loop guard \<open>i < 16\<close> is the recursion.
\<close>

fun parse_v6_loop :: "nat \<Rightarrow> string \<Rightarrow> u8 list \<Rightarrow> nat option \<Rightarrow> (string \<times> u8 list \<times> nat option) option" where
  "parse_v6_loop 0 s bs ell = Some (s, bs, ell)"
| "parse_v6_loop (Suc k) s bs ell =
     (case take_hex s 0 0 of
        None \<Rightarrow> None
      | Some (off, acc, r) \<Rightarrow>
          if off = 0 then None
          else if HasPrefix r ''.'' then
            (if ell = None \<and> length bs \<noteq> 12 then None
             else if 16 < length bs + 4 then None
             else map_option (\<lambda>f. ([], bs @ f, ell)) (parse_v4 s 0 0 []))
          else
            (let bs' = bs @ [of_nat (acc div 256), of_nat acc]
             in case r of
                  [] \<Rightarrow> Some ([], bs', ell)
                | c # s1 \<Rightarrow>
                    if c \<noteq> CHR '':'' then None
                    else (case s1 of
                            [] \<Rightarrow> None
                          | c2 # s2 \<Rightarrow>
                              if c2 = CHR '':'' then
                                (if ell \<noteq> None then None
                                 else if s2 = [] then Some ([], bs', Some (length bs'))
                                 else parse_v6_loop k s2 bs' (Some (length bs')))
                              else parse_v6_loop k s1 bs' ell)))"

definition parse_v6 :: "string \<Rightarrow> ip option" where
  "parse_v6 s =
     (let lead = HasPrefix s ''::''; s' = (if lead then drop 2 s else s); ell = (if lead then Some 0 else None)
      in if lead \<and> s' = [] then Some (replicate 16 0)
         else case parse_v6_loop 8 s' [] ell of
                None \<Rightarrow> None
              | Some (r, bs, ell') \<Rightarrow>
                  if r \<noteq> [] then None
                  else if length bs < 16 then
                    (case ell' of
                       None \<Rightarrow> None
                     | Some e \<Rightarrow> Some (take e bs @ replicate (16 - length bs) 0 @ drop e bs))
                  else if ell' \<noteq> None then None
                  else Some bs)"

definition v4_in_v6 :: "ip \<Rightarrow> ip" where
  "v4_in_v6 a = replicate 10 0 @ [255, 255] @ a"

text \<open>\<open>net.ParseIP\<close>: the 16-byte form, or \<open>nil\<close>.  A zone is an error.\<close>

definition ParseIP :: "string \<Rightarrow> ip" where
  "ParseIP s =
     (if CHR ''%'' \<in> set s then []
      else case find (\<lambda>c. c = CHR ''.'' \<or> c = CHR '':'') s of
             None \<Rightarrow> []
           | Some c \<Rightarrow>
               if c = CHR ''.'' then
                 (case parse_v4 s 0 0 [] of None \<Rightarrow> [] | Some a \<Rightarrow> v4_in_v6 a)
               else (case parse_v6 s of None \<Rightarrow> [] | Some a \<Rightarrow> a))"

definition IsLoopback :: "ip \<Rightarrow> bool" where
  "IsLoopback a =
     (case To4 a of
        Some v \<Rightarrow> take 1 v = [127]
      | None \<Rightarrow> a = replicate 15 0 @ [1])"

definition networkNumberAndMask :: "IPNet \<Rightarrow> (ip \<times> u8 list) option" where
  "networkNumberAndMask n =
     (case (case To4 (net_ip n) of
              Some v \<Rightarrow> Some v
            | None \<Rightarrow> if length (net_ip n) \<noteq> 16 then None else Some (net_ip n)) of
        None \<Rightarrow> None
      | Some a \<Rightarrow>
          (let m = net_mask n
           in if length m = 4 then (if length a \<noteq> 4 then None else Some (a, m))
              else if length m = 16 then Some (a, if length a = 4 then drop 12 m else m)
              else None))"

definition IPNet_Contains :: "IPNet \<Rightarrow> ip \<Rightarrow> bool" where
  "IPNet_Contains n a =
     (let (nn, m) = (case networkNumberAndMask n of None \<Rightarrow> ([], []) | Some p \<Rightarrow> p);
          a' = (case To4 a of Some v \<Rightarrow> v | None \<Rightarrow> a)
      in length a' = length nn \<and>
         list_all (\<lambda>(x, y, k). x AND k = y AND k) (zip nn (zip a' m)))"

definition mask_bits :: "u8 list \<Rightarrow> bool list" where
  "mask_bits m = concat (map (\<lambda>b. map (\<lambda>i. bit b i) [7, 6, 5, 4, 3, 2, 1, 0]) m)"

text \<open>The number of leading ones, \<open>None\<close> (Go: \<open>-1\<close>) when a zero bit precedes a one bit.\<close>

definition simpleMaskLength :: "u8 list \<Rightarrow> nat option" where
  "simpleMaskLength m =
     (let bs = mask_bits m; l = length (takeWhile id bs)
      in if list_ex id (drop l bs) then None else Some l)"

definition IPNet_String :: "IPNet \<Rightarrow> string" where
  "IPNet_String n =
     (case networkNumberAndMask n of
        None \<Rightarrow> ''<nil>''
      | Some (nn, m) \<Rightarrow>
          (case simpleMaskLength m of
             None \<Rightarrow> IP_String nn @ ''/'' @ concat (map hex2 m)
           | Some l \<Rightarrow> IP_String nn @ ''/'' @ dec_digits l))"

definition MAC_String :: "mac \<Rightarrow> string" where
  "MAC_String m = join '':'' (map hex2 m)"

text \<open>\<open>xtoi2\<close>: two hexadecimal digits, followed by the given separator unless the string ends.\<close>

definition xtoi2 :: "string \<Rightarrow> char \<Rightarrow> u8 option" where
  "xtoi2 s e =
     (case s of
        a # b # r \<Rightarrow>
          (case (hex_val a, hex_val b) of
             (Some x, Some y) \<Rightarrow>
               (if r = [] \<or> hd r = e then Some (of_nat (16 * x + y)) else None)
           | _ \<Rightarrow> None)
      | _ \<Rightarrow> None)"

fun mac_fields :: "nat \<Rightarrow> string \<Rightarrow> char \<Rightarrow> u8 list option" where
  "mac_fields 0 s e = Some []"
| "mac_fields (Suc n) s e =
     (case xtoi2 s e of
        None \<Rightarrow> None
      | Some b \<Rightarrow> map_option (\<lambda>r. b # r) (mac_fields n (drop 3 s) e))"

fun mac_dot_fields :: "nat \<Rightarrow> string \<Rightarrow> u8 list option" where
  "mac_dot_fields 0 s = Some []"
| "mac_dot_fields (Suc n) s =
     (case (xtoi2 (take 2 s) (CHR ''.''), xtoi2 (drop 2 s) (CHR ''.'')) of
        (Some a, Some b) \<Rightarrow> map_option (\<lambda>r. a # b # r) (mac_dot_fields n (drop 5 s))
      | _ \<Rightarrow> None)"

definition ParseMAC :: "string \<Rightarrow> mac option" where
  "ParseMAC s =
     (if length s < 14 then None
      else if s ! 2 = CHR '':'' \<or> s ! 2 = CHR ''-'' then
        (let n = (length s + 1) div 3
         in if (length s + 1) mod 3 \<noteq> 0 \<or> n \<notin> {6, 8, 20} then None else mac_fields n s (s ! 2))
      else if s ! 4 = CHR ''.'' then
        (let n = 2 * (length s + 1) div 5
         in if (length s + 1) mod 5 \<noteq> 0 \<or> n \<notin> {6, 8, 20} then None else mac_dot_fields (n div 2) s)
      else None)"

section \<open>Printing and parsing IPv4 addresses\<close>

lemma dec_digits_1: "n < 10 \<Longrightarrow> dec_digits n = [char_of (48 + n)]"
  by (subst dec_digits.simps) simp

lemma dec_digits_2:
  "10 \<le> n \<Longrightarrow> n < 100 \<Longrightarrow> dec_digits n = [char_of (48 + n div 10), char_of (48 + n mod 10)]"
  by (subst dec_digits.simps) (simp add: dec_digits_1)

lemma dec_digits_3:
  "100 \<le> n \<Longrightarrow> n < 1000 \<Longrightarrow>
     dec_digits n = [char_of (48 + n div 100), char_of (48 + n div 10 mod 10), char_of (48 + n mod 10)]"
  by (subst dec_digits.simps) (simp add: dec_digits_2 div_mult2_eq[symmetric])

lemma is_digit_char [simp]: "(d :: nat) < 10 \<Longrightarrow> is_digit (char_of (48 + d))"
  by (simp add: is_digit_def of_char_digit)

lemma parse_v4_digit:
  assumes "d < 10" and "\<not> (k = 1 \<and> v = 0)" and "10 * v + d \<le> 255"
  shows "parse_v4 (char_of (48 + d) # r) v k fs = parse_v4 r (10 * v + d) (Suc k) fs"
  using assms by (auto simp: of_char_digit Let_def)

lemma parse_v4_octet:
  assumes "n < 256"
  shows "\<exists>k. 0 < k \<and> parse_v4 (dec_digits n @ r) 0 0 fs = parse_v4 r n k fs"
proof -
  consider "n < 10" | "10 \<le> n" "n < 100" | "100 \<le> n"
    by linarith
  then show ?thesis
  proof cases
    case 1
    then show ?thesis
      by (intro exI[of _ 1]) (simp add: dec_digits_1 parse_v4_digit del: parse_v4.simps)
  next
    case 2
    then show ?thesis
      by (intro exI[of _ "Suc (Suc 0)"]) (simp add: dec_digits_2 parse_v4_digit del: parse_v4.simps)
  next
    case 3
    have "n div 100 = n div 10 div 10"
      by (simp add: div_mult2_eq[symmetric])
    then have "10 * (n div 100) + n div 10 mod 10 = n div 10"
      by simp
    moreover have "n div 100 < 10" "0 < n div 100" "n div 10 \<le> 255"
      using 3 assms by linarith+
    ultimately show ?thesis
      using 3 assms
      by (intro exI[of _ "Suc (Suc (Suc 0))"]) (simp add: dec_digits_3 parse_v4_digit del: parse_v4.simps)
  qed
qed

lemma unat_u8_less: "unat (x :: u8) < 256"
  using unsigned_less[of x] by simp

lemma parse_v4_word:
  "\<exists>k. 0 < k \<and> parse_v4 (show_word (x :: u8) @ r) 0 0 fs = parse_v4 r (unat x) k fs"
  unfolding show_word_def by (rule parse_v4_octet[OF unat_u8_less])

lemma not_digit_dot [simp]: "\<not> is_digit (CHR ''.'')" "\<not> is_digit (CHR ''-'')" "\<not> is_digit (CHR '':'')" "\<not> is_digit (CHR ''%'')"
  by (simp_all add: is_digit_def)

lemma parse_v4_field:
  assumes "s \<noteq> []" and "length fs < 3"
  shows "parse_v4 (show_word (x :: u8) @ CHR ''.'' # s) 0 0 fs = parse_v4 s 0 0 (fs @ [x])"
proof -
  obtain k where k: "0 < k" "parse_v4 (show_word x @ CHR ''.'' # s) 0 0 fs = parse_v4 (CHR ''.'' # s) (unat x) k fs"
    using parse_v4_word by blast
  with assms show ?thesis
    by simp
qed

lemma parse_v4_last: "length fs = 3 \<Longrightarrow> parse_v4 (show_word (x :: u8)) 0 0 fs = Some (fs @ [x])"
  using parse_v4_word[of x "[]" fs] by auto

lemma show_word_nonempty [simp]: "show_word x \<noteq> []"
  by (simp add: show_word_def)

lemma length_4: "length a = 4 \<Longrightarrow> \<exists>w x y z. a = [w, x, y, z]"
  by (auto simp: length_Suc_conv eval_nat_numeral)

lemma parse_v4_dotted:
  assumes "length a = 4"
  shows "parse_v4 (dotted a) 0 0 [] = Some a"
proof -
  obtain w x y z where a: "a = [w, x, y, z]"
    using length_4[OF assms] by blast
  show ?thesis
    by (simp add: a dotted_def parse_v4_field parse_v4_last)
qed

lemma dotted_inject: "length a = 4 \<Longrightarrow> length b = 4 \<Longrightarrow> dotted a = dotted b \<longleftrightarrow> a = b"
  by (metis option.inject parse_v4_dotted)

lemma set_join: "set (join sep xs) \<subseteq> set sep \<union> (\<Union>x \<in> set xs. set x)"
  by (induction sep xs rule: join.induct) auto

lemma set_show_word: "c \<in> set (show_word w) \<Longrightarrow> is_digit c"
  by (simp add: show_word_def dec_digits_digits)

lemma set_dotted: "c \<in> set (dotted a) \<Longrightarrow> is_digit c \<or> c = CHR ''.''"
  using set_join[of "''.''" "map show_word a"] by (auto simp: dotted_def dest: set_show_word)

lemma find_dot: "length a = 4 \<Longrightarrow> find (\<lambda>c. c = CHR ''.'' \<or> c = CHR '':'') (dotted a) = Some (CHR ''.'')"
proof -
  assume "length a = 4"
  then obtain w x y z where a: "a = [w, x, y, z]"
    using length_4 by blast
  let ?P = "\<lambda>c. c = CHR ''.'' \<or> c = CHR '':''"
  have skip: "find ?P (xs @ ys) = find ?P ys" if "\<forall>c \<in> set xs. is_digit c" for xs ys
    using that by (induction xs) auto
  show ?thesis
    by (simp add: a dotted_def skip set_show_word)
qed

lemma ParseIP_dotted: "length a = 4 \<Longrightarrow> ParseIP (dotted a) = v4_in_v6 a"
  using set_dotted[of "CHR ''%''" a] by (auto simp: ParseIP_def find_dot parse_v4_dotted)

lemma To4_v4_in_v6 [simp]: "length a = 4 \<Longrightarrow> To4 (v4_in_v6 a) = Some a"
  by (simp add: To4_def v4_in_v6_def)

lemma To4_length: "To4 a = Some v \<Longrightarrow> length v = 4"
  by (auto simp: To4_def split: if_splits)

text \<open>Printing an IPv4 address and parsing it back gives the 16-byte form of the same address.\<close>

lemma ParseIP_IP_String:
  assumes "To4 a = Some v"
  shows "ParseIP (IP_String a) = v4_in_v6 v"
proof -
  have "length a = 4 \<or> length a = 16"
    using assms by (auto simp: To4_def split: if_splits)
  then have "IP_String a = dotted v"
    using assms by (auto simp: IP_String_def)
  then show ?thesis
    using ParseIP_dotted[OF To4_length[OF assms]] by simp
qed

lemma hex_digit_not_dash: "d < 16 \<Longrightarrow> hex_digit d \<noteq> CHR ''-''"
proof
  assume "d < 16" and "hex_digit d = CHR ''-''"
  then have "(of_char (hex_digit d) :: nat) = 45"
    by simp
  with \<open>d < 16\<close> show False
    by (auto simp: hex_digit_def of_char_of split: if_splits)
qed

lemma hex2_not_dash: "CHR ''-'' \<notin> set (hex2 b)"
proof -
  have "unat b div 16 < 16"
    using unat_u8_less[of b] by linarith
  then show ?thesis
    using hex_digit_not_dash[of "unat b div 16"] hex_digit_not_dash[of "unat b mod 16"] by (simp add: hex2_def)
qed

lemma hex16_not_dash: "CHR ''-'' \<notin> set (hex16 n)"
proof -
  have "d < 16" if "d \<in> set (dropWhile (\<lambda>d. d = 0) [n div 4096 mod 16, n div 256 mod 16, n div 16 mod 16] @ [n mod 16])" for d
    using that by (auto dest!: set_dropWhileD simp del: dropWhile.simps)
  then have "hex_digit d \<noteq> CHR ''-''"
    if "d \<in> set (dropWhile (\<lambda>d. d = 0) [n div 4096 mod 16, n div 256 mod 16, n div 16 mod 16] @ [n mod 16])" for d
    using hex_digit_not_dash that by blast
  then show ?thesis
    unfolding hex16_def Let_def set_map image_iff by metis
qed

lemma join_not_dash:
  "CHR ''-'' \<notin> set sep \<Longrightarrow> (\<And>x. x \<in> set xs \<Longrightarrow> CHR ''-'' \<notin> set x) \<Longrightarrow> CHR ''-'' \<notin> set (join sep xs)"
  using set_join by fastforce

lemma IP_String_not_dash: "CHR ''-'' \<notin> set (IP_String a)"
proof -
  have join_hex16: "CHR ''-'' \<notin> set (join '':'' (map hex16 gs))" for gs
    by (rule join_not_dash) (auto simp: hex16_not_dash)
  have "CHR ''-'' \<notin> set (show_v6 a)"
    using join_hex16 by (auto simp: show_v6_def Let_def split: prod.splits)
  moreover have "CHR ''-'' \<notin> set (dotted v)" for v
    using set_dotted[of "CHR ''-''" v] by auto
  ultimately show ?thesis
    by (auto simp: IP_String_def hex2_not_dash split: option.splits)
qed

end
