(* ===== verification/ControllerTypes.thy ===== *)
theory ControllerTypes
  imports GoNet
begin

text \<open>
  The data of the controller, \<open>micro-segment/internal/controller/types.go\<close>: one record per struct
  with the fields in the order of the source.  Field names carry a prefix per record.  A
  \<open>PolicyMode\<close> is a string, a \<open>PolicyAction\<close> a byte, as in the source.
\<close>

type_synonym PolicyMode = string

definition PolicyModeMonitor :: PolicyMode where "PolicyModeMonitor = ''Monitor''"
definition PolicyModeProtect :: PolicyMode where "PolicyModeProtect = ''Protect''"

type_synonym PolicyAction = u8

definition PolicyActionOpen :: PolicyAction where "PolicyActionOpen = 0"
definition PolicyActionAllow :: PolicyAction where "PolicyActionAllow = 1"
definition PolicyActionDeny :: PolicyAction where "PolicyActionDeny = 2"
definition PolicyActionViolate :: PolicyAction where "PolicyActionViolate = 3"

lemmas policy_consts =
  PolicyModeMonitor_def PolicyModeProtect_def
  PolicyActionOpen_def PolicyActionAllow_def PolicyActionDeny_def PolicyActionViolate_def

record GroupCriteria =
  gc_key :: string
  gc_value :: string
  gc_op :: string

record Group =
  gr_name :: string
  gr_comment :: string
  gr_domain :: string
  gr_policy_mode :: PolicyMode
  gr_members :: "string list"
  gr_criteria :: "GroupCriteria list"
  gr_created_at :: time
  gr_updated_at :: time

record PolicyRule =
  pr_id :: u32
  pr_comment :: string
  pr_from :: string
  pr_to :: string
  pr_ports :: string
  pr_applications :: "u32 list"
  pr_action :: string
  pr_disable :: bool
  pr_priority :: u32
  pr_created_at :: time
  pr_updated_at :: time

record Connection =
  cn_client_wl :: string
  cn_server_wl :: string
  cn_client_ip :: ip
  cn_server_ip :: ip
  cn_client_port :: u16
  cn_server_port :: u16
  cn_ip_proto :: u8
  cn_application :: u32
  cn_bytes :: u64
  cn_sessions :: u32
  cn_first_seen_at :: u32
  cn_last_seen_at :: u32
  cn_threat_id :: u32
  cn_severity :: u8
  cn_policy_action :: u8
  cn_policy_id :: u32
  cn_ingress :: bool
  cn_external_peer :: bool
  cn_local_peer :: bool

record IPAddr =
  ia_ip :: ip
  ia_scope :: string

record Workload =
  wl_id :: string
  wl_name :: string
  wl_domain :: string
  wl_host_id :: string
  wl_host_name :: string
  wl_image :: string
  wl_service :: string
  wl_policy_mode :: PolicyMode
  wl_running :: bool
  wl_ifaces :: "(string, IPAddr list) gomap"
  wl_created_at :: time

record Host =
  ho_id :: string
  ho_name :: string
  ho_platform :: string
  ho_ifaces :: "(string, IPAddr list) gomap"

record Agent =
  ag_id :: string
  ag_name :: string
  ag_host_id :: string
  ag_host_name :: string
  ag_joined_at :: time

record GraphNode =
  gn_id :: string
  gn_name :: string
  gn_kind :: string
  gn_domain :: string
  gn_service :: string
  gn_policy_mode :: string

record GraphLink =
  gl_from :: string
  gl_to :: string
  gl_bytes :: u64
  gl_sessions :: u32
  gl_severity :: u8
  gl_policy_action :: u8

record NetworkGraph =
  ng_nodes :: "GraphNode list"
  ng_links :: "GraphLink list"

text \<open>The zero time of Go stands before every instant of the clock.\<close>

definition zero_time :: time where
  "zero_time = - 62135596800000000000"

end
