(* ===== verification/Proto.thy ===== *)
theory Proto
  imports GoNet
begin

text \<open>
  The messages of the agent/controller protocol as the structs that
  \<open>micro-segment/api/proto/microseg.pb.go\<close> declares, without the bookkeeping fields of the protobuf
  runtime.  A pointer to a message is an \<open>option\<close>; the elements of a repeated field of an unmarshalled
  message are never \<open>nil\<close>.  A \<open>float32\<close> is kept as its 32 bits.
\<close>

record pbAgentInfo =
  ai_agent_id :: string
  ai_host_id :: string
  ai_host_name :: string
  ai_version :: string
  ai_platform :: string

record pbRegisterResponse =
  rr_code :: int
  rr_message :: string
  rr_cluster_id :: string
  rr_report_interval :: u32

record pbAgentStats =
  as_workload_count :: u32
  as_connection_count :: u32
  as_policy_count :: u32
  as_memory_usage :: u64
  as_cpu_usage :: u32

record pbHeartbeatRequest =
  hq_agent_id :: string
  hq_timestamp :: u64
  hq_stats :: "pbAgentStats option"

record pbHeartbeatResponse =
  hr_code :: int
  hr_timestamp :: u64

record pbReportResponse =
  rp_code :: int
  rp_message :: string
  rp_report_interval :: u32

record pbIPAddress =
  pa_ip :: string
  pa_scope :: string
  pa_gateway :: string

record pbNetworkInterface =
  pn_name :: string
  pn_mac :: string
  pn_addrs :: "pbIPAddress list"

record pbWorkload =
  pw_id :: string
  pw_name :: string
  pw_host_id :: string
  pw_host_name :: string
  pw_domain :: string
  pw_service :: string
  pw_image :: string
  pw_policy_mode :: string
  pw_running :: bool
  pw_pid :: int
  pw_ifaces :: "pbNetworkInterface list"
  pw_labels :: "(string, string) gomap"

record pbWorkloadEvent =
  we_agent_id :: string
  we_event_type :: string
  we_workload :: "pbWorkload option"

record pbConnection =
  pc_client_wl :: string
  pc_server_wl :: string
  pc_client_ip :: "u8 list"
  pc_server_ip :: "u8 list"
  pc_client_port :: u32
  pc_server_port :: u32
  pc_ip_proto :: u32
  pc_application :: u32
  pc_bytes :: u64
  pc_sessions :: u32
  pc_first_seen_at :: u32
  pc_last_seen_at :: u32
  pc_threat_id :: u32
  pc_severity :: u32
  pc_policy_action :: u32
  pc_policy_id :: u32
  pc_ingress :: bool
  pc_external_peer :: bool
  pc_local_peer :: bool
  pc_scope :: string
  pc_network :: string
  pc_violates :: u32

record pbConnectionReport =
  cr_agent_id :: string
  cr_host_id :: string
  cr_connections :: "pbConnection list"

record pbThreatLog =
  pt_id :: string
  pt_threat_id :: u32
  pt_threat_name :: string
  pt_severity :: string
  pt_client_wl :: string
  pt_server_wl :: string
  pt_client_ip :: "u8 list"
  pt_server_ip :: "u8 list"
  pt_server_port :: u32
  pt_ip_proto :: u32
  pt_pkt_ingress :: bool
  pt_local_peer :: bool
  pt_reported_at :: u64

record pbThreatReport =
  tr_agent_id :: string
  tr_host_id :: string
  tr_threats :: "pbThreatLog list"

record pbPolicyRule =
  pp_id :: u32
  pp_from :: string
  pp_to :: string
  pp_ports :: string
  pp_applications :: "u32 list"
  pp_action :: u32
  pp_ingress :: bool
  pp_priority :: u32
  pp_disable :: bool
  pp_comment :: string

record pbPolicyList =
  pl_rules :: "pbPolicyRule list"

record pbPolicyRequest =
  pq_agent_id :: string
  pq_workload_ids :: "string list"

end
