(* ===== verification/Graph.thy ===== *)
theory Graph
  imports Prelude
begin

text \<open>
  The topology graph of the controller, \<open>micro-segment/internal/controller/graph/graph.go\<close>.

  A node keeps its outgoing and its incoming links in two maps, so that every edge is stored twice:
  under its source and under its destination.  The registered callbacks are modelled by flags, and
  every operation returns the list of callback calls it makes.  The mutex makes each exported method
  atomic, so a method is one state transformer.

  The theory shows that the two copies of an edge stay equal, that the operations implement an
  abstract graph (a set of nodes and a partial map from edges to attributes), and that the callbacks
  report exactly the changes.  The contract of the store is the locale \<open>link_store\<close>.
\<close>

section \<open>Model\<close>

record 'a graphLink =
  ends :: "(string, 'a) gomap"

record 'a graphNode =
  ins :: "(string, 'a graphLink) gomap"
  outs :: "(string, 'a graphLink) gomap"

record 'a Graph =
  nodes :: "(string, 'a graphNode) gomap"
  cbNewLink :: bool
  cbDelNode :: bool
  cbDelLink :: bool
  cbUpdateLinkAttr :: bool

datatype graph_event =
    NewLink string string string
  | DelNode string
  | DelLink string string string
  | UpdateLinkAttr string string string

definition NewGraph :: "'a Graph" where
  "NewGraph = \<lparr>nodes = [], cbNewLink = False, cbDelNode = False, cbDelLink = False,
     cbUpdateLinkAttr = False\<rparr>"

definition RegisterNewLinkHook :: "bool \<Rightarrow> 'a Graph \<Rightarrow> 'a Graph" where
  "RegisterNewLinkHook cb g = g\<lparr>cbNewLink := cb\<rparr>"

definition RegisterDelNodeHook :: "bool \<Rightarrow> 'a Graph \<Rightarrow> 'a Graph" where
  "RegisterDelNodeHook cb g = g\<lparr>cbDelNode := cb\<rparr>"

definition RegisterDelLinkHook :: "bool \<Rightarrow> 'a Graph \<Rightarrow> 'a Graph" where
  "RegisterDelLinkHook cb g = g\<lparr>cbDelLink := cb\<rparr>"

definition RegisterUpdateLinkAttrHook :: "bool \<Rightarrow> 'a Graph \<Rightarrow> 'a Graph" where
  "RegisterUpdateLinkAttrHook cb g = g\<lparr>cbUpdateLinkAttr := cb\<rparr>"

definition Reset :: "'a Graph \<Rightarrow> 'a Graph" where
  "Reset g = g\<lparr>nodes := []\<rparr>"

text \<open>
  The first half of \<open>AddLink\<close> stores the edge under its source, the second half under its
  destination.  Each half returns the graph and the values it gives to \<open>newlink\<close> and \<open>updattr\<close>.
\<close>

definition AddLink_src :: "'a Graph \<Rightarrow> string \<Rightarrow> string \<Rightarrow> string \<Rightarrow> 'a \<Rightarrow> 'a Graph \<times> bool \<times> bool" where
  "AddLink_src g src link dst attr =
     (case gget (nodes g) src of
        None \<Rightarrow>
          (let gl = \<lparr>ends = [(dst, attr)]\<rparr>;
               gn = \<lparr>ins = [], outs = [(link, gl)]\<rparr>
           in (g\<lparr>nodes := gput src gn (nodes g)\<rparr>, True, False))
      | Some gn \<Rightarrow>
          (case gget (outs gn) link of
             None \<Rightarrow>
               (let gl = \<lparr>ends = [(dst, attr)]\<rparr>;
                    gn' = gn\<lparr>outs := gput link gl (outs gn)\<rparr>
                in (g\<lparr>nodes := gput src gn' (nodes g)\<rparr>, True, False))
           | Some gl \<Rightarrow>
               (let gl' = gl\<lparr>ends := gput dst attr (ends gl)\<rparr>;
                    gn' = gn\<lparr>outs := gput link gl' (outs gn)\<rparr>;
                    g' = g\<lparr>nodes := gput src gn' (nodes g)\<rparr>
                in case gget (ends gl) dst of
                     None \<Rightarrow> (g', True, False)
                   | Some a \<Rightarrow> if a \<noteq> attr then (g', False, True) else (g, False, False))))"

definition AddLink_dst :: "'a Graph \<Rightarrow> string \<Rightarrow> string \<Rightarrow> string \<Rightarrow> 'a \<Rightarrow> 'a Graph \<times> bool \<times> bool" where
  "AddLink_dst g src link dst attr =
     (case gget (nodes g) dst of
        None \<Rightarrow>
          (let gl = \<lparr>ends = [(src, attr)]\<rparr>;
               gn = \<lparr>ins = [(link, gl)], outs = []\<rparr>
           in (g\<lparr>nodes := gput dst gn (nodes g)\<rparr>, True, False))
      | Some gn \<Rightarrow>
          (case gget (ins gn) link of
             None \<Rightarrow>
               (let gl = \<lparr>ends = [(src, attr)]\<rparr>;
                    gn' = gn\<lparr>ins := gput link gl (ins gn)\<rparr>
                in (g\<lparr>nodes := gput dst gn' (nodes g)\<rparr>, True, False))
           | Some gl \<Rightarrow>
               (let gl' = gl\<lparr>ends := gput src attr (ends gl)\<rparr>;
                    gn' = gn\<lparr>ins := gput link gl' (ins gn)\<rparr>;
                    g' = g\<lparr>nodes := gput dst gn' (nodes g)\<rparr>
                in case gget (ends gl) src of
                     None \<Rightarrow> (g', True, False)
                   | Some a \<Rightarrow> if a \<noteq> attr then (g', False, True) else (g, False, False))))"

definition AddLink :: "'a Graph \<Rightarrow> string \<Rightarrow> string \<Rightarrow> string \<Rightarrow> 'a \<Rightarrow> 'a Graph \<times> graph_event list" where
  "AddLink g src link dst attr =
     (let (g1, new1, upd1) = AddLink_src g src link dst attr;
          (g2, new2, upd2) = AddLink_dst g1 src link dst attr;
          newlink = new1 \<or> new2;
          updattr = upd1 \<or> upd2
      in (g2,
          (if newlink \<and> cbNewLink g then [NewLink src link dst] else []) @
          (if updattr \<and> cbUpdateLinkAttr g then [UpdateLinkAttr src link dst] else [])))"

text \<open>\<open>Attr\<close> returns \<open>nil\<close> when there is no such link.\<close>

definition Attr :: "'a Graph \<Rightarrow> string \<Rightarrow> string \<Rightarrow> string \<Rightarrow> 'a option" where
  "Attr g src link dst =
     (case gget (nodes g) src of
        None \<Rightarrow> None
      | Some s \<Rightarrow> (case gget (outs s) link of
                    None \<Rightarrow> None
                  | Some gl \<Rightarrow> gget (ends gl) dst))"

text \<open>
  Removal of one end from a link map, with the removal of the link when its last end is gone.  The
  boolean says that the link itself was removed, the condition under which \<open>DeleteLink\<close> calls the
  delete callback.
\<close>

definition remove_end ::
  "(string, 'a graphLink) gomap \<Rightarrow> string \<Rightarrow> string \<Rightarrow> (string, 'a graphLink) gomap \<times> bool" where
  "remove_end m link e =
     (case gget m link of
        None \<Rightarrow> (m, False)
      | Some gl \<Rightarrow>
          (case gget (ends gl) e of
             None \<Rightarrow> (m, False)
           | Some _ \<Rightarrow>
               (let es = gdel e (ends gl)
                in if es = [] then (gdel link m, True)
                   else (gput link (gl\<lparr>ends := es\<rparr>) m, False))))"

definition DeleteLink :: "'a Graph \<Rightarrow> string \<Rightarrow> string \<Rightarrow> string \<Rightarrow> 'a Graph \<times> graph_event list" where
  "DeleteLink g src link dst =
     (case gget (nodes g) src of
        None \<Rightarrow> (g, [])
      | Some s \<Rightarrow>
          (case gget (nodes g) dst of
             None \<Rightarrow> (g, [])
           | Some _ \<Rightarrow>
               (let (os, gone1) = remove_end (outs s) link dst;
                    ns1 = gput src (s\<lparr>outs := os\<rparr>) (nodes g);
                    ev = (if cbDelLink g then [DelLink src link dst] else [])
                in case gget ns1 dst of
                     None \<Rightarrow> (g\<lparr>nodes := ns1\<rparr>, if gone1 then ev else [])
                   | Some d \<Rightarrow>
                       (let (ne, gone2) = remove_end (ins d) link src
                        in (g\<lparr>nodes := gput dst (d\<lparr>ins := ne\<rparr>) ns1\<rparr>,
                            (if gone1 then ev else []) @ (if gone2 then ev else []))))))"

definition deleteLink :: "'a Graph \<Rightarrow> string \<Rightarrow> string \<Rightarrow> string \<Rightarrow> 'a Graph" where
  "deleteLink g src link dst =
     (case gget (nodes g) src of
        None \<Rightarrow> g
      | Some s \<Rightarrow>
          (case gget (nodes g) dst of
             None \<Rightarrow> g
           | Some _ \<Rightarrow>
               (let ns1 = gput src (s\<lparr>outs := fst (remove_end (outs s) link dst)\<rparr>) (nodes g)
                in case gget ns1 dst of
                     None \<Rightarrow> g\<lparr>nodes := ns1\<rparr>
                   | Some d \<Rightarrow>
                       g\<lparr>nodes := gput dst (d\<lparr>ins := fst (remove_end (ins d) link src)\<rparr>) ns1\<rparr>)))"

text \<open>
  The two range loops of \<open>DeleteNode\<close> delete only the entry they are visiting, so each of them
  visits the entries that are present when it starts.
\<close>

definition link_ends :: "(string, 'a graphLink) gomap \<Rightarrow> (string \<times> string) list" where
  "link_ends m = concat (map (\<lambda>(link, gl). map (\<lambda>(n, _). (link, n)) (ends gl)) m)"

definition DeleteNode :: "'a Graph \<Rightarrow> string \<Rightarrow> 'a Graph \<times> string \<times> graph_event list" where
  "DeleteNode g node =
     (case gget (nodes g) node of
        None \<Rightarrow> (g, '''', [])
      | Some gn \<Rightarrow>
          (let g1 = fold (\<lambda>(link, n) h. deleteLink h n link node) (link_ends (ins gn)) g;
               os = (case gget (nodes g1) node of None \<Rightarrow> [] | Some gn1 \<Rightarrow> link_ends (outs gn1));
               g2 = fold (\<lambda>(link, n) h. deleteLink h node link n) os g1
           in (g2\<lparr>nodes := gdel node (nodes g2)\<rparr>, node, if cbDelNode g then [DelNode node] else [])))"

definition Node :: "'a Graph \<Rightarrow> string \<Rightarrow> string" where
  "Node g v = (case gget (nodes g) v of Some _ \<Rightarrow> v | None \<Rightarrow> '''')"

definition AllNodes :: "'a Graph \<Rightarrow> string list" where
  "AllNodes g = map fst (nodes g)"

text \<open>\<open>Ins\<close> and \<open>Outs\<close> return \<open>nil\<close> for an unknown node; both lists are empty then.\<close>

definition Ins :: "'a Graph \<Rightarrow> string \<Rightarrow> string list" where
  "Ins g node = (case gget (nodes g) node of None \<Rightarrow> [] | Some n \<Rightarrow> map snd (link_ends (ins n)))"

definition Outs :: "'a Graph \<Rightarrow> string \<Rightarrow> string list" where
  "Outs g node = (case gget (nodes g) node of None \<Rightarrow> [] | Some n \<Rightarrow> map snd (link_ends (outs n)))"

definition GetNodeCount :: "'a Graph \<Rightarrow> nat" where
  "GetNodeCount g = length (nodes g)"

definition GetLinkCount :: "'a Graph \<Rightarrow> nat" where
  "GetLinkCount g =
     sum_list (map (\<lambda>(_, n). sum_list (map (\<lambda>(_, l). length (ends l)) (outs n))) (nodes g))"

section \<open>Link maps\<close>

definition link_get :: "(string, 'a graphLink) gomap \<Rightarrow> string \<Rightarrow> string \<Rightarrow> 'a option" where
  "link_get m l e = (case gget m l of None \<Rightarrow> None | Some gl \<Rightarrow> gget (ends gl) e)"

definition link_put ::
  "(string, 'a graphLink) gomap \<Rightarrow> string \<Rightarrow> string \<Rightarrow> 'a \<Rightarrow> (string, 'a graphLink) gomap" where
  "link_put m l e a =
     gput l \<lparr>ends = gput e a (case gget m l of None \<Rightarrow> [] | Some gl \<Rightarrow> ends gl)\<rparr> m"

definition link_wf :: "(string, 'a graphLink) gomap \<Rightarrow> bool" where
  "link_wf m \<longleftrightarrow> gwf m \<and> (\<forall>(l, gl) \<in> set m. gwf (ends gl) \<and> ends gl \<noteq> [])"

lemma link_wf_alt:
  "link_wf m \<longleftrightarrow> gwf m \<and> (\<forall>l gl. gget m l = Some gl \<longrightarrow> gwf (ends gl) \<and> ends gl \<noteq> [])"
  by (auto simp: link_wf_def gget_iff_mem)

lemma link_wf_Nil [simp]: "link_wf []"
  by (simp add: link_wf_def)

lemma link_get_Nil [simp]: "link_get [] l e = None"
  by (simp add: link_get_def)

lemma link_get_put [simp]:
  "link_get (link_put m l e a) l' e' = (if l' = l \<and> e' = e then Some a else link_get m l' e')"
  by (auto simp: link_get_def link_put_def split: option.splits)

lemma link_wf_put [simp, intro]: "link_wf m \<Longrightarrow> link_wf (link_put m l e a)"
  by (auto simp: link_wf_alt link_put_def split: option.splits if_splits)

lemma link_get_remove_end:
  "link_get (fst (remove_end m l e)) l' e' = (if l' = l \<and> e' = e then None else link_get m l' e')"
proof (cases "gget m l")
  case None
  then show ?thesis by (auto simp: remove_end_def link_get_def)
next
  case (Some gl)
  show ?thesis
  proof (cases "gget (ends gl) e")
    case None
    with Some show ?thesis by (auto simp: remove_end_def link_get_def)
  next
    case (Some a)
    have "gget (ends gl) e' = None" if "gdel e (ends gl) = []" "e' \<noteq> e" for e'
      using that by (auto simp: gdel_eq_Nil_iff)
    with Some \<open>gget m l = Some gl\<close> show ?thesis
      by (auto simp: remove_end_def link_get_def Let_def)
  qed
qed

lemma link_wf_remove_end: "link_wf m \<Longrightarrow> link_wf (fst (remove_end m l e))"
  by (auto simp: remove_end_def link_wf_alt Let_def split: option.splits if_splits)

lemma remove_end_gone:
  assumes "link_wf m"
  shows "snd (remove_end m l e) \<longleftrightarrow> {x. link_get m l x \<noteq> None} = {e}"
proof (cases "gget m l")
  case None
  then show ?thesis by (auto simp: remove_end_def link_get_def)
next
  case (Some gl)
  then show ?thesis
    by (auto simp: remove_end_def link_get_def Let_def gdel_eq_Nil_iff dom_def split: option.splits
        dest: equalityD2)
qed

lemma link_ends_iff:
  assumes "link_wf m"
  shows "(l, e) \<in> set (link_ends m) \<longleftrightarrow> link_get m l e \<noteq> None"
proof -
  have "(l, e) \<in> set (link_ends m) \<longleftrightarrow> (\<exists>gl a. (l, gl) \<in> set m \<and> (e, a) \<in> set (ends gl))"
    by (fastforce simp: link_ends_def)
  also have "\<dots> \<longleftrightarrow> link_get m l e \<noteq> None"
    using assms by (fastforce simp: link_wf_def link_get_def gget_iff_mem split: option.splits)
  finally show ?thesis .
qed

section \<open>Well-formed graphs\<close>

text \<open>The copy of an edge that is stored under its destination.\<close>

definition in_attr :: "'a Graph \<Rightarrow> string \<Rightarrow> string \<Rightarrow> string \<Rightarrow> 'a option" where
  "in_attr g src link dst =
     (case gget (nodes g) dst of None \<Rightarrow> None | Some d \<Rightarrow> link_get (ins d) link src)"

definition graph_wf :: "'a Graph \<Rightarrow> bool" where
  "graph_wf g \<longleftrightarrow>
     gwf (nodes g) \<and>
     (\<forall>v n. gget (nodes g) v = Some n \<longrightarrow> link_wf (ins n) \<and> link_wf (outs n)) \<and>
     (\<forall>s l d. in_attr g s l d = Attr g s l d)"

definition node_or_new :: "'a Graph \<Rightarrow> string \<Rightarrow> 'a graphNode" where
  "node_or_new g v = (case gget (nodes g) v of None \<Rightarrow> \<lparr>ins = [], outs = []\<rparr> | Some n \<Rightarrow> n)"

lemma Attr_alt: "Attr g s l d = link_get (outs (node_or_new g s)) l d"
  by (simp add: Attr_def link_get_def node_or_new_def split: option.splits)

lemma in_attr_alt: "in_attr g s l d = link_get (ins (node_or_new g d)) l s"
  by (simp add: in_attr_def link_get_def node_or_new_def split: option.splits)

lemma node_or_new_upd [simp]:
  "node_or_new (g\<lparr>nodes := gput v n (nodes g)\<rparr>) w = (if w = v then n else node_or_new g w)"
  by (simp add: node_or_new_def)

lemma graph_wfD [dest]:
  "graph_wf g \<Longrightarrow> gwf (nodes g)"
  "graph_wf g \<Longrightarrow> link_wf (ins (node_or_new g v))"
  "graph_wf g \<Longrightarrow> link_wf (outs (node_or_new g v))"
  "graph_wf g \<Longrightarrow> in_attr g s l d = Attr g s l d"
  by (auto simp: graph_wf_def node_or_new_def split: option.splits)

lemma graph_wfI:
  assumes "gwf (nodes g)"
    and "\<And>v. link_wf (ins (node_or_new g v))" and "\<And>v. link_wf (outs (node_or_new g v))"
    and "\<And>s l d. in_attr g s l d = Attr g s l d"
  shows "graph_wf g"
  using assms(1,4) assms(2,3)[unfolded node_or_new_def]
  by (fastforce simp: graph_wf_def split: option.splits)

lemma Attr_node: "graph_wf g \<Longrightarrow> Attr g s l d \<noteq> None \<Longrightarrow> gget (nodes g) s \<noteq> None \<and> gget (nodes g) d \<noteq> None"
  by (metis Attr_def graph_wfD(4) in_attr_def option.case_eq_if)

lemma NewGraph_wf: "graph_wf NewGraph"
  by (rule graph_wfI) (auto simp: NewGraph_def node_or_new_def in_attr_def Attr_def)

lemma Reset_wf: "graph_wf (Reset g)"
  by (rule graph_wfI) (auto simp: Reset_def node_or_new_def in_attr_def Attr_def)

section \<open>AddLink\<close>

lemma ends_update_eq [simp]: "(gl :: 'a graphLink)\<lparr>ends := e\<rparr> = \<lparr>ends = e\<rparr>"
  by (cases gl) simp

lemma AddLink_src_eq:
  "AddLink_src g s l d a =
     (g\<lparr>nodes := gput s ((node_or_new g s)\<lparr>outs := link_put (outs (node_or_new g s)) l d a\<rparr>) (nodes g)\<rparr>,
      Attr g s l d = None, \<exists>b. Attr g s l d = Some b \<and> b \<noteq> a)"
  by (auto simp: AddLink_src_def node_or_new_def Attr_def link_put_def update_triv Let_def
      split: option.splits)

lemma AddLink_dst_eq:
  "AddLink_dst g s l d a =
     (g\<lparr>nodes := gput d ((node_or_new g d)\<lparr>ins := link_put (ins (node_or_new g d)) l s a\<rparr>) (nodes g)\<rparr>,
      in_attr g s l d = None, \<exists>b. in_attr g s l d = Some b \<and> b \<noteq> a)"
  by (auto simp: AddLink_dst_def node_or_new_def in_attr_def link_get_def link_put_def update_triv Let_def
      split: option.splits)

definition AddLink_graph :: "'a Graph \<Rightarrow> string \<Rightarrow> string \<Rightarrow> string \<Rightarrow> 'a \<Rightarrow> 'a Graph" where
  "AddLink_graph g s l d a = fst (AddLink g s l d a)"

lemma node_or_new_AddLink:
  "node_or_new (AddLink_graph g s l d a) v =
     (node_or_new g v)
       \<lparr>outs := if v = s then link_put (outs (node_or_new g v)) l d a else outs (node_or_new g v),
        ins := if v = d then link_put (ins (node_or_new g v)) l s a else ins (node_or_new g v)\<rparr>"
  by (simp add: AddLink_graph_def AddLink_def AddLink_src_eq AddLink_dst_eq)
     (simp add: node_or_new_def)

lemma Attr_AddLink [simp]:
  "Attr (AddLink_graph g s l d a) s' l' d' =
     (if (s', l', d') = (s, l, d) then Some a else Attr g s' l' d')"
  by (simp add: Attr_alt node_or_new_AddLink)

lemma in_attr_AddLink [simp]:
  "in_attr (AddLink_graph g s l d a) s' l' d' =
     (if (s', l', d') = (s, l, d) then Some a else in_attr g s' l' d')"
  by (auto simp: in_attr_alt node_or_new_AddLink)

lemma dom_nodes_AddLink:
  "dom (gget (nodes (AddLink_graph g s l d a))) = insert s (insert d (dom (gget (nodes g))))"
  by (auto simp: AddLink_graph_def AddLink_def AddLink_src_eq AddLink_dst_eq split: if_splits)

lemma AddLink_wf:
  assumes "graph_wf g"
  shows "graph_wf (AddLink_graph g s l d a)"
proof (rule graph_wfI)
  show "gwf (nodes (AddLink_graph g s l d a))"
    using graph_wfD(1)[OF assms]
    by (simp add: AddLink_graph_def AddLink_def AddLink_src_eq AddLink_dst_eq)
qed (use graph_wfD[OF assms] in \<open>auto simp: node_or_new_AddLink\<close>)

lemma AddLink_events:
  assumes "graph_wf g"
  shows "snd (AddLink g s l d a) =
    (if Attr g s l d = None \<and> cbNewLink g then [NewLink s l d] else []) @
    (if (\<exists>b. Attr g s l d = Some b \<and> b \<noteq> a) \<and> cbUpdateLinkAttr g then [UpdateLinkAttr s l d] else [])"
proof -
  let ?g1 = "fst (AddLink_src g s l d a)"
  have "in_attr ?g1 s l d = in_attr g s l d"
    by (auto simp: AddLink_src_eq in_attr_alt)
  then have "in_attr ?g1 s l d = Attr g s l d"
    using graph_wfD(4)[OF assms] by metis
  then show ?thesis
    by (simp add: AddLink_def AddLink_dst_eq AddLink_src_eq)
qed

section \<open>Deletion of links and nodes\<close>

lemma deleteLink_absent: "gget (nodes g) s = None \<or> gget (nodes g) d = None \<Longrightarrow> deleteLink g s l d = g"
  by (auto simp: deleteLink_def split: option.splits)

lemma node_or_new_deleteLink:
  assumes "gget (nodes g) s \<noteq> None" and "gget (nodes g) d \<noteq> None"
  shows "node_or_new (deleteLink g s l d) v =
     (node_or_new g v)
       \<lparr>outs := if v = s then fst (remove_end (outs (node_or_new g v)) l d) else outs (node_or_new g v),
        ins := if v = d then fst (remove_end (ins (node_or_new g v)) l s) else ins (node_or_new g v)\<rparr>"
  using assms by (auto simp: deleteLink_def node_or_new_def Let_def)

lemma dom_nodes_deleteLink [simp]: "dom (gget (nodes (deleteLink g s l d))) = dom (gget (nodes g))"
  by (auto simp: deleteLink_def Let_def split: option.splits if_splits)

lemma gwf_deleteLink: "gwf (nodes g) \<Longrightarrow> gwf (nodes (deleteLink g s l d))"
  by (auto simp: deleteLink_def Let_def split: option.splits)

lemma Attr_deleteLink:
  assumes "graph_wf g"
  shows "Attr (deleteLink g s l d) s' l' d' = (if (s', l', d') = (s, l, d) then None else Attr g s' l' d')"
proof (cases "gget (nodes g) s = None \<or> gget (nodes g) d = None")
  case True
  then have "Attr g s l d = None"
    using Attr_node[OF assms] by blast
  with True show ?thesis
    by (auto simp: deleteLink_absent)
next
  case False
  then show ?thesis
    by (auto simp: Attr_alt node_or_new_deleteLink link_get_remove_end)
qed

lemma in_attr_deleteLink:
  assumes "graph_wf g"
  shows "in_attr (deleteLink g s l d) s' l' d' = (if (s', l', d') = (s, l, d) then None else in_attr g s' l' d')"
proof (cases "gget (nodes g) s = None \<or> gget (nodes g) d = None")
  case True
  then have "in_attr g s l d = None"
    using Attr_node[OF assms] graph_wfD(4)[OF assms] by metis
  with True show ?thesis
    by (auto simp: deleteLink_absent)
next
  case False
  then show ?thesis
    by (auto simp: in_attr_alt node_or_new_deleteLink link_get_remove_end)
qed

lemma deleteLink_wf:
  assumes "graph_wf g"
  shows "graph_wf (deleteLink g s l d)"
proof (cases "gget (nodes g) s = None \<or> gget (nodes g) d = None")
  case True
  with assms show ?thesis by (simp add: deleteLink_absent)
next
  case False
  show ?thesis
  proof (rule graph_wfI)
    show "gwf (nodes (deleteLink g s l d))"
      using assms by (auto intro: gwf_deleteLink)
  qed (use False graph_wfD[OF assms] in
      \<open>auto simp: node_or_new_deleteLink link_wf_remove_end Attr_deleteLink[OF assms] in_attr_deleteLink[OF assms]\<close>)
qed

lemma DeleteLink_fst: "fst (DeleteLink g s l d) = deleteLink g s l d"
  by (simp add: DeleteLink_def deleteLink_def Let_def split: option.splits prod.splits)

text \<open>A whole sequence of deletions.\<close>

definition deleteLinks :: "(string \<times> string \<times> string) list \<Rightarrow> 'a Graph \<Rightarrow> 'a Graph" where
  "deleteLinks es g = fold (\<lambda>(s, l, d) h. deleteLink h s l d) es g"

lemma deleteLinks_wf: "graph_wf g \<Longrightarrow> graph_wf (deleteLinks es g)"
  unfolding deleteLinks_def by (induction es arbitrary: g) (auto intro: deleteLink_wf)

lemma Attr_deleteLinks:
  "graph_wf g \<Longrightarrow> Attr (deleteLinks es g) s l d = (if (s, l, d) \<in> set es then None else Attr g s l d)"
  unfolding deleteLinks_def
  by (induction es arbitrary: g) (auto simp: deleteLink_wf Attr_deleteLink split: if_splits)

lemma dom_nodes_deleteLinks: "dom (gget (nodes (deleteLinks es g))) = dom (gget (nodes g))"
  unfolding deleteLinks_def by (induction es arbitrary: g) (simp_all add: case_prod_unfold)

lemma cb_deleteLink [simp]:
  "cbDelNode (deleteLink g s l d) = cbDelNode g"
  by (auto simp: deleteLink_def Let_def split: option.splits)

definition DeleteNode_graph :: "'a Graph \<Rightarrow> string \<Rightarrow> 'a Graph" where
  "DeleteNode_graph g v = fst (DeleteNode g v)"

text \<open>The graph right before the node itself is removed: no edge touches the node any more.\<close>

lemma DeleteNode_unlinked:
  assumes wf: "graph_wf g" and n: "gget (nodes g) v = Some n"
  obtains h where "DeleteNode_graph g v = h\<lparr>nodes := gdel v (nodes h)\<rparr>" and "graph_wf h"
    and "\<And>s l d. Attr h s l d = (if s = v \<or> d = v then None else Attr g s l d)"
    and "dom (gget (nodes h)) = dom (gget (nodes g))"
proof -
  define g1 where "g1 = deleteLinks (map (\<lambda>(l, s). (s, l, v)) (link_ends (ins n))) g"
  define n1 where "n1 = node_or_new g1 v"
  define h where "h = deleteLinks (map (Pair v) (link_ends (outs n1))) g1"
  have wf1: "graph_wf g1"
    using wf by (simp add: g1_def deleteLinks_wf)
  have nn: "node_or_new g v = n"
    using n by (simp add: node_or_new_def)
  have a1: "Attr g1 s l d = (if d = v then None else Attr g s l d)" for s l d
  proof -
    have "(s, l, v) \<in> set (map (\<lambda>(l, s). (s, l, v)) (link_ends (ins n))) \<longleftrightarrow> in_attr g s l v \<noteq> None"
      using link_ends_iff[of "ins n" l s] graph_wfD(2)[OF wf, of v] nn by (force simp: in_attr_alt)
    then show ?thesis
      using graph_wfD(4)[OF wf] by (auto simp: g1_def Attr_deleteLinks[OF wf])
  qed
  have "gget (nodes g1) v \<noteq> None"
    using n dom_nodes_deleteLinks[of _ g] unfolding g1_def by (metis domIff option.distinct(1))
  then have n1: "gget (nodes g1) v = Some n1"
    by (auto simp: n1_def node_or_new_def)
  have a2: "Attr h s l d = (if s = v \<or> d = v then None else Attr g s l d)" for s l d
  proof -
    have "(v, l, d) \<in> set (map (Pair v) (link_ends (outs n1))) \<longleftrightarrow> Attr g1 v l d \<noteq> None"
      using link_ends_iff[of "outs n1" l d] graph_wfD(3)[OF wf1, of v] by (force simp: Attr_alt n1_def)
    then show ?thesis
      using a1 by (auto simp: h_def Attr_deleteLinks[OF wf1])
  qed
  have conv: "fold (\<lambda>(l, s) h. deleteLink h s l v) xs k = deleteLinks (map (\<lambda>(l, s). (s, l, v)) xs) k"
    "fold (\<lambda>(l, d) h. deleteLink h v l d) xs k = deleteLinks (map (Pair v) xs) k" for xs k
    by (simp_all add: deleteLinks_def fold_map comp_def case_prod_unfold)
  have "DeleteNode_graph g v = h\<lparr>nodes := gdel v (nodes h)\<rparr>"
    using n n1 by (simp add: DeleteNode_graph_def DeleteNode_def Let_def conv flip: g1_def h_def)
  then show thesis
    using that wf1 a2 by (simp add: h_def g1_def deleteLinks_wf dom_nodes_deleteLinks)
qed

lemma DeleteNode_absent: "gget (nodes g) v = None \<Longrightarrow> DeleteNode_graph g v = g"
  by (simp add: DeleteNode_graph_def DeleteNode_def)

lemma node_or_new_del:
  "node_or_new (g\<lparr>nodes := gdel v (nodes g)\<rparr>) w =
     (if w = v then \<lparr>ins = [], outs = []\<rparr> else node_or_new g w)"
  by (simp add: node_or_new_def)

lemma Attr_DeleteNode:
  assumes "graph_wf g"
  shows "Attr (DeleteNode_graph g v) s l d = (if s = v \<or> d = v then None else Attr g s l d)"
proof (cases "gget (nodes g) v")
  case None
  then have "Attr g s l d = None" if "s = v \<or> d = v"
    using that Attr_node[OF assms, of s l d] by (cases "Attr g s l d") auto
  with None show ?thesis by (simp add: DeleteNode_absent)
next
  case (Some n)
  from DeleteNode_unlinked[OF assms Some] obtain h where
    h: "DeleteNode_graph g v = h\<lparr>nodes := gdel v (nodes h)\<rparr>"
    and a: "\<And>s l d. Attr h s l d = (if s = v \<or> d = v then None else Attr g s l d)"
    by metis
  show ?thesis
    unfolding h a[symmetric] by (auto simp: Attr_alt[of "h\<lparr>nodes := gdel v (nodes h)\<rparr>"] node_or_new_del a
        simp flip: Attr_alt)
qed

lemma DeleteNode_wf:
  assumes "graph_wf g"
  shows "graph_wf (DeleteNode_graph g v)"
proof (cases "gget (nodes g) v")
  case None
  with assms show ?thesis by (simp add: DeleteNode_absent)
next
  case (Some n)
  from DeleteNode_unlinked[OF assms Some] obtain h where
    h: "DeleteNode_graph g v = h\<lparr>nodes := gdel v (nodes h)\<rparr>" and wf: "graph_wf h"
    and a: "\<And>s l d. Attr h s l d = (if s = v \<or> d = v then None else Attr g s l d)"
    by metis
  let ?h = "h\<lparr>nodes := gdel v (nodes h)\<rparr>"
  have "in_attr ?h s l d = Attr ?h s l d" for s l d
    using graph_wfD(4)[OF wf, of s l d] a[of s l d]
    by (auto simp: in_attr_alt Attr_alt node_or_new_del)
  then show ?thesis
    unfolding h using graph_wfD(1-3)[OF wf] by (intro graph_wfI) (auto simp: node_or_new_del)
qed

lemma dom_nodes_DeleteNode:
  assumes "graph_wf g"
  shows "dom (gget (nodes (DeleteNode_graph g v))) = dom (gget (nodes g)) - {v}"
proof (cases "gget (nodes g) v")
  case None
  then show ?thesis by (auto simp: DeleteNode_absent)
next
  case (Some n)
  from DeleteNode_unlinked[OF assms Some] obtain h where
    h: "DeleteNode_graph g v = h\<lparr>nodes := gdel v (nodes h)\<rparr>"
    and d: "dom (gget (nodes h)) = dom (gget (nodes g))"
    by metis
  have "dom (gget (nodes (h\<lparr>nodes := gdel v (nodes h)\<rparr>))) = dom (gget (nodes h)) - {v}"
    by (auto split: if_splits)
  with h d show ?thesis by simp
qed

section \<open>The contract of a link store\<close>

locale link_store =
  fixes inv :: "'g \<Rightarrow> bool"
    and vertices :: "'g \<Rightarrow> 'v set"
    and attr :: "'g \<Rightarrow> 'v \<Rightarrow> 'l \<Rightarrow> 'v \<Rightarrow> 'a option"
    and add_link :: "'g \<Rightarrow> 'v \<Rightarrow> 'l \<Rightarrow> 'v \<Rightarrow> 'a \<Rightarrow> 'g"
    and del_node :: "'g \<Rightarrow> 'v \<Rightarrow> 'g"
  assumes inv_add_link: "inv g \<Longrightarrow> inv (add_link g s l d a)"
    and inv_del_node: "inv g \<Longrightarrow> inv (del_node g v)"
    and attr_add_link: "inv g \<Longrightarrow>
      attr (add_link g s l d a) s' l' d' = (if (s', l', d') = (s, l, d) then Some a else attr g s' l' d')"
    and attr_del_node: "inv g \<Longrightarrow>
      attr (del_node g v) s' l' d' = (if s' = v \<or> d' = v then None else attr g s' l' d')"
    and vertices_add_link: "inv g \<Longrightarrow> vertices (add_link g s l d a) = insert s (insert d (vertices g))"
    and vertices_del_node: "inv g \<Longrightarrow> vertices (del_node g v) = vertices g - {v}"
    and attr_vertices: "inv g \<Longrightarrow> attr g s l d \<noteq> None \<Longrightarrow> s \<in> vertices g \<and> d \<in> vertices g"
begin

definition add_links :: "('v \<times> 'l \<times> 'v \<times> 'a) list \<Rightarrow> 'g \<Rightarrow> 'g" where
  "add_links es g = fold (\<lambda>(s, l, d, a) h. add_link h s l d a) es g"

lemma inv_add_links: "inv g \<Longrightarrow> inv (add_links es g)"
  unfolding add_links_def by (induction es arbitrary: g) (auto intro: inv_add_link)

lemma attr_add_links:
  "inv g \<Longrightarrow> attr (add_links es g) s l d =
     (case map_of (rev (map (\<lambda>(s, l, d, a). ((s, l, d), a)) es)) (s, l, d) of
        None \<Rightarrow> attr g s l d | Some a \<Rightarrow> Some a)"
proof (induction es arbitrary: g)
  case Nil
  then show ?case by (simp add: add_links_def)
next
  case (Cons e es)
  obtain s0 l0 d0 a0 where e: "e = (s0, l0, d0, a0)" by (cases e)
  have "attr (add_links (e # es) g) s l d = attr (add_links es (add_link g s0 l0 d0 a0)) s l d"
    by (simp add: add_links_def e)
  also have "\<dots> = (case map_of (rev (map (\<lambda>(s, l, d, a). ((s, l, d), a)) es)) (s, l, d) of
        None \<Rightarrow> attr (add_link g s0 l0 d0 a0) s l d | Some a \<Rightarrow> Some a)"
    by (rule Cons.IH[OF inv_add_link[OF Cons.prems]])
  finally show ?case
    using Cons.prems by (simp add: e attr_add_link map_add_def split: option.splits)
qed

lemma del_node_isolates:
  "inv g \<Longrightarrow> attr (del_node g v) v l d = None \<and> attr (del_node g v) s l v = None \<and>
     v \<notin> vertices (del_node g v)"
  by (simp add: attr_del_node vertices_del_node)

lemma add_link_after_del_node:
  "inv g \<Longrightarrow> vertices (add_link (del_node g v) s l v a) = insert s (insert v (vertices g))"
  by (auto simp: vertices_add_link vertices_del_node inv_del_node)

end

interpretation topo: link_store graph_wf "\<lambda>g. dom (gget (nodes g))" Attr AddLink_graph DeleteNode_graph
proof unfold_locales
  fix g :: "'a Graph" and s l d
  show "graph_wf g \<Longrightarrow> Attr g s l d \<noteq> None \<Longrightarrow> s \<in> dom (gget (nodes g)) \<and> d \<in> dom (gget (nodes g))"
    using Attr_node by (metis domIff)
qed (simp_all add: AddLink_wf DeleteNode_wf Attr_DeleteNode dom_nodes_AddLink dom_nodes_DeleteNode)

section \<open>Counting\<close>

definition edges :: "'a Graph \<Rightarrow> (string \<times> string \<times> string) set" where
  "edges g = {(s, l, d). Attr g s l d \<noteq> None}"

lemma card_link_ends:
  assumes "link_wf m"
  shows "card {(l, e). link_get m l e \<noteq> None} = sum_list (map (\<lambda>(_, l). length (ends l)) m)"
proof -
  have eq: "{(l, e). link_get m l e \<noteq> None} = {(l, e). \<exists>gl. gget m l = Some gl \<and> e \<in> dom (gget (ends gl))}"
    by (auto simp: link_get_def split: option.splits)
  have "card {(l, e). \<exists>gl. gget m l = Some gl \<and> e \<in> dom (gget (ends gl))} =
      sum_list (map (\<lambda>(l, gl). card (dom (gget (ends gl)))) m)"
    using assms by (intro card_gomap_pairs) (auto simp: link_wf_def finite_dom_map_of)
  also have "\<dots> = sum_list (map (\<lambda>(_, l). length (ends l)) m)"
    using assms by (intro arg_cong[where f = sum_list] map_cong) (auto simp: link_wf_def length_gwf)
  finally show ?thesis
    unfolding eq .
qed

lemma finite_link_ends: "link_wf m \<Longrightarrow> finite {(l, e). link_get m l e \<noteq> None}"
  by (rule finite_subset[of _ "set (link_ends m)"]) (auto simp: link_ends_iff)

lemma GetLinkCount_card:
  assumes "graph_wf g"
  shows "GetLinkCount g = card (edges g)"
proof -
  let ?F = "\<lambda>n :: 'a graphNode. {(l, d). link_get (outs n) l d \<noteq> None}"
  have wf: "link_wf (outs n)" if "gget (nodes g) s = Some n" for s n
    using assms that by (simp add: graph_wf_def)
  have "edges g = {(s, x). \<exists>n. gget (nodes g) s = Some n \<and> x \<in> ?F n}"
    by (auto simp: edges_def Attr_alt node_or_new_def split: option.splits)
  moreover have "card {(s, x). \<exists>n. gget (nodes g) s = Some n \<and> x \<in> ?F n} =
      sum_list (map (\<lambda>(s, n). card (?F n)) (nodes g))"
    using assms wf finite_link_ends by (intro card_gomap_pairs) blast+
  ultimately have "card (edges g) = sum_list (map (\<lambda>(s, n). card (?F n)) (nodes g))"
    by simp
  also have "\<dots> = GetLinkCount g"
    unfolding GetLinkCount_def
  proof (intro arg_cong[where f = sum_list] map_cong refl)
    fix p
    assume "p \<in> set (nodes g)"
    then have "link_wf (outs (snd p))"
      using wf[of "fst p" "snd p"] assms by (simp add: graph_wf_def gget_iff_mem)
    from card_link_ends[OF this]
    show "(case p of (s, n) \<Rightarrow> card (?F n)) = (case p of (_, n) \<Rightarrow> sum_list (map (\<lambda>(_, l). length (ends l)) (outs n)))"
      by (cases p) simp
  qed
  finally show ?thesis ..
qed

lemma GetNodeCount_card: "graph_wf g \<Longrightarrow> GetNodeCount g = card (dom (gget (nodes g)))"
  by (simp add: GetNodeCount_def length_gwf graph_wf_def)

lemma set_Ins: "graph_wf g \<Longrightarrow> set (Ins g v) = {s. \<exists>l. Attr g s l v \<noteq> None}"
proof -
  assume wf: "graph_wf g"
  have "s \<in> set (Ins g v) \<longleftrightarrow> (\<exists>l. in_attr g s l v \<noteq> None)" for s
    using link_ends_iff[of "ins (node_or_new g v)"] graph_wfD(2)[OF wf, of v]
    by (cases "gget (nodes g) v") (force simp: Ins_def in_attr_def node_or_new_def)+
  then show ?thesis
    using graph_wfD(4)[OF wf] by auto
qed

lemma set_Outs: "graph_wf g \<Longrightarrow> set (Outs g v) = {d. \<exists>l. Attr g v l d \<noteq> None}"
proof -
  assume wf: "graph_wf g"
  have "d \<in> set (Outs g v) \<longleftrightarrow> (\<exists>l. Attr g v l d \<noteq> None)" for d
    using link_ends_iff[of "outs (node_or_new g v)"] graph_wfD(3)[OF wf, of v]
    by (cases "gget (nodes g) v") (force simp: Outs_def Attr_alt node_or_new_def)+
  then show ?thesis by auto
qed

section \<open>Abstract graph\<close>

text \<open>What the component promises: a set of nodes and a partial map from edges to attributes.\<close>

type_synonym 'a agraph = "string set \<times> (string \<times> string \<times> string \<Rightarrow> 'a option)"

definition graph_abs :: "'a Graph \<Rightarrow> 'a agraph" where
  "graph_abs g = (dom (gget (nodes g)), \<lambda>(s, l, d). Attr g s l d)"

definition a_add :: "string \<Rightarrow> string \<Rightarrow> string \<Rightarrow> 'a \<Rightarrow> 'a agraph \<Rightarrow> 'a agraph" where
  "a_add s l d a = (\<lambda>(V, E). (V \<union> {s, d}, E((s, l, d) \<mapsto> a)))"

definition a_del_link :: "string \<Rightarrow> string \<Rightarrow> string \<Rightarrow> 'a agraph \<Rightarrow> 'a agraph" where
  "a_del_link s l d = (\<lambda>(V, E). (V, E((s, l, d) := None)))"

definition a_del_node :: "string \<Rightarrow> 'a agraph \<Rightarrow> 'a agraph" where
  "a_del_node v = (\<lambda>(V, E). (V - {v}, \<lambda>(s, l, d). if s = v \<or> d = v then None else E (s, l, d)))"

lemma graph_abs_AddLink: "graph_abs (fst (AddLink g s l d a)) = a_add s l d a (graph_abs g)"
  unfolding AddLink_graph_def[symmetric]
  by (auto simp: graph_abs_def a_add_def dom_nodes_AddLink fun_eq_iff)

lemma graph_abs_DeleteLink:
  "graph_wf g \<Longrightarrow> graph_abs (fst (DeleteLink g s l d)) = a_del_link s l d (graph_abs g)"
  by (auto simp: graph_abs_def a_del_link_def DeleteLink_fst Attr_deleteLink fun_eq_iff)

lemma graph_abs_DeleteNode:
  "graph_wf g \<Longrightarrow> graph_abs (fst (DeleteNode g v)) = a_del_node v (graph_abs g)"
  unfolding DeleteNode_graph_def[symmetric]
  by (auto simp: graph_abs_def a_del_node_def dom_nodes_DeleteNode Attr_DeleteNode fun_eq_iff)

section \<open>The graph as a transition system\<close>

text \<open>\<open>graph_same g h\<close>: the two graphs hold the same maps, listed in any order.\<close>

definition graph_same :: "'a Graph \<Rightarrow> 'a Graph \<Rightarrow> bool" where
  "graph_same g h \<longleftrightarrow>
     gwf (nodes h) \<and> dom (gget (nodes h)) = dom (gget (nodes g)) \<and>
     (\<forall>v. link_wf (ins (node_or_new h v)) \<and> link_wf (outs (node_or_new h v))) \<and>
     (\<forall>s l d. Attr h s l d = Attr g s l d \<and> in_attr h s l d = in_attr g s l d) \<and>
     cbNewLink h = cbNewLink g \<and> cbDelNode h = cbDelNode g \<and> cbDelLink h = cbDelLink g \<and>
     cbUpdateLinkAttr h = cbUpdateLinkAttr g"

inductive graph_step :: "'a Graph \<Rightarrow> 'a Graph \<Rightarrow> bool" where
  step_AddLink: "graph_step g (fst (AddLink g s l d a))"
| step_DeleteLink: "graph_step g (fst (DeleteLink g s l d))"
| step_DeleteNode: "graph_step g (fst (DeleteNode g v))"
| step_Reset: "graph_step g (Reset g)"
| step_NewLinkHook: "graph_step g (RegisterNewLinkHook b g)"
| step_DelNodeHook: "graph_step g (RegisterDelNodeHook b g)"
| step_DelLinkHook: "graph_step g (RegisterDelLinkHook b g)"
| step_UpdateLinkAttrHook: "graph_step g (RegisterUpdateLinkAttrHook b g)"
| step_order: "graph_same g h \<Longrightarrow> graph_step g h"

lemma graph_wf_hooks:
  "graph_wf g \<Longrightarrow> graph_wf (RegisterNewLinkHook b g)"
  "graph_wf g \<Longrightarrow> graph_wf (RegisterDelNodeHook b g)"
  "graph_wf g \<Longrightarrow> graph_wf (RegisterDelLinkHook b g)"
  "graph_wf g \<Longrightarrow> graph_wf (RegisterUpdateLinkAttrHook b g)"
  by (simp_all add: graph_wf_def in_attr_def Attr_def RegisterNewLinkHook_def RegisterDelNodeHook_def
      RegisterDelLinkHook_def RegisterUpdateLinkAttrHook_def)

lemma graph_step_wf: "graph_step g h \<Longrightarrow> graph_wf g \<Longrightarrow> graph_wf h"
proof (induction rule: graph_step.induct)
  case (step_AddLink g s l d a)
  then show ?case using AddLink_wf[of g s l d a] by (simp add: AddLink_graph_def)
next
  case (step_DeleteNode g v)
  then show ?case using DeleteNode_wf[of g v] by (simp add: DeleteNode_graph_def)
next
  case (step_order g h)
  then show ?case by (intro graph_wfI) (auto simp: graph_same_def dest: graph_wfD)
qed (simp_all add: DeleteLink_fst deleteLink_wf Reset_wf graph_wf_hooks)

interpretation graph_sys: invariant_system "\<lambda>g. g = NewGraph" graph_step graph_wf
  by unfold_locales (auto simp: NewGraph_wf intro: graph_step_wf)

section \<open>Properties\<close>

text \<open>
  C1.  The three mutating operations of the topology graph implement the abstract graph: adding a
  link adds its two nodes and sets the attribute of that edge only; deleting a link removes that edge
  only; deleting a node removes the node and exactly the edges that touch it.
\<close>

theorem graph_refines_abstract:
  assumes "graph_wf g"
  shows "graph_abs (fst (AddLink g s l d a)) = a_add s l d a (graph_abs g) \<and>
    graph_abs (fst (DeleteLink g s l d)) = a_del_link s l d (graph_abs g) \<and>
    graph_abs (fst (DeleteNode g v)) = a_del_node v (graph_abs g)"
  using assms by (simp add: graph_abs_AddLink graph_abs_DeleteLink graph_abs_DeleteNode)

theorem graph_refines_abstract_witness:
  "graph_abs (fst (DeleteNode (fst (AddLink NewGraph ''a'' ''graph'' ''b'' (7 :: nat))) ''a'')) =
    a_del_node ''a'' (graph_abs (fst (AddLink NewGraph ''a'' ''graph'' ''b'' 7)))"
proof -
  have "graph_wf (fst (AddLink NewGraph ''a'' ''graph'' ''b'' (7 :: nat)))"
    using AddLink_wf[OF NewGraph_wf] by (simp add: AddLink_graph_def)
  from graph_refines_abstract[OF this] show ?thesis by blast
qed

text \<open>
  C11.  In every graph that any sequence of calls can produce, whatever order the maps are iterated
  in, the copy of an edge under its source equals the copy under its destination, and the two ends of
  every edge are nodes of the graph.
\<close>

theorem graph_copies_agree:
  assumes "reach (\<lambda>g. g = NewGraph) graph_step g"
  shows "in_attr g s l d = Attr g s l d \<and>
    (Attr g s l d \<noteq> None \<longrightarrow> {s, d} \<subseteq> dom (gget (nodes g)))"
proof -
  have wf: "graph_wf g"
    using assms by (rule graph_sys.reach_inv)
  then show ?thesis
    using topo.attr_vertices[OF wf, of s l d] by (auto dest: graph_wfD)
qed

theorem graph_copies_agree_witness:
  "in_attr (fst (AddLink NewGraph ''a'' ''graph'' ''a'' (1 :: nat))) ''a'' ''graph'' ''a'' =
    Attr (fst (AddLink NewGraph ''a'' ''graph'' ''a'' 1)) ''a'' ''graph'' ''a''"
proof -
  have "reach (\<lambda>g. g = NewGraph) graph_step (fst (AddLink NewGraph ''a'' ''graph'' ''a'' (1 :: nat)))"
    by (rule reach_step, rule reach_init, simp, rule step_AddLink)
  from graph_copies_agree[OF this] show ?thesis by blast
qed

text \<open>
  \<open>AddLink\<close> calls the new-link callback exactly when the edge did not exist, and the
  attribute callback exactly when it existed with another attribute.
\<close>

lemma AddLink_reports_change:
  assumes "graph_wf g"
  shows "snd (AddLink g s l d a) =
    (case Attr g s l d of
       None \<Rightarrow> if cbNewLink g then [NewLink s l d] else []
     | Some b \<Rightarrow> if b \<noteq> a \<and> cbUpdateLinkAttr g then [UpdateLinkAttr s l d] else [])"
  using AddLink_events[OF assms] by (auto split: option.splits)


text \<open>The node and link counters return the numbers of nodes and of edges.\<close>

lemma graph_counters:
  assumes "graph_wf g"
  shows "GetNodeCount g = card (fst (graph_abs g)) \<and> GetLinkCount g = card (dom (snd (graph_abs g)))"
proof -
  have "dom (snd (graph_abs g)) = edges g"
    by (auto simp: graph_abs_def edges_def dom_def)
  then show ?thesis
    using assms by (simp add: GetNodeCount_card GetLinkCount_card graph_abs_def)
qed


end
