(* ===== verification/ControllerCache.thy ===== *)
theory ControllerCache
  imports ControllerTypes Proto Graph
begin

text \<open>
  The cache of the controller, \<open>micro-segment/internal/controller/cache/cache.go\<close>: workloads,
  groups, policies, hosts, agents, connections and the topology graph behind one mutex.

  Every exported method is one state transformer; \<open>time.Now()\<close> is an argument.  The graph compares
  attributes with \<open>reflect.DeepEqual\<close>, which follows the pointer to a \<open>GraphAttr\<close>, so an attribute is
  the struct itself.  The cache registers no graph callback, hence only the graph of the result of
  \<open>AddLink\<close> and \<open>DeleteNode\<close> is used.
\<close>

section \<open>Model\<close>

record GraphAttr =
  ga_bytes :: u64
  ga_sessions :: u32
  ga_severity :: u8
  ga_policy_action :: u8

record WorkloadCache =
  wc_workload :: Workload
  wc_groups :: "string list"
  wc_policy_mode :: PolicyMode
  wc_last_seen_at :: time

record GroupCache =
  gc_group :: Group
  gc_members :: "(string, bool) gomap"
  gc_used_by_policy :: "(u32, bool) gomap"

record PolicyCache =
  pc_rule :: PolicyRule
  pc_order :: int

record HostCache =
  hc_host :: Host
  hc_workloads :: "string list"

record AgentCache =
  ac_agent :: Agent
  ac_online :: bool
  ac_last_seen_at :: time

record ConnectionCache =
  cc_connection :: Connection
  cc_graph_key :: string

record Cache =
  workloads :: "(string, WorkloadCache) gomap"
  groups :: "(string, GroupCache) gomap"
  policies :: "(u32, PolicyCache) gomap"
  hosts :: "(string, HostCache) gomap"
  agents :: "(string, AgentCache) gomap"
  wlGraph :: "GraphAttr Graph"
  connections :: "(string, ConnectionCache) gomap"

definition NewCache :: Cache where
  "NewCache = \<lparr>workloads = [], groups = [], policies = [], hosts = [], agents = [],
     wlGraph = NewGraph, connections = []\<rparr>"

subsection \<open>Workloads\<close>

definition AddWorkload :: "time \<Rightarrow> Workload \<Rightarrow> Cache \<Rightarrow> Cache" where
  "AddWorkload now wl c =
     c\<lparr>workloads := gput (wl_id wl)
         \<lparr>wc_workload = wl, wc_groups = [], wc_policy_mode = wl_policy_mode wl, wc_last_seen_at = now\<rparr>
         (workloads c)\<rparr>"

definition GetWorkload :: "Cache \<Rightarrow> string \<Rightarrow> Workload option" where
  "GetWorkload c i = (case gget (workloads c) i of Some cache \<Rightarrow> Some (wc_workload cache) | None \<Rightarrow> None)"

definition DeleteWorkload :: "string \<Rightarrow> Cache \<Rightarrow> Cache" where
  "DeleteWorkload i c =
     c\<lparr>workloads := gdel i (workloads c), wlGraph := fst (DeleteNode (wlGraph c) i)\<rparr>"

definition ListWorkloads :: "Cache \<Rightarrow> Workload list" where
  "ListWorkloads c = map (\<lambda>(_, cache). wc_workload cache) (workloads c)"

subsection \<open>Groups\<close>

definition AddGroup :: "Group \<Rightarrow> Cache \<Rightarrow> Cache" where
  "AddGroup grp c =
     c\<lparr>groups := gput (gr_name grp) \<lparr>gc_group = grp, gc_members = [], gc_used_by_policy = []\<rparr> (groups c)\<rparr>"

definition GetGroup :: "Cache \<Rightarrow> string \<Rightarrow> Group option" where
  "GetGroup c name = (case gget (groups c) name of Some cache \<Rightarrow> Some (gc_group cache) | None \<Rightarrow> None)"

definition DeleteGroup :: "string \<Rightarrow> Cache \<Rightarrow> Cache" where
  "DeleteGroup name c = c\<lparr>groups := gdel name (groups c)\<rparr>"

definition ListGroups :: "Cache \<Rightarrow> Group list" where
  "ListGroups c = map (\<lambda>(_, cache). gc_group cache) (groups c)"

definition AddGroupMember :: "string \<Rightarrow> string \<Rightarrow> Cache \<Rightarrow> Cache" where
  "AddGroupMember groupName workloadID c =
     (case gget (groups c) groupName of
        Some cache \<Rightarrow>
          c\<lparr>groups := gput groupName (cache\<lparr>gc_members := gput workloadID True (gc_members cache)\<rparr>) (groups c)\<rparr>
      | None \<Rightarrow> c)"

definition RemoveGroupMember :: "string \<Rightarrow> string \<Rightarrow> Cache \<Rightarrow> Cache" where
  "RemoveGroupMember groupName workloadID c =
     (case gget (groups c) groupName of
        Some cache \<Rightarrow>
          c\<lparr>groups := gput groupName (cache\<lparr>gc_members := gdel workloadID (gc_members cache)\<rparr>) (groups c)\<rparr>
      | None \<Rightarrow> c)"

subsection \<open>Policies\<close>

text \<open>One of the two reference updates of \<open>AddPolicy\<close> and of \<open>DeletePolicy\<close>.\<close>

definition use_group :: "u32 \<Rightarrow> string \<Rightarrow> (string, GroupCache) gomap \<Rightarrow> (string, GroupCache) gomap" where
  "use_group i name gs =
     (case gget gs name of
        Some cache \<Rightarrow> gput name (cache\<lparr>gc_used_by_policy := gput i True (gc_used_by_policy cache)\<rparr>) gs
      | None \<Rightarrow> gs)"

definition unuse_group :: "u32 \<Rightarrow> string \<Rightarrow> (string, GroupCache) gomap \<Rightarrow> (string, GroupCache) gomap" where
  "unuse_group i name gs =
     (case gget gs name of
        Some gc \<Rightarrow> gput name (gc\<lparr>gc_used_by_policy := gdel i (gc_used_by_policy gc)\<rparr>) gs
      | None \<Rightarrow> gs)"

definition AddPolicy :: "PolicyRule \<Rightarrow> int \<Rightarrow> Cache \<Rightarrow> Cache" where
  "AddPolicy rule ordr c =
     (let c1 = c\<lparr>policies := gput (pr_id rule) \<lparr>pc_rule = rule, pc_order = ordr\<rparr> (policies c)\<rparr>
      in c1\<lparr>groups := use_group (pr_id rule) (pr_to rule) (use_group (pr_id rule) (pr_from rule) (groups c1))\<rparr>)"

definition GetPolicy :: "Cache \<Rightarrow> u32 \<Rightarrow> PolicyRule option" where
  "GetPolicy c i = (case gget (policies c) i of Some cache \<Rightarrow> Some (pc_rule cache) | None \<Rightarrow> None)"

definition DeletePolicy :: "u32 \<Rightarrow> Cache \<Rightarrow> Cache" where
  "DeletePolicy i c =
     (let c1 = (case gget (policies c) i of
                  Some cache \<Rightarrow>
                    c\<lparr>groups := unuse_group i (pr_to (pc_rule cache)) (unuse_group i (pr_from (pc_rule cache)) (groups c))\<rparr>
                | None \<Rightarrow> c)
      in c1\<lparr>policies := gdel i (policies c1)\<rparr>)"

definition ListPolicies :: "Cache \<Rightarrow> PolicyRule list" where
  "ListPolicies c = map (\<lambda>(_, cache). pc_rule cache) (policies c)"

subsection \<open>Connections and the network graph\<close>

definition connectionKey :: "Connection \<Rightarrow> string" where
  "connectionKey conn = cn_client_wl conn @ ''-'' @ cn_server_wl conn"

definition conn_attr :: "Connection \<Rightarrow> GraphAttr" where
  "conn_attr conn = \<lparr>ga_bytes = cn_bytes conn, ga_sessions = cn_sessions conn,
     ga_severity = cn_severity conn, ga_policy_action = cn_policy_action conn\<rparr>"

definition UpdateConnection :: "Connection \<Rightarrow> Cache \<Rightarrow> Cache" where
  "UpdateConnection conn c =
     (let key = connectionKey conn;
          attr = conn_attr conn
      in c\<lparr>connections := gput key \<lparr>cc_connection = conn, cc_graph_key = key\<rparr> (connections c),
           wlGraph := fst (AddLink (wlGraph c) (cn_client_wl conn) ''graph'' (cn_server_wl conn) attr)\<rparr>)"

definition workload_node :: "Workload \<Rightarrow> GraphNode" where
  "workload_node wl = \<lparr>gn_id = wl_id wl, gn_name = wl_name wl, gn_kind = ''workload'',
     gn_domain = wl_domain wl, gn_service = wl_service wl, gn_policy_mode = wl_policy_mode wl\<rparr>"

definition connection_link :: "Connection \<Rightarrow> GraphLink" where
  "connection_link conn = \<lparr>gl_from = cn_client_wl conn, gl_to = cn_server_wl conn,
     gl_bytes = cn_bytes conn, gl_sessions = cn_sessions conn,
     gl_severity = cn_severity conn, gl_policy_action = cn_policy_action conn\<rparr>"

definition GetNetworkGraph :: "Cache \<Rightarrow> NetworkGraph" where
  "GetNetworkGraph c =
     \<lparr>ng_nodes = map (\<lambda>(_, cache). workload_node (wc_workload cache)) (workloads c),
      ng_links = map (\<lambda>(_, cache). connection_link (cc_connection cache)) (connections c)\<rparr>"

definition GetGraphNodeCount :: "Cache \<Rightarrow> nat" where
  "GetGraphNodeCount c = GetNodeCount (wlGraph c)"

definition GetGraphLinkCount :: "Cache \<Rightarrow> nat" where
  "GetGraphLinkCount c = GetLinkCount (wlGraph c)"

subsection \<open>Hosts and agents\<close>

definition AddHost :: "Host \<Rightarrow> Cache \<Rightarrow> Cache" where
  "AddHost host c = c\<lparr>hosts := gput (ho_id host) \<lparr>hc_host = host, hc_workloads = []\<rparr> (hosts c)\<rparr>"

definition GetHost :: "Cache \<Rightarrow> string \<Rightarrow> Host option" where
  "GetHost c i = (case gget (hosts c) i of Some cache \<Rightarrow> Some (hc_host cache) | None \<Rightarrow> None)"

definition ListHosts :: "Cache \<Rightarrow> Host list" where
  "ListHosts c = map (\<lambda>(_, cache). hc_host cache) (hosts c)"

definition AddAgent :: "time \<Rightarrow> Agent \<Rightarrow> Cache \<Rightarrow> Cache" where
  "AddAgent now agent c =
     c\<lparr>agents := gput (ag_id agent) \<lparr>ac_agent = agent, ac_online = True, ac_last_seen_at = now\<rparr> (agents c)\<rparr>"

definition GetAgent :: "Cache \<Rightarrow> string \<Rightarrow> Agent option" where
  "GetAgent c i = (case gget (agents c) i of Some cache \<Rightarrow> Some (ac_agent cache) | None \<Rightarrow> None)"

definition ListAgents :: "Cache \<Rightarrow> Agent list" where
  "ListAgents c = map (\<lambda>(_, cache). ac_agent cache) (agents c)"

definition UpdateAgentStatus :: "time \<Rightarrow> string \<Rightarrow> bool \<Rightarrow> Cache \<Rightarrow> Cache" where
  "UpdateAgentStatus now i online c =
     (case gget (agents c) i of
        Some cache \<Rightarrow> c\<lparr>agents := gput i (cache\<lparr>ac_online := online, ac_last_seen_at := now\<rparr>) (agents c)\<rparr>
      | None \<Rightarrow> c)"

subsection \<open>Updates from protocol messages\<close>

definition iface_addrs :: "pbNetworkInterface \<Rightarrow> IPAddr list" where
  "iface_addrs iface = map (\<lambda>addr. \<lparr>ia_ip = ParseIP (pa_ip addr), ia_scope = pa_scope addr\<rparr>) (pn_addrs iface)"

definition workload_from_proto :: "pbWorkload \<Rightarrow> Workload" where
  "workload_from_proto wl =
     (let ifaces = fold (\<lambda>iface m. gput (pn_name iface) (iface_addrs iface) m) (pw_ifaces wl) [];
          mode = (if pw_policy_mode wl = ''Protect'' then PolicyModeProtect else PolicyModeMonitor)
      in \<lparr>wl_id = pw_id wl, wl_name = pw_name wl, wl_domain = pw_domain wl, wl_host_id = pw_host_id wl,
          wl_host_name = pw_host_name wl, wl_image = pw_image wl, wl_service = pw_service wl,
          wl_policy_mode = mode, wl_running = pw_running wl, wl_ifaces = ifaces, wl_created_at = zero_time\<rparr>)"

definition UpdateWorkloadFromProto :: "time \<Rightarrow> pbWorkload option \<Rightarrow> Cache \<Rightarrow> Cache" where
  "UpdateWorkloadFromProto now wl c =
     (case wl of
        None \<Rightarrow> c
      | Some w \<Rightarrow>
          let cw = workload_from_proto w
          in c\<lparr>workloads := gput (pw_id w)
                 \<lparr>wc_workload = cw, wc_groups = [], wc_policy_mode = wl_policy_mode cw, wc_last_seen_at = now\<rparr>
                 (workloads c)\<rparr>)"

definition connection_from_proto :: "pbConnection \<Rightarrow> Connection" where
  "connection_from_proto conn =
     \<lparr>cn_client_wl = pc_client_wl conn, cn_server_wl = pc_server_wl conn,
      cn_client_ip = pc_client_ip conn, cn_server_ip = pc_server_ip conn,
      cn_client_port = ucast (pc_client_port conn), cn_server_port = ucast (pc_server_port conn),
      cn_ip_proto = ucast (pc_ip_proto conn), cn_application = pc_application conn,
      cn_bytes = pc_bytes conn, cn_sessions = pc_sessions conn,
      cn_first_seen_at = pc_first_seen_at conn, cn_last_seen_at = pc_last_seen_at conn,
      cn_threat_id = pc_threat_id conn, cn_severity = ucast (pc_severity conn),
      cn_policy_action = ucast (pc_policy_action conn), cn_policy_id = pc_policy_id conn,
      cn_ingress = pc_ingress conn, cn_external_peer = pc_external_peer conn,
      cn_local_peer = pc_local_peer conn\<rparr>"

definition UpdateConnectionFromProto :: "pbConnection option \<Rightarrow> Cache \<Rightarrow> Cache" where
  "UpdateConnectionFromProto conn c =
     (case conn of
        None \<Rightarrow> c
      | Some p \<Rightarrow>
          let ctrlConn = connection_from_proto p;
              key = cn_client_wl ctrlConn @ ''-'' @ cn_server_wl ctrlConn;
              attr = conn_attr ctrlConn
          in c\<lparr>connections := gput key \<lparr>cc_connection = ctrlConn, cc_graph_key = key\<rparr> (connections c),
               wlGraph := fst (AddLink (wlGraph c) (cn_client_wl ctrlConn) ''graph'' (cn_server_wl ctrlConn) attr)\<rparr>)"

section \<open>The invariant of the cache\<close>

lemma UpdateConnectionFromProto_Some:
  "UpdateConnectionFromProto (Some p) c = UpdateConnection (connection_from_proto p) c"
  by (simp add: UpdateConnectionFromProto_def UpdateConnection_def connectionKey_def Let_def)

lemma UpdateWorkloadFromProto_Some:
  "UpdateWorkloadFromProto now (Some w) c = AddWorkload now (workload_from_proto w) c"
  by (simp add: UpdateWorkloadFromProto_def AddWorkload_def workload_from_proto_def Let_def)

definition groups_wf :: "(string, GroupCache) gomap \<Rightarrow> bool" where
  "groups_wf gs \<longleftrightarrow>
     gwf gs \<and>
     (\<forall>n g. gget gs n = Some g \<longrightarrow> gr_name (gc_group g) = n \<and> gwf (gc_members g) \<and> gwf (gc_used_by_policy g))"

definition conns_wf :: "(string, ConnectionCache) gomap \<Rightarrow> bool" where
  "conns_wf m \<longleftrightarrow>
     gwf m \<and> (\<forall>k cc. gget m k = Some cc \<longrightarrow> connectionKey (cc_connection cc) = k \<and> cc_graph_key cc = k)"

definition one_label :: "'a Graph \<Rightarrow> bool" where
  "one_label g \<longleftrightarrow> (\<forall>s l d. l \<noteq> ''graph'' \<longrightarrow> Attr g s l d = None)"

lemma one_label_AddLink: "one_label g \<Longrightarrow> one_label (AddLink_graph g s ''graph'' d a)"
  by (simp add: one_label_def)

lemma one_label_DeleteNode: "graph_wf g \<Longrightarrow> one_label g \<Longrightarrow> one_label (DeleteNode_graph g v)"
  by (simp add: one_label_def Attr_DeleteNode)

lemma one_label_New: "one_label NewGraph"
  by (simp add: one_label_def Attr_def NewGraph_def)

definition cache_wf :: "Cache \<Rightarrow> bool" where
  "cache_wf c \<longleftrightarrow>
     gwf (workloads c) \<and> (\<forall>i w. gget (workloads c) i = Some w \<longrightarrow> wl_id (wc_workload w) = i) \<and>
     groups_wf (groups c) \<and>
     gwf (policies c) \<and> (\<forall>i p. gget (policies c) i = Some p \<longrightarrow> pr_id (pc_rule p) = i) \<and>
     gwf (hosts c) \<and> gwf (agents c) \<and> conns_wf (connections c) \<and>
     graph_wf (wlGraph c) \<and> one_label (wlGraph c)"

lemma cache_wfD:
  assumes "cache_wf c"
  shows "gwf (workloads c)" "groups_wf (groups c)" "gwf (policies c)" "conns_wf (connections c)" "graph_wf (wlGraph c)"
  using assms by (simp_all add: cache_wf_def)

lemma groups_wf_gput:
  "groups_wf gs \<Longrightarrow> gr_name (gc_group g) = n \<Longrightarrow> gwf (gc_members g) \<Longrightarrow> gwf (gc_used_by_policy g) \<Longrightarrow>
   groups_wf (gput n g gs)"
  by (simp add: groups_wf_def)

lemma groups_wf_use: "groups_wf gs \<Longrightarrow> groups_wf (use_group i n gs)"
  by (auto simp: use_group_def groups_wf_def split: option.splits)

lemma groups_wf_unuse: "groups_wf gs \<Longrightarrow> groups_wf (unuse_group i n gs)"
  by (auto simp: unuse_group_def groups_wf_def split: option.splits)

lemma cache_wf_groups: "cache_wf c \<Longrightarrow> groups_wf gs \<Longrightarrow> cache_wf (c\<lparr>groups := gs\<rparr>)"
  by (simp add: cache_wf_def)

lemma NewCache_wf: "cache_wf NewCache"
  by (simp add: cache_wf_def NewCache_def groups_wf_def conns_wf_def NewGraph_wf one_label_New)

lemma cache_wf_AddWorkload: "cache_wf c \<Longrightarrow> cache_wf (AddWorkload now wl c)"
  by (simp add: cache_wf_def AddWorkload_def)

lemma cache_wf_DeleteWorkload: "cache_wf c \<Longrightarrow> cache_wf (DeleteWorkload i c)"
  by (simp add: cache_wf_def DeleteWorkload_def one_label_DeleteNode DeleteNode_wf flip: DeleteNode_graph_def)

lemma cache_wf_AddGroup: "cache_wf c \<Longrightarrow> cache_wf (AddGroup g c)"
  unfolding AddGroup_def by (intro cache_wf_groups groups_wf_gput) (simp_all add: cache_wf_def)

lemma cache_wf_DeleteGroup: "cache_wf c \<Longrightarrow> cache_wf (DeleteGroup n c)"
  by (simp add: cache_wf_def DeleteGroup_def groups_wf_def)

lemma cache_wf_AddGroupMember: "cache_wf c \<Longrightarrow> cache_wf (AddGroupMember g w c)"
  by (auto simp: AddGroupMember_def cache_wf_def groups_wf_def split: option.splits)

lemma cache_wf_RemoveGroupMember: "cache_wf c \<Longrightarrow> cache_wf (RemoveGroupMember g w c)"
  by (auto simp: RemoveGroupMember_def cache_wf_def groups_wf_def split: option.splits)

lemma cache_wf_AddPolicy: "cache_wf c \<Longrightarrow> cache_wf (AddPolicy r i c)"
  by (auto simp: cache_wf_def AddPolicy_def Let_def intro: groups_wf_use)

lemma cache_wf_DeletePolicy: "cache_wf c \<Longrightarrow> cache_wf (DeletePolicy i c)"
  by (auto simp: cache_wf_def DeletePolicy_def Let_def intro: groups_wf_unuse split: option.splits if_splits)

lemma cache_wf_UpdateConnection: "cache_wf c \<Longrightarrow> cache_wf (UpdateConnection conn c)"
  by (simp add: cache_wf_def UpdateConnection_def conns_wf_def Let_def AddLink_wf one_label_AddLink
      flip: AddLink_graph_def)

lemma cache_wf_AddHost: "cache_wf c \<Longrightarrow> cache_wf (AddHost h c)"
  by (simp add: cache_wf_def AddHost_def)

lemma cache_wf_AddAgent: "cache_wf c \<Longrightarrow> cache_wf (AddAgent now a c)"
  by (simp add: cache_wf_def AddAgent_def)

lemma cache_wf_UpdateAgentStatus: "cache_wf c \<Longrightarrow> cache_wf (UpdateAgentStatus now i b c)"
  by (auto simp: cache_wf_def UpdateAgentStatus_def split: option.splits)

lemmas cache_wf_ops [wf_intros] =
  cache_wf_AddWorkload cache_wf_DeleteWorkload cache_wf_AddGroup cache_wf_DeleteGroup
  cache_wf_AddGroupMember cache_wf_RemoveGroupMember cache_wf_AddPolicy cache_wf_DeletePolicy
  cache_wf_UpdateConnection cache_wf_AddHost cache_wf_AddAgent cache_wf_UpdateAgentStatus

lemma cache_wf_from_proto [wf_intros]:
  "cache_wf c \<Longrightarrow> cache_wf (UpdateWorkloadFromProto now w c)"
  "cache_wf c \<Longrightarrow> cache_wf (UpdateConnectionFromProto p c)"
  by (cases w; simp add: UpdateWorkloadFromProto_def cache_wf_def workload_from_proto_def Let_def)
     (cases p; simp add: UpdateConnectionFromProto_Some cache_wf_ops UpdateConnectionFromProto_def[of None])

section \<open>The stores of the cache\<close>

lemma GetWorkload_AddWorkload: "GetWorkload (AddWorkload now w c) = (GetWorkload c)(wl_id w \<mapsto> w)"
  by (simp add: GetWorkload_def AddWorkload_def fun_eq_iff)

lemma GetWorkload_DeleteWorkload: "GetWorkload (DeleteWorkload i c) = (GetWorkload c)(i := None)"
  by (simp add: GetWorkload_def DeleteWorkload_def fun_eq_iff)

lemma GetGroup_AddGroup: "GetGroup (AddGroup g c) = (GetGroup c)(gr_name g \<mapsto> g)"
  by (simp add: GetGroup_def AddGroup_def fun_eq_iff)

lemma GetGroup_DeleteGroup: "GetGroup (DeleteGroup n c) = (GetGroup c)(n := None)"
  by (simp add: GetGroup_def DeleteGroup_def fun_eq_iff)

lemma GetPolicy_AddPolicy: "GetPolicy (AddPolicy r i c) = (GetPolicy c)(pr_id r \<mapsto> r)"
  by (simp add: GetPolicy_def AddPolicy_def Let_def fun_eq_iff)

lemma GetPolicy_DeletePolicy: "GetPolicy (DeletePolicy j c) = (GetPolicy c)(j := None)"
  by (simp add: GetPolicy_def DeletePolicy_def Let_def fun_eq_iff split: option.split)

interpretation wl_store: keyed_store cache_wf GetWorkload "AddWorkload now" DeleteWorkload wl_id
  "\<lambda>_. True" "\<lambda>w. w" for now
  by unfold_locales (simp_all add: cache_wf_ops GetWorkload_AddWorkload GetWorkload_DeleteWorkload)

interpretation group_store: keyed_store cache_wf GetGroup AddGroup DeleteGroup gr_name "\<lambda>_. True" "\<lambda>g. g"
  by unfold_locales (simp_all add: cache_wf_ops GetGroup_AddGroup GetGroup_DeleteGroup)

interpretation policy_store: keyed_store cache_wf GetPolicy "\<lambda>r. AddPolicy r i" DeletePolicy pr_id
  "\<lambda>_. True" "\<lambda>r. r" for i
  by unfold_locales (simp_all add: cache_wf_ops GetPolicy_AddPolicy GetPolicy_DeletePolicy)

section \<open>Steps\<close>

text \<open>
  The steps of the cache.  \<open>ok\<close> restricts the client workload names of the connections, \<open>del\<close> says
  whether workloads are deleted.
\<close>

inductive cache_step :: "(string \<Rightarrow> bool) \<Rightarrow> bool \<Rightarrow> Cache \<Rightarrow> Cache \<Rightarrow> bool"
  for ok :: "string \<Rightarrow> bool" and del :: bool where
  c_add_wl: "cache_step ok del c (AddWorkload now wl c)"
| c_del_wl: "del \<Longrightarrow> cache_step ok del c (DeleteWorkload i c)"
| c_add_group: "cache_step ok del c (AddGroup g c)"
| c_del_group: "cache_step ok del c (DeleteGroup n c)"
| c_add_member: "cache_step ok del c (AddGroupMember n w c)"
| c_del_member: "cache_step ok del c (RemoveGroupMember n w c)"
| c_add_policy: "cache_step ok del c (AddPolicy r i c)"
| c_del_policy: "cache_step ok del c (DeletePolicy j c)"
| c_conn: "ok (cn_client_wl conn) \<Longrightarrow> cache_step ok del c (UpdateConnection conn c)"
| c_host: "cache_step ok del c (AddHost h c)"
| c_agent: "cache_step ok del c (AddAgent now a c)"
| c_status: "cache_step ok del c (UpdateAgentStatus now j b c)"
| c_wl_proto: "cache_step ok del c (UpdateWorkloadFromProto now p c)"
| c_conn_proto: "pred_option (\<lambda>q. ok (pc_client_wl q)) p' \<Longrightarrow> cache_step ok del c (UpdateConnectionFromProto p' c)"

interpretation cache_sys: invariant_system "\<lambda>c. c = NewCache" "cache_step ok del" cache_wf for ok del
proof
  show "cache_wf t" if "cache_wf s" "cache_step ok del s t" for s t
    using that(2,1) by cases (auto intro: wf_intros)
qed (simp add: NewCache_wf)

lemma cache_reach_init: "reach (\<lambda>c. c = NewCache) (cache_step ok del) NewCache"
  by (rule reach_init) (rule refl)

lemmas cache_reach_step = reach_step[where step = "cache_step ok del" for ok del]

section \<open>The two views of the connections\<close>

text \<open>
  A connection is kept in \<open>connections\<close>, which \<open>GetNetworkGraph\<close> lists, and as an edge of the
  topology graph, which the counters of the statistics use.
\<close>

definition no_dash :: "string \<Rightarrow> bool" where
  "no_dash s \<longleftrightarrow> CHR ''-'' \<notin> set s"

definition edge_of :: "Cache \<Rightarrow> string \<Rightarrow> string \<Rightarrow> GraphAttr option" where
  "edge_of c s d = Attr (wlGraph c) s ''graph'' d"

definition link_of :: "Cache \<Rightarrow> string \<Rightarrow> string \<Rightarrow> GraphAttr option" where
  "link_of c s d =
     (case gget (connections c) (s @ ''-'' @ d) of
        Some cc \<Rightarrow> Some (conn_attr (cc_connection cc))
      | None \<Rightarrow> None)"

definition views_agree :: "bool \<Rightarrow> Cache \<Rightarrow> bool" where
  "views_agree del c \<longleftrightarrow>
     (\<forall>k cc. gget (connections c) k = Some cc \<longrightarrow> no_dash (cn_client_wl (cc_connection cc))) \<and>
     (\<forall>s d. edge_of c s d \<noteq> None \<longrightarrow> no_dash s \<and> edge_of c s d = link_of c s d) \<and>
     (\<not> del \<longrightarrow> (\<forall>s d. no_dash s \<longrightarrow> edge_of c s d = link_of c s d))"

lemma views_agreeD:
  assumes "views_agree del c"
  shows "gget (connections c) k = Some cc \<Longrightarrow> no_dash (cn_client_wl (cc_connection cc))"
    and "edge_of c s d = Some a \<Longrightarrow> no_dash s \<and> link_of c s d = Some a"
    and "\<not> del \<Longrightarrow> no_dash s \<Longrightarrow> edge_of c s d = link_of c s d"
  using assms by (simp_all add: views_agree_def) (metis option.distinct(1))

lemma views_agree_same:
  assumes "views_agree del c" and "connections c' = connections c" and "wlGraph c' = wlGraph c"
  shows "views_agree del c'"
  using assms by (simp add: views_agree_def edge_of_def link_of_def)

lemma key_inject:
  assumes "no_dash s" and "no_dash s'"
  shows "s @ ''-'' @ d = s' @ ''-'' @ d' \<longleftrightarrow> s = s' \<and> d = d'"
  using append_sep_inject[of "CHR ''-''" s s'] assms by (simp add: no_dash_def)

lemma views_agree_UpdateConnection:
  assumes "views_agree del c" and "no_dash (cn_client_wl conn)"
  shows "views_agree del (UpdateConnection conn c)"
proof -
  let ?c = "UpdateConnection conn c"
  let ?s = "cn_client_wl conn" and ?d = "cn_server_wl conn"
  have e: "edge_of ?c s d = (if s = ?s \<and> d = ?d then Some (conn_attr conn) else edge_of c s d)" for s d
    by (simp add: edge_of_def UpdateConnection_def Let_def flip: AddLink_graph_def)
  have l: "link_of ?c s d = (if s = ?s \<and> d = ?d then Some (conn_attr conn) else link_of c s d)" if "no_dash s" for s d
    using that assms(2) key_inject[of s ?s d ?d]
    by (simp add: link_of_def UpdateConnection_def Let_def connectionKey_def)
  have "no_dash (cn_client_wl (cc_connection cc))" if "gget (connections ?c) k = Some cc" for k cc
    using that assms by (auto simp: UpdateConnection_def Let_def views_agree_def split: if_splits)
  then show ?thesis
    using assms e l by (auto simp: views_agree_def)
qed

lemma views_agree_DeleteWorkload:
  assumes "views_agree True c" and "graph_wf (wlGraph c)"
  shows "views_agree True (DeleteWorkload i c)"
proof -
  have "edge_of (DeleteWorkload i c) s d = (if s = i \<or> d = i then None else edge_of c s d)" for s d
    using Attr_DeleteNode[OF assms(2)] by (simp add: edge_of_def DeleteWorkload_def flip: DeleteNode_graph_def)
  moreover have "link_of (DeleteWorkload i c) = link_of c" "connections (DeleteWorkload i c) = connections c"
    by (simp_all add: link_of_def DeleteWorkload_def fun_eq_iff)
  ultimately show ?thesis
    using assms(1) by (auto simp: views_agree_def)
qed

interpretation cache_views: invariant_system "\<lambda>c. c = NewCache" "cache_step no_dash del"
  "\<lambda>c. cache_wf c \<and> views_agree del c" for del
proof
  show "cache_wf s \<and> views_agree del s" if "s = NewCache" for s
    using that by (simp add: NewCache_wf) (simp add: views_agree_def edge_of_def link_of_def NewCache_def NewGraph_def Attr_def)
  show "cache_wf t \<and> views_agree del t" if a: "cache_wf s \<and> views_agree del s" and "cache_step no_dash del s t" for s t
  proof
    show "cache_wf t"
      using that by (blast intro: cache_sys.inv_step)
    show "views_agree del t"
      using that(2)
    proof cases
      case c_del_wl
      with a show ?thesis
        using views_agree_DeleteWorkload[OF _ cache_wfD(5)] by simp
    next
      case c_conn
      with a show ?thesis
        by (simp add: views_agree_UpdateConnection)
    next
      case (c_conn_proto p)
      with a show ?thesis
        by (cases p) (simp_all add: views_agree_UpdateConnection UpdateConnectionFromProto_Some
            connection_from_proto_def UpdateConnectionFromProto_def[of None])
    qed (use a in \<open>auto intro!: views_agree_same[of del s] simp: AddWorkload_def AddGroup_def DeleteGroup_def
        AddGroupMember_def RemoveGroupMember_def AddPolicy_def DeletePolicy_def AddHost_def AddAgent_def
        UpdateAgentStatus_def UpdateWorkloadFromProto_def Let_def split: option.splits\<close>)
  qed
qed

section \<open>Links of the network graph\<close>

definition attr_link :: "string \<Rightarrow> string \<Rightarrow> GraphAttr \<Rightarrow> GraphLink" where
  "attr_link s d a = \<lparr>gl_from = s, gl_to = d, gl_bytes = ga_bytes a, gl_sessions = ga_sessions a,
     gl_severity = ga_severity a, gl_policy_action = ga_policy_action a\<rparr>"

lemma connection_link_attr:
  "connection_link conn = attr_link (cn_client_wl conn) (cn_server_wl conn) (conn_attr conn)"
  by (simp add: connection_link_def attr_link_def conn_attr_def)

lemma attr_link_inject [simp]: "attr_link s d a = attr_link s' d' a' \<longleftrightarrow> s = s' \<and> d = d' \<and> a = a'"
  by (auto simp: attr_link_def intro!: GraphAttr.equality)

lemma set_ng_links:
  assumes "conns_wf (connections c)"
  shows "set (ng_links (GetNetworkGraph c)) =
    {connection_link (cc_connection cc) | k cc. gget (connections c) k = Some cc}"
proof -
  have "gwf (connections c)"
    using assms by (simp add: conns_wf_def)
  then have "(k, cc) \<in> set (connections c) \<longleftrightarrow> gget (connections c) k = Some cc" for k cc
    by (simp add: gget_iff_mem)
  then show ?thesis
    by (force simp: GetNetworkGraph_def)
qed

lemma edge_in_links:
  assumes "cache_wf c" and "views_agree del c" and "edge_of c s d = Some a"
  shows "attr_link s d a \<in> set (ng_links (GetNetworkGraph c))"
proof -
  have nd: "no_dash s" and l: "link_of c s d = Some a"
    using views_agreeD(2)[OF assms(2,3)] by auto
  then obtain cc where cc: "gget (connections c) (s @ ''-'' @ d) = Some cc" "a = conn_attr (cc_connection cc)"
    by (auto simp: link_of_def split: option.splits)
  have "connectionKey (cc_connection cc) = s @ ''-'' @ d" "no_dash (cn_client_wl (cc_connection cc))"
    using cc(1) cache_wfD(4)[OF assms(1)] views_agreeD(1)[OF assms(2)] by (auto simp: conns_wf_def)
  then have "cn_client_wl (cc_connection cc) = s \<and> cn_server_wl (cc_connection cc) = d"
    using nd key_inject[of "cn_client_wl (cc_connection cc)" s] by (simp add: connectionKey_def)
  with cc have "attr_link s d a = connection_link (cc_connection cc)"
    by (simp add: connection_link_attr)
  with cc(1) show ?thesis
    using assms(1) by (auto simp: set_ng_links cache_wf_def)
qed

lemma link_in_edges:
  assumes "cache_wf c" and "views_agree False c" and "gget (connections c) k = Some cc"
  shows "edge_of c (cn_client_wl (cc_connection cc)) (cn_server_wl (cc_connection cc)) = Some (conn_attr (cc_connection cc))"
    and "k = cn_client_wl (cc_connection cc) @ ''-'' @ cn_server_wl (cc_connection cc)"
proof -
  show k: "k = cn_client_wl (cc_connection cc) @ ''-'' @ cn_server_wl (cc_connection cc)"
    using cache_wfD(4)[OF assms(1)] assms(3) unfolding conns_wf_def connectionKey_def by metis
  have "link_of c (cn_client_wl (cc_connection cc)) (cn_server_wl (cc_connection cc)) = Some (conn_attr (cc_connection cc))"
    unfolding link_of_def k[symmetric] assms(3) by simp
  then show "edge_of c (cn_client_wl (cc_connection cc)) (cn_server_wl (cc_connection cc)) = Some (conn_attr (cc_connection cc))"
    using views_agreeD(1)[OF assms(2,3)] views_agreeD(3)[OF assms(2)] by simp
qed

lemma link_count:
  assumes "cache_wf c" and "views_agree False c"
  shows "GetGraphLinkCount c = length (ng_links (GetNetworkGraph c))"
proof -
  let ?key = "\<lambda>(s, l :: string, d). s @ ''-'' @ d"
  have "one_label (wlGraph c)"
    using assms(1) by (simp add: cache_wf_def)
  then have edge: "(s, l, d) \<in> edges (wlGraph c) \<longleftrightarrow> l = ''graph'' \<and> edge_of c s d \<noteq> None" for s l d
    by (cases "l = ''graph''") (simp_all only: one_label_def edges_def edge_of_def mem_Collect_eq case_prod_conv simp_thms)
  have nd: "no_dash s" if "edge_of c s d \<noteq> None" for s d
    using that views_agreeD(2)[OF assms(2)] by (metis not_None_eq)
  have "inj_on ?key (edges (wlGraph c))"
  proof (rule inj_onI)
    fix x y
    assume xy: "x \<in> edges (wlGraph c)" "y \<in> edges (wlGraph c)" "?key x = ?key y"
    then have "no_dash (fst x)" "no_dash (fst y)" "fst (snd x) = fst (snd y)"
      using edge nd by (metis prod.collapse)+
    with xy(3) key_inject[of "fst x" "fst y"] show "x = y"
      by (simp add: case_prod_unfold prod_eq_iff)
  qed
  moreover have "?key ` edges (wlGraph c) = dom (gget (connections c))"
  proof
    have "s @ ''-'' @ d \<in> dom (gget (connections c))" if ne: "edge_of c s d \<noteq> None" for s d
    proof -
      obtain a where "edge_of c s d = Some a"
        using ne by blast
      then have "link_of c s d = Some a"
        by (rule views_agreeD(2)[OF assms(2), THEN conjunct2])
      then show ?thesis
        by (cases "gget (connections c) (s @ ''-'' @ d)") (simp_all add: link_of_def domI)
    qed
    then show "?key ` edges (wlGraph c) \<subseteq> dom (gget (connections c))"
      using edge by (clarsimp simp del: append_Cons append_Nil) blast
    show "dom (gget (connections c)) \<subseteq> ?key ` edges (wlGraph c)"
    proof
      fix k
      assume "k \<in> dom (gget (connections c))"
      then obtain cc where cc: "gget (connections c) k = Some cc"
        by blast
      let ?e = "(cn_client_wl (cc_connection cc), ''graph'', cn_server_wl (cc_connection cc))"
      have "?e \<in> edges (wlGraph c)" "k = ?key ?e"
        using link_in_edges[OF assms cc] by (simp_all add: edge)
      then show "k \<in> ?key ` edges (wlGraph c)"
        by blast
    qed
  qed
  ultimately have "card (edges (wlGraph c)) = card (dom (gget (connections c)))"
    by (metis card_image)
  moreover have "length (connections c) = card (dom (gget (connections c)))"
    using cache_wfD(4)[OF assms(1)] by (intro length_gwf) (simp add: conns_wf_def)
  ultimately show ?thesis
    by (simp add: GetGraphLinkCount_def GetLinkCount_card[OF cache_wfD(5)[OF assms(1)]] GetNetworkGraph_def)
qed

section \<open>Properties\<close>

text \<open>C18. The two views of the connections.  As long as no client workload name contains a dash,
  every edge of the topology graph is a link of \<open>GetNetworkGraph\<close> with the same traffic values; as
  long as, in addition, no workload is deleted, the links are exactly the edges and
  \<open>GetGraphLinkCount\<close> is the number of links.\<close>

theorem network_graph_views:
  assumes "reach (\<lambda>c. c = NewCache) (cache_step no_dash del) c"
  shows "{attr_link s d a | s d a. Attr (wlGraph c) s ''graph'' d = Some a} \<subseteq> set (ng_links (GetNetworkGraph c)) \<and>
    (\<not> del \<longrightarrow>
       set (ng_links (GetNetworkGraph c)) = {attr_link s d a | s d a. Attr (wlGraph c) s ''graph'' d = Some a} \<and>
       GetGraphLinkCount c = length (ng_links (GetNetworkGraph c)))"
proof -
  have inv: "cache_wf c" "views_agree del c"
    using cache_views.reach_inv[OF assms] by auto
  have sub: "{attr_link s d a | s d a. Attr (wlGraph c) s ''graph'' d = Some a} \<subseteq> set (ng_links (GetNetworkGraph c))"
    using edge_in_links[OF inv] by (auto simp: edge_of_def)
  have "set (ng_links (GetNetworkGraph c)) \<subseteq> {attr_link s d a | s d a. Attr (wlGraph c) s ''graph'' d = Some a}" if "\<not> del"
    using that inv link_in_edges(1)[OF inv(1)] cache_wfD(4)[OF inv(1)]
    by (fastforce simp: set_ng_links connection_link_attr edge_of_def)
  with sub inv show ?thesis
    using link_count[OF inv(1)] by auto
qed

definition conn0 :: "string \<Rightarrow> string \<Rightarrow> Connection" where
  "conn0 s d = \<lparr>cn_client_wl = s, cn_server_wl = d, cn_client_ip = [10, 0, 0, 1], cn_server_ip = [10, 0, 0, 2],
     cn_client_port = 40000, cn_server_port = 80, cn_ip_proto = 6, cn_application = 0, cn_bytes = 100,
     cn_sessions = 1, cn_first_seen_at = 0, cn_last_seen_at = 0, cn_threat_id = 0, cn_severity = 0,
     cn_policy_action = 1, cn_policy_id = 7, cn_ingress = True, cn_external_peer = False, cn_local_peer = False\<rparr>"

lemma reach_conn0:
  "ok (cn_client_wl conn) \<Longrightarrow> reach (\<lambda>c. c = NewCache) (cache_step ok del) (UpdateConnection conn NewCache)"
  by (rule cache_reach_step[OF cache_reach_init c_conn])

theorem network_graph_views_witness:
  "GetGraphLinkCount (UpdateConnection (conn0 ''web'' ''db-1'') NewCache) = 1"
proof -
  have "no_dash (cn_client_wl (conn0 ''web'' ''db-1''))"
    by (simp add: no_dash_def conn0_def)
  then have "reach (\<lambda>c. c = NewCache) (cache_step no_dash False) (UpdateConnection (conn0 ''web'' ''db-1'') NewCache)"
    by (rule reach_conn0)
  from network_graph_views[OF this] show ?thesis
    by (simp add: GetNetworkGraph_def UpdateConnection_def NewCache_def Let_def)
qed

text \<open>The key of a connection is ambiguous: two connections between different workloads can have
  the same key, and then the later one replaces the earlier one in \<open>GetNetworkGraph\<close> while the
  topology graph keeps both edges.\<close>

lemma connectionKey_collision:
  "\<exists>x y. (cn_client_wl x, cn_server_wl x) \<noteq> (cn_client_wl y, cn_server_wl y) \<and>
     connectionKey x = connectionKey y \<and>
     (let c = UpdateConnection y (UpdateConnection x NewCache)
      in GetGraphLinkCount c = 2 \<and> ng_links (GetNetworkGraph c) = [connection_link y])"
proof (intro exI conjI)
  let ?x = "conn0 ''a-b'' ''c''" and ?y = "conn0 ''a'' ''b-c''"
  show "(cn_client_wl ?x, cn_server_wl ?x) \<noteq> (cn_client_wl ?y, cn_server_wl ?y)" "connectionKey ?x = connectionKey ?y"
    by (simp_all add: conn0_def connectionKey_def)
  show "let c = UpdateConnection ?y (UpdateConnection ?x NewCache)
        in GetGraphLinkCount c = 2 \<and> ng_links (GetNetworkGraph c) = [connection_link ?y]"
    by (simp add: Let_def UpdateConnection_def conn0_def connectionKey_def NewCache_def GetNetworkGraph_def
        GetGraphLinkCount_def GetLinkCount_def AddLink_def AddLink_src_def AddLink_dst_def NewGraph_def)
qed

text \<open>Deleting a workload removes it from the node list and isolates it in the topology graph, but
  the links of its connections stay in the network graph that \<open>GetNetworkGraph\<close> returns: they name a
  node that is not in its node list.\<close>

lemma DeleteWorkload_dangling_link:
  assumes "cache_wf c" and "i \<in> {cn_client_wl conn, cn_server_wl conn}"
  shows "(let c' = DeleteWorkload i (UpdateConnection conn c); g = GetNetworkGraph c'
    in connection_link conn \<in> set (ng_links g) \<and> i \<notin> gn_id ` set (ng_nodes g) \<and>
       Attr (wlGraph c') (cn_client_wl conn) ''graph'' (cn_server_wl conn) = None \<and> GetWorkload c' i = None)"
proof -
  let ?c = "UpdateConnection conn c"
  let ?c' = "DeleteWorkload i ?c"
  have wf: "cache_wf ?c" and wf': "cache_wf ?c'"
    using assms(1) by (simp_all add: cache_wf_ops)
  have "gget (connections ?c') (connectionKey conn) = Some \<lparr>cc_connection = conn, cc_graph_key = connectionKey conn\<rparr>"
    by (simp add: DeleteWorkload_def UpdateConnection_def Let_def)
  then have "connection_link conn \<in> set (ng_links (GetNetworkGraph ?c'))"
    using cache_wfD(4)[OF wf'] by (force simp: set_ng_links)
  moreover have "i \<notin> gn_id ` set (ng_nodes (GetNetworkGraph ?c'))"
  proof -
    have "wl_id (wc_workload w) \<noteq> i" if "(k, w) \<in> set (workloads ?c')" for k w
    proof -
      have k: "gget (workloads ?c') k = Some w"
        using that cache_wfD(1)[OF wf'] by (simp add: gget_iff_mem)
      then have "wl_id (wc_workload w) = k"
        using wf' unfolding cache_wf_def by blast
      with k show ?thesis
        by (auto simp: DeleteWorkload_def)
    qed
    then have "i \<notin> (\<lambda>(_, w). wl_id (wc_workload w)) ` set (workloads ?c')"
      by (metis (no_types, lifting) case_prod_unfold imageE prod.collapse)
    then show ?thesis
      by (simp add: GetNetworkGraph_def workload_node_def image_image case_prod_unfold)
  qed
  moreover have "Attr (wlGraph ?c') (cn_client_wl conn) ''graph'' (cn_server_wl conn) = None"
    using assms(2) Attr_DeleteNode[OF cache_wfD(5)[OF wf]]
    by (auto simp: DeleteWorkload_def simp flip: DeleteNode_graph_def)
  moreover have "GetWorkload ?c' i = None"
    by (simp add: GetWorkload_DeleteWorkload)
  ultimately show ?thesis
    by (simp add: Let_def)
qed


definition group_uses :: "(string, GroupCache) gomap \<Rightarrow> string \<Rightarrow> u32 \<Rightarrow> bool" where
  "group_uses gs n i = (case gget gs n of Some g \<Rightarrow> gbool (gc_used_by_policy g) i | None \<Rightarrow> False)"

lemma group_uses_use:
  "group_uses (use_group j m gs) n i \<longleftrightarrow> group_uses gs n i \<or> (i = j \<and> n = m \<and> gget gs n \<noteq> None)"
  by (auto simp: group_uses_def use_group_def split: option.splits)

lemma group_uses_unuse:
  "group_uses (unuse_group j m gs) n i \<longleftrightarrow> group_uses gs n i \<and> \<not> (i = j \<and> n = m)"
  by (auto simp: group_uses_def unuse_group_def gbool_def split: option.splits if_splits)

lemma use_group_None [simp]: "gget (use_group j m gs) n = None \<longleftrightarrow> gget gs n = None"
  by (auto simp: use_group_def split: option.splits)

lemma group_use_group: "map_option gc_group (gget (use_group j m gs) n) = map_option gc_group (gget gs n)"
  by (auto simp: use_group_def split: option.splits)

lemma group_unuse_group: "map_option gc_group (gget (unuse_group j m gs) n) = map_option gc_group (gget gs n)"
  by (auto simp: unuse_group_def split: option.splits)

lemma GetGroup_map: "GetGroup c n = map_option gc_group (gget (groups c) n)"
  by (simp add: GetGroup_def map_option_case)

text \<open>The policy references of the groups.  \<open>AddPolicy\<close> marks exactly the existing groups named
  by \<open>From\<close> and \<open>To\<close> as using the rule and \<open>DeletePolicy\<close> removes exactly the marks of the groups
  that the stored rule names; no other reference, and no group, changes.\<close>

lemma policy_references:
  "(group_uses (groups (AddPolicy r ord c)) n i \<longleftrightarrow>
      group_uses (groups c) n i \<or> (i = pr_id r \<and> n \<in> {pr_from r, pr_to r} \<and> GetGroup c n \<noteq> None)) \<and>
   (group_uses (groups (DeletePolicy j c)) n i \<longleftrightarrow>
      group_uses (groups c) n i \<and>
      \<not> (i = j \<and> (case GetPolicy c j of None \<Rightarrow> False | Some q \<Rightarrow> n \<in> {pr_from q, pr_to q}))) \<and>
   GetGroup (AddPolicy r ord c) n = GetGroup c n \<and> GetGroup (DeletePolicy j c) n = GetGroup c n"
proof -
  have "group_uses (groups (AddPolicy r ord c)) n i \<longleftrightarrow>
      group_uses (groups c) n i \<or> (i = pr_id r \<and> n \<in> {pr_from r, pr_to r} \<and> GetGroup c n \<noteq> None)"
    by (auto simp: AddPolicy_def Let_def group_uses_use GetGroup_map)
  moreover have "group_uses (groups (DeletePolicy j c)) n i \<longleftrightarrow>
      group_uses (groups c) n i \<and>
      \<not> (i = j \<and> (case GetPolicy c j of None \<Rightarrow> False | Some q \<Rightarrow> n \<in> {pr_from q, pr_to q}))"
    by (cases "gget (policies c) j") (auto simp: DeletePolicy_def GetPolicy_def Let_def group_uses_unuse)
  moreover have "GetGroup (DeletePolicy j c) n = GetGroup c n"
    by (cases "gget (policies c) j") (simp_all add: DeletePolicy_def Let_def GetGroup_map group_unuse_group)
  ultimately show ?thesis
    by (simp add: AddPolicy_def Let_def GetGroup_map group_use_group)
qed

end
