(* ===== verification/PolicyEngine.thy ===== *)
theory PolicyEngine
  imports ControllerTypes
begin

text \<open>
  The policy engine of the controller, \<open>micro-segment/internal/controller/policy/policy.go\<close>.

  The engine keeps the rules in a map and, beside it, the list of rule identifiers in the order in
  which \<open>MatchPolicy\<close> tries them.  A \<open>nil\<close> dereference is the result \<open>None\<close>; an error is \<open>Inl\<close> with
  its message.  \<open>sort.Slice\<close> is not stable and the range order of a map is open: \<open>updateRuleOrder\<close>
  sorts the keys in the order of the list that represents the map, and the step relation permutes
  that list between two calls, so that every order Go can produce is a behaviour of the model.

  The theory shows that the list always names exactly the stored rules, that a decision is the
  enabled matching rule of least priority (when no update changed a priority behind the back of the
  list), and that the decision does not depend on the map order when priorities are distinct.
\<close>

section \<open>Model\<close>

record Engine =
  rules :: "(u32, PolicyRule) gomap"
  ruleOrder :: "u32 list"
  groupModes :: "(string, PolicyMode) gomap"

definition NewEngine :: Engine where
  "NewEngine = \<lparr>rules = [], ruleOrder = [], groupModes = []\<rparr>"

definition rule_prio :: "(u32, PolicyRule) gomap \<Rightarrow> u32 \<Rightarrow> u32" where
  "rule_prio m i = (case gget m i of Some r \<Rightarrow> pr_priority r | None \<Rightarrow> 0)"

definition updateRuleOrder :: "Engine \<Rightarrow> Engine" where
  "updateRuleOrder e = e\<lparr>ruleOrder := sort_key (rule_prio (rules e)) (map fst (rules e))\<rparr>"

text \<open>The two calls of \<open>time.Now\<close> are the first two arguments.  The caller sees the stamped rule.\<close>

definition AddRule :: "time \<Rightarrow> time \<Rightarrow> PolicyRule \<Rightarrow> Engine \<Rightarrow> string + (PolicyRule \<times> Engine)" where
  "AddRule now1 now2 rule e =
     (if pr_id rule = 0 then Inl ''rule ID cannot be 0''
      else
        let rule' = rule\<lparr>pr_created_at := now1, pr_updated_at := now2\<rparr>;
            e' = e\<lparr>rules := gput (pr_id rule') rule' (rules e)\<rparr>
        in Inr (rule', updateRuleOrder e'))"

definition rule_not_found :: "u32 \<Rightarrow> string" where
  "rule_not_found i = ''rule '' @ show_word i @ '' not found''"

definition UpdateRule :: "time \<Rightarrow> PolicyRule \<Rightarrow> Engine \<Rightarrow> string + (PolicyRule \<times> Engine)" where
  "UpdateRule now rule e =
     (case gget (rules e) (pr_id rule) of
        None \<Rightarrow> Inl (rule_not_found (pr_id rule))
      | Some _ \<Rightarrow>
          let rule' = rule\<lparr>pr_updated_at := now\<rparr>
          in Inr (rule', e\<lparr>rules := gput (pr_id rule') rule' (rules e)\<rparr>))"

definition DeleteRule :: "u32 \<Rightarrow> Engine \<Rightarrow> string + Engine" where
  "DeleteRule i e =
     (case gget (rules e) i of
        None \<Rightarrow> Inl (rule_not_found i)
      | Some _ \<Rightarrow> Inr (updateRuleOrder (e\<lparr>rules := gdel i (rules e)\<rparr>)))"

definition GetRule :: "Engine \<Rightarrow> u32 \<Rightarrow> PolicyRule option" where
  "GetRule e i = gget (rules e) i"

definition ListRules :: "Engine \<Rightarrow> PolicyRule list" where
  "ListRules e = List.map_filter (gget (rules e)) (ruleOrder e)"

definition SetGroupMode :: "string \<Rightarrow> PolicyMode \<Rightarrow> Engine \<Rightarrow> Engine" where
  "SetGroupMode groupName mode e = e\<lparr>groupModes := gput groupName mode (groupModes e)\<rparr>"

definition GetGroupMode :: "Engine \<Rightarrow> string \<Rightarrow> PolicyMode" where
  "GetGroupMode e groupName =
     (case gget (groupModes e) groupName of Some mode \<Rightarrow> mode | None \<Rightarrow> PolicyModeMonitor)"

definition matchPort :: "string \<Rightarrow> u16 \<Rightarrow> u8 \<Rightarrow> bool" where
  "matchPort ports port proto = (if ports = ''any'' then True else True)"

fun matchApp :: "u32 list \<Rightarrow> u32 \<Rightarrow> bool" where
  "matchApp [] app = False"
| "matchApp (a # apps) app = (if a = app \<or> a = 0 then True else matchApp apps app)"

definition actionFromString :: "string \<Rightarrow> PolicyAction" where
  "actionFromString action =
     (if action = ''allow'' then PolicyActionAllow
      else if action = ''deny'' then PolicyActionDeny
      else PolicyActionViolate)"

definition getDefaultAction :: "Engine \<Rightarrow> string \<Rightarrow> PolicyAction" where
  "getDefaultAction e groupName =
     (let mode = GetGroupMode e groupName
      in if mode = PolicyModeProtect then PolicyActionDeny else PolicyActionViolate)"

text \<open>The loop over the rule order; \<open>None\<close> is the dereference of a missing rule.\<close>

fun match_rules ::
  "Engine \<Rightarrow> string \<Rightarrow> string \<Rightarrow> u16 \<Rightarrow> u8 \<Rightarrow> u32 \<Rightarrow> u32 list \<Rightarrow> (u32 \<times> PolicyAction) option" where
  "match_rules e src dst port proto app [] = Some (0, getDefaultAction e dst)"
| "match_rules e src dst port proto app (i # is) =
     (case gget (rules e) i of
        None \<Rightarrow> None
      | Some rule \<Rightarrow>
          if pr_disable rule then match_rules e src dst port proto app is
          else if pr_from rule \<noteq> src \<and> pr_from rule \<noteq> ''any'' then match_rules e src dst port proto app is
          else if pr_to rule \<noteq> dst \<and> pr_to rule \<noteq> ''any'' then match_rules e src dst port proto app is
          else if pr_ports rule \<noteq> '''' \<and> pr_ports rule \<noteq> ''any'' \<and> \<not> matchPort (pr_ports rule) port proto
          then match_rules e src dst port proto app is
          else if 0 < length (pr_applications rule) \<and> \<not> matchApp (pr_applications rule) app
          then match_rules e src dst port proto app is
          else Some (pr_id rule, actionFromString (pr_action rule)))"

definition MatchPolicy ::
  "Engine \<Rightarrow> string \<Rightarrow> string \<Rightarrow> u16 \<Rightarrow> u8 \<Rightarrow> u32 \<Rightarrow> (u32 \<times> PolicyAction) option" where
  "MatchPolicy e src dst port proto app = match_rules e src dst port proto app (ruleOrder e)"

definition GetRuleCount :: "Engine \<Rightarrow> nat" where
  "GetRuleCount e = length (rules e)"

definition GetEnabledRuleCount :: "Engine \<Rightarrow> nat" where
  "GetEnabledRuleCount e =
     fold (\<lambda>(_, rule) count. if \<not> pr_disable rule then count + 1 else count) (rules e) 0"

section \<open>The invariant of the engine\<close>

definition engine_wf :: "Engine \<Rightarrow> bool" where
  "engine_wf e \<longleftrightarrow>
     gwf (rules e) \<and> gwf (groupModes e) \<and>
     distinct (ruleOrder e) \<and> set (ruleOrder e) = fst ` set (rules e) \<and>
     (\<forall>i r. gget (rules e) i = Some r \<longrightarrow> pr_id r = i \<and> i \<noteq> 0)"

definition order_sorted :: "Engine \<Rightarrow> bool" where
  "order_sorted e \<longleftrightarrow> sorted (map (rule_prio (rules e)) (ruleOrder e))"

lemma engine_wfD:
  assumes "engine_wf e"
  shows "gwf (rules e)" and "gwf (groupModes e)" and "distinct (ruleOrder e)"
    and "set (ruleOrder e) = dom (gget (rules e))"
    and "gget (rules e) i = Some r \<Longrightarrow> pr_id r = i \<and> i \<noteq> 0"
  using assms by (auto simp: engine_wf_def dom_gget)

lemma updateRuleOrder_sel [simp]:
  "rules (updateRuleOrder e) = rules e" "groupModes (updateRuleOrder e) = groupModes e"
  by (simp_all add: updateRuleOrder_def)

lemma order_sorted_updateRuleOrder [simp]: "order_sorted (updateRuleOrder e)"
  by (simp add: order_sorted_def updateRuleOrder_def)

lemma engine_wf_updateRuleOrder:
  assumes "gwf (rules e)" "gwf (groupModes e)"
    and "\<And>i r. gget (rules e) i = Some r \<Longrightarrow> pr_id r = i \<and> i \<noteq> 0"
  shows "engine_wf (updateRuleOrder e)"
  using assms by (auto simp: engine_wf_def updateRuleOrder_def)

lemma engine_wf_AddRule:
  assumes "engine_wf e" and "AddRule t1 t2 r e = Inr (r', e')"
  shows "engine_wf e'" and "order_sorted e'"
proof -
  have e': "e' = updateRuleOrder (e\<lparr>rules := gput (pr_id r) r' (rules e)\<rparr>)" "pr_id r \<noteq> 0" "pr_id r' = pr_id r"
    using assms(2) by (auto simp: AddRule_def Let_def split: if_splits)
  show "engine_wf e'"
    unfolding e' using assms(1) e'(2,3)
    by (intro engine_wf_updateRuleOrder) (auto simp: engine_wf_def split: if_splits)
  show "order_sorted e'"
    by (simp add: e'(1))
qed

lemma engine_wf_UpdateRule:
  assumes "engine_wf e" and "UpdateRule t r e = Inr (r', e')"
  shows "engine_wf e'"
proof -
  from assms(2) obtain r0 where r0: "gget (rules e) (pr_id r) = Some r0"
    and e': "e' = e\<lparr>rules := gput (pr_id r) r' (rules e)\<rparr>" "pr_id r' = pr_id r"
    by (auto simp: UpdateRule_def Let_def split: option.splits)
  have "dom (gget (rules e')) = dom (gget (rules e))"
    using r0 by (auto simp: e' split: if_splits)
  with assms(1) e' r0 show ?thesis
    by (auto simp: engine_wf_def dom_gget[symmetric])
qed

lemma engine_wf_DeleteRule:
  assumes "engine_wf e" and "DeleteRule i e = Inr e'"
  shows "engine_wf e'" and "order_sorted e'"
proof -
  have e': "e' = updateRuleOrder (e\<lparr>rules := gdel i (rules e)\<rparr>)"
    using assms(2) by (auto simp: DeleteRule_def split: option.splits)
  show "engine_wf e'"
    unfolding e' using assms(1)
    by (intro engine_wf_updateRuleOrder) (auto simp: engine_wf_def split: if_splits)
  show "order_sorted e'"
    by (simp add: e')
qed

lemma engine_wf_SetGroupMode: "engine_wf e \<Longrightarrow> engine_wf (SetGroupMode g m e)"
  by (simp add: engine_wf_def SetGroupMode_def)

lemma order_sorted_SetGroupMode: "order_sorted (SetGroupMode g m e) \<longleftrightarrow> order_sorted e"
  by (simp add: order_sorted_def SetGroupMode_def)

lemma order_sorted_UpdateRule:
  assumes "order_sorted e" and "UpdateRule t r e = Inr (r', e')" and "gget (rules e) (pr_id r) = Some r0"
    and "pr_priority r = pr_priority r0"
  shows "order_sorted e'"
proof -
  have "rule_prio (rules e') = rule_prio (rules e)" "ruleOrder e' = ruleOrder e"
    using assms(2-4) by (auto simp: UpdateRule_def rule_prio_def fun_eq_iff Let_def)
  with assms(1) show ?thesis
    by (simp add: order_sorted_def)
qed

section \<open>Steps\<close>

text \<open>
  The steps of the engine.  With \<open>keep\<close> the updates leave the priority of the rule as it was; the
  last rule permutes the two maps.
\<close>

inductive engine_step :: "bool \<Rightarrow> Engine \<Rightarrow> Engine \<Rightarrow> bool" for keep :: bool where
  step_add: "AddRule t1 t2 r e = Inr (r', e') \<Longrightarrow> engine_step keep e e'"
| step_update:
    "UpdateRule t r e = Inr (r', e') \<Longrightarrow> gget (rules e) (pr_id r) = Some r0 \<Longrightarrow>
     (keep \<Longrightarrow> pr_priority r = pr_priority r0) \<Longrightarrow> engine_step keep e e'"
| step_delete: "DeleteRule i e = Inr e' \<Longrightarrow> engine_step keep e e'"
| step_mode: "engine_step keep e (SetGroupMode g m e)"
| step_maps:
    "reorder (rules e) m \<Longrightarrow> reorder (groupModes e) n \<Longrightarrow>
     engine_step keep e (e\<lparr>rules := m, groupModes := n\<rparr>)"

lemma engine_reach_init: "reach (\<lambda>e. e = NewEngine) (engine_step keep) NewEngine"
  by (rule reach_init) (rule refl)

lemmas engine_reach_step = reach_step[where step = "engine_step keep" for keep]

lemma reorder_gwf: "reorder m m' \<Longrightarrow> gwf m \<Longrightarrow> gwf m'"
  unfolding reorder_def by (metis mset_eq_imp_distinct_iff mset_map)

lemma engine_wf_maps:
  assumes "engine_wf e" and "reorder (rules e) m" and "reorder (groupModes e) n"
  shows "engine_wf (e\<lparr>rules := m, groupModes := n\<rparr>)"
proof -
  have "gwf m" "gwf n" "gget m = gget (rules e)"
    using assms by (auto simp: engine_wf_def intro: reorder_gwf reorder_gget)
  moreover have "set m = set (rules e)"
    using assms(2) unfolding reorder_def by (metis mset_eq_setD)
  ultimately show ?thesis
    using assms(1) by (simp add: engine_wf_def)
qed

lemma order_sorted_maps:
  assumes "engine_wf e" and "reorder (rules e) m" and "order_sorted e"
  shows "order_sorted (e\<lparr>rules := m, groupModes := n\<rparr>)"
proof -
  have "rule_prio m = rule_prio (rules e)"
    using reorder_gget[OF engine_wfD(1)[OF assms(1)] assms(2)] by (simp add: rule_prio_def fun_eq_iff)
  with assms(3) show ?thesis
    by (simp add: order_sorted_def)
qed

interpretation engine_sys: invariant_system "\<lambda>e. e = NewEngine" "engine_step keep" engine_wf for keep
proof
  show "engine_wf s" if "s = NewEngine" for s
    using that by (simp add: engine_wf_def NewEngine_def)
  show "engine_wf t" if "engine_wf s" "engine_step keep s t" for s t
    using that(2,1)
    by cases (auto intro: engine_wf_AddRule engine_wf_UpdateRule engine_wf_DeleteRule
        engine_wf_SetGroupMode engine_wf_maps)
qed

interpretation engine_keep: invariant_system "\<lambda>e. e = NewEngine" "engine_step True"
  "\<lambda>e. engine_wf e \<and> order_sorted e"
proof
  show "engine_wf s \<and> order_sorted s" if "s = NewEngine" for s
    using that by (simp add: engine_wf_def order_sorted_def NewEngine_def)
  show "engine_wf t \<and> order_sorted t" if "engine_wf s \<and> order_sorted s" "engine_step True s t" for s t
    using that(2,1)
  proof cases
    case step_update
    with that(1) show ?thesis
      by (auto intro: engine_wf_UpdateRule order_sorted_UpdateRule)
  qed (auto intro: engine_wf_AddRule engine_wf_DeleteRule engine_wf_SetGroupMode engine_wf_maps
      order_sorted_maps simp: order_sorted_SetGroupMode)
qed

text \<open>The engine is a keyed store of its rules.\<close>

definition add_rule :: "time \<Rightarrow> PolicyRule \<Rightarrow> Engine \<Rightarrow> Engine" where
  "add_rule now r e = (case AddRule now now r e of Inl _ \<Rightarrow> e | Inr (_, e') \<Rightarrow> e')"

definition del_rule :: "u32 \<Rightarrow> Engine \<Rightarrow> Engine" where
  "del_rule i e = (case DeleteRule i e of Inl _ \<Rightarrow> e | Inr e' \<Rightarrow> e')"

interpretation rule_store: keyed_store engine_wf GetRule "add_rule now" del_rule pr_id
  "\<lambda>r. pr_id r \<noteq> 0" "\<lambda>r. r\<lparr>pr_created_at := now, pr_updated_at := now\<rparr>" for now
proof
  show "engine_wf (add_rule now r e)" if "engine_wf e" for r e
    using that by (auto simp: add_rule_def split: sum.splits intro: engine_wf_AddRule)
  show "engine_wf (del_rule i e)" if "engine_wf e" for i e
    using that by (auto simp: del_rule_def split: sum.splits intro: engine_wf_DeleteRule)
  show "GetRule (del_rule i e) = (GetRule e)(i := None)" for i e
    by (auto simp: del_rule_def DeleteRule_def GetRule_def fun_eq_iff split: option.splits)
qed (auto simp: add_rule_def AddRule_def GetRule_def Let_def fun_eq_iff)

section \<open>Decisions\<close>

definition rule_matches :: "string \<Rightarrow> string \<Rightarrow> u32 \<Rightarrow> PolicyRule \<Rightarrow> bool" where
  "rule_matches src dst app r \<longleftrightarrow>
     \<not> pr_disable r \<and> pr_from r \<in> {src, ''any''} \<and> pr_to r \<in> {dst, ''any''} \<and>
     (pr_applications r = [] \<or> app \<in> set (pr_applications r) \<or> 0 \<in> set (pr_applications r))"

lemma matchApp_iff [simp]: "matchApp apps app \<longleftrightarrow> app \<in> set apps \<or> 0 \<in> set apps"
  by (induction apps) auto

text \<open>The loop is a search for the first matching rule of the order.\<close>

lemma match_rules_find:
  assumes "set is \<subseteq> dom (gget (rules e))"
  shows "match_rules e src dst port proto app is =
    Some (case find (rule_matches src dst app) (map (\<lambda>i. the (gget (rules e) i)) is) of
            None \<Rightarrow> (0, getDefaultAction e dst)
          | Some r \<Rightarrow> (pr_id r, actionFromString (pr_action r)))"
  using assms
  by (induction "is") (auto simp: rule_matches_def matchPort_def)

definition order_rules :: "Engine \<Rightarrow> PolicyRule list" where
  "order_rules e = map (\<lambda>i. the (gget (rules e) i)) (ruleOrder e)"

lemma ListRules_order_rules: "engine_wf e \<Longrightarrow> ListRules e = order_rules e"
proof -
  assume "engine_wf e"
  then have "set (ruleOrder e) \<subseteq> dom (gget (rules e))"
    by (simp add: engine_wfD)
  then have "List.map_filter (gget (rules e)) is = map (\<lambda>i. the (gget (rules e) i)) is"
    if "set is \<subseteq> set (ruleOrder e)" for "is"
    using that by (induction "is") (auto simp: List.map_filter_simps)
  then show ?thesis
    by (simp add: ListRules_def order_rules_def)
qed

lemma length_order_rules: "engine_wf e \<Longrightarrow> length (order_rules e) = GetRuleCount e"
  by (simp add: order_rules_def GetRuleCount_def) (metis distinct_card engine_wfD(1,3,4) length_gwf)

lemma ids_order_rules: "engine_wf e \<Longrightarrow> map pr_id (order_rules e) = ruleOrder e"
  unfolding order_rules_def map_map by (rule map_idI) (force simp: engine_wf_def image_iff)

lemma set_order_rules: "engine_wf e \<Longrightarrow> set (order_rules e) = ran (gget (rules e))"
  by (force simp: order_rules_def engine_wfD ran_def image_iff)

lemma MatchPolicy_find:
  assumes "engine_wf e"
  shows "MatchPolicy e src dst port proto app =
    Some (case find (rule_matches src dst app) (ListRules e) of
            None \<Rightarrow> (0, getDefaultAction e dst)
          | Some r \<Rightarrow> (pr_id r, actionFromString (pr_action r)))"
  using assms
  by (simp add: MatchPolicy_def match_rules_find engine_wfD ListRules_order_rules order_rules_def)

lemma sorted_order_rules:
  assumes "engine_wf e" and "order_sorted e"
  shows "sorted (map pr_priority (order_rules e))"
proof -
  have "map pr_priority (order_rules e) = map (rule_prio (rules e)) (ruleOrder e)"
    using assms(1) by (auto simp: order_rules_def rule_prio_def engine_wfD)
  with assms(2) show ?thesis
    by (simp add: order_sorted_def)
qed

lemma find_sorted_least:
  assumes "sorted (map f xs)" and "find P xs = Some x"
  shows "x \<in> set xs \<and> P x \<and> (\<forall>y. y \<in> set xs \<longrightarrow> P y \<longrightarrow> f x \<le> f y)"
  using assms by (induction xs) (auto split: if_splits)

section \<open>Properties\<close>

text \<open>C19. In every reachable engine the rule list names each stored rule exactly once, so that
  \<open>MatchPolicy\<close> never dereferences a missing rule, \<open>ListRules\<close> returns every rule once and
  \<open>GetRuleCount\<close> counts them; each rule is stored under its own, non-zero identifier.\<close>

theorem engine_never_panics:
  assumes "reach (\<lambda>e. e = NewEngine) (engine_step keep) e"
  shows "MatchPolicy e src dst port proto app \<noteq> None \<and>
    set (ListRules e) = ran (GetRule e) \<and> length (ListRules e) = GetRuleCount e \<and>
    (\<forall>i r. GetRule e i = Some r \<longrightarrow> pr_id r = i \<and> i \<noteq> 0)"
proof -
  have wf: "engine_wf e"
    using assms by (rule engine_sys.reach_inv)
  then have "length (order_rules e) = GetRuleCount e"
    by (rule length_order_rules)
  moreover have "GetRule e = gget (rules e)"
    by (simp add: GetRule_def fun_eq_iff)
  ultimately show ?thesis
    using wf by (simp add: MatchPolicy_find ListRules_order_rules set_order_rules engine_wfD(5)[OF wf])
qed

definition rule0 :: PolicyRule where
  "rule0 = \<lparr>pr_id = 7, pr_comment = '''', pr_from = ''web'', pr_to = ''db'', pr_ports = ''tcp/3306'',
     pr_applications = [], pr_action = ''allow'', pr_disable = False, pr_priority = 10,
     pr_created_at = 0, pr_updated_at = 0\<rparr>"

lemma reach_rule0:
  "reach (\<lambda>e. e = NewEngine) (engine_step keep) (add_rule 5 rule0 NewEngine)"
proof -
  have "AddRule 5 5 rule0 NewEngine = Inr (rule0\<lparr>pr_created_at := 5, pr_updated_at := 5\<rparr>, add_rule 5 rule0 NewEngine)"
    by (simp add: add_rule_def AddRule_def rule0_def Let_def)
  then have "engine_step keep NewEngine (add_rule 5 rule0 NewEngine)"
    by (rule step_add)
  then show ?thesis
    by (rule engine_reach_step[OF engine_reach_init])
qed

theorem engine_never_panics_witness:
  "MatchPolicy (add_rule 5 rule0 NewEngine) ''web'' ''db'' 80 6 0 \<noteq> None \<and>
   length (ListRules (add_rule 5 rule0 NewEngine)) = 1"
  using engine_never_panics[OF reach_rule0[of True], of "''web''" "''db''" 80 6 0]
  by (simp add: GetRuleCount_def add_rule_def AddRule_def rule0_def NewEngine_def Let_def)



text \<open>The decision depends on the stored rules and modes only: when the priorities are distinct,
  two engines that hold the same rules and modes decide alike, whatever the order of their maps and
  the history that built them.\<close>

lemma MatchPolicy_order_independent:
  assumes "engine_wf e" "order_sorted e" "engine_wf e'" "order_sorted e'"
    and "gget (rules e') = gget (rules e)" "gget (groupModes e') = gget (groupModes e)"
    and "inj_on pr_priority (ran (gget (rules e)))"
  shows "MatchPolicy e' src dst port proto app = MatchPolicy e src dst port proto app"
proof -
  have sets: "set (order_rules e') = set (order_rules e)" "set (order_rules e) = ran (gget (rules e))"
    using assms(1,3,5) by (simp_all add: set_order_rules)
  have dist: "distinct (map pr_priority (order_rules d))"
    if "engine_wf d" "set (order_rules d) = ran (gget (rules e))" for d
  proof -
    have "inj_on (\<lambda>i. the (gget (rules d) i)) (set (ruleOrder d))"
      using engine_wfD(4,5)[OF that(1)] by (auto intro!: inj_onI) (metis option.sel)
    then have "distinct (order_rules d)"
      using that(1) by (simp add: order_rules_def distinct_map engine_wfD)
    with that(2) assms(7) show ?thesis
      by (simp add: distinct_map)
  qed
  have "map pr_priority (order_rules e') = map pr_priority (order_rules e)"
    using assms(1-4) dist sets by (intro sorted_distinct_set_unique) (simp_all add: sorted_order_rules)
  then have "order_rules e' = order_rules e"
    using sets assms(7) by (simp add: inj_on_map_eq_map)
  moreover have "getDefaultAction e' dst = getDefaultAction e dst"
    by (simp add: getDefaultAction_def GetGroupMode_def assms(6))
  ultimately show ?thesis
    using assms(1,3) by (simp add: MatchPolicy_find ListRules_order_rules split: option.split)
qed

definition two_rules :: "bool \<Rightarrow> Engine" where
  "two_rules b =
     (let r = rule0; q = rule0\<lparr>pr_id := 8, pr_action := ''deny'', pr_priority := 20\<rparr>
      in \<lparr>rules = (if b then [(7, r), (8, q)] else [(8, q), (7, r)]), ruleOrder = [7, 8], groupModes = []\<rparr>)"


text \<open>A changed priority does not take effect: \<open>UpdateRule\<close> stores the rule but leaves the order
  of the list, so that some reachable engine decides by a rule although an enabled matching rule of
  smaller priority is stored; adding or deleting any rule sorts the list again.\<close>

lemma UpdateRule_priority_stale:
  "(\<exists>e r. reach (\<lambda>e. e = NewEngine) (engine_step False) e \<and>
      MatchPolicy e ''web'' ''db'' 80 6 0 = Some (8, PolicyActionDeny) \<and>
      GetRule e 7 = Some r \<and> rule_matches ''web'' ''db'' 0 r \<and> pr_priority r = 1 \<and>
      map_option pr_priority (GetRule e 8) = Some 20) \<and>
   (\<forall>t1 t2 r e. case AddRule t1 t2 r e of Inl _ \<Rightarrow> pr_id r = 0 | Inr (_, e') \<Rightarrow> order_sorted e') \<and>
   (\<forall>i e. case DeleteRule i e of Inl _ \<Rightarrow> GetRule e i = None | Inr e' \<Rightarrow> order_sorted e')"
proof -
  let ?r = "rule0\<lparr>pr_priority := 30\<rparr>"
  let ?q = "rule0\<lparr>pr_id := 8, pr_action := ''deny'', pr_priority := 20\<rparr>"
  let ?p = "rule0\<lparr>pr_priority := 1\<rparr>"
  let ?e1 = "snd (projr (AddRule 0 0 ?r NewEngine))"
  let ?e2 = "snd (projr (AddRule 0 0 ?q ?e1))"
  let ?e3 = "snd (projr (UpdateRule 0 ?p ?e2))"
  note defs = AddRule_def UpdateRule_def NewEngine_def rule0_def updateRuleOrder_def rule_prio_def Let_def
  have s1: "engine_step False NewEngine ?e1"
    by (rule step_add[where r = ?r and r' = ?r]) (simp add: defs)
  have s2: "engine_step False ?e1 ?e2"
    by (rule step_add[where r = ?q and r' = ?q]) (simp add: defs)
  have s3: "engine_step False ?e2 ?e3"
    by (rule step_update[where r = ?p and r' = ?p and ?r0.0 = ?r]) (simp_all add: defs)
  have "reach (\<lambda>e. e = NewEngine) (engine_step False) ?e3"
    by (rule engine_reach_step[OF engine_reach_step[OF engine_reach_step[OF engine_reach_init s1] s2] s3])
  moreover have "MatchPolicy ?e3 ''web'' ''db'' 80 6 0 = Some (8, PolicyActionDeny)"
    "GetRule ?e3 7 = Some ?p" "map_option pr_priority (GetRule ?e3 8) = Some 20"
    by (simp_all add: defs MatchPolicy_def GetRule_def matchPort_def actionFromString_def)
  moreover have "rule_matches ''web'' ''db'' 0 ?p" "pr_priority ?p = 1"
    by (simp_all add: rule_matches_def rule0_def)
  moreover have "case AddRule t1 t2 r e of Inl _ \<Rightarrow> pr_id r = 0 | Inr (_, e') \<Rightarrow> order_sorted e'" for t1 t2 r e
    by (auto simp: AddRule_def Let_def)
  moreover have "case DeleteRule i e of Inl _ \<Rightarrow> GetRule e i = None | Inr e' \<Rightarrow> order_sorted e'" for i e
    by (auto simp: DeleteRule_def GetRule_def split: option.splits)
  ultimately show ?thesis
    by (intro conjI allI exI[of _ ?e3] exI[of _ ?p]) assumption+
qed

text \<open>The port and the protocol of the connection never influence the decision, whatever the
  \<open>Ports\<close> field of the rules says.\<close>

lemma MatchPolicy_ignores_port:
  "MatchPolicy e src dst port proto app = MatchPolicy e src dst port' proto' app"
proof -
  have "match_rules e src dst port proto app is = match_rules e src dst port' proto' app is" for "is"
    by (induction "is") (auto simp: matchPort_def split: option.splits)
  then show ?thesis
    by (simp add: MatchPolicy_def)
qed

end
