(* ===== verification/RestApi.thy ===== *)
theory RestApi
  imports ControllerCache PolicyEngine
begin

text \<open>
  The REST interface of the controller: \<open>micro-segment/internal/controller/rest/handler.go\<close> and
  \<open>router.go\<close>, with the parts of \<open>net/http\<close> they rest on (\<open>http.Error\<close>, the exact-path
  \<open>ServeMux\<close> with its redirect to the cleaned path) and \<open>strconv.ParseUint\<close>.

  A handler maps the request, the cache and the engine to the response and, where it changes them,
  the new cache and engine.  \<open>encoding/json\<close> appears through its outcome: a request carries what
  decoding its body into a group or into a rule yields, \<open>None\<close> for an error, and a response carries
  the value that is encoded.
\<close>

section \<open>Model\<close>

datatype payload =
    NoData
  | WorkloadsData "Workload list"
  | WorkloadData Workload
  | GroupsData "Group list"
  | GroupData Group
  | RulesData "PolicyRule list"
  | RuleData PolicyRule
  | GraphData NetworkGraph
  | HostsData "Host list"
  | AgentsData "Agent list"
  | StatsData "(string \<times> nat) list"

record Response =
  rs_code :: int
  rs_message :: string
  rs_data :: payload

datatype body = EmptyBody | JsonBody Response | TextBody string

record HttpResponse =
  hp_status :: int
  hp_headers :: "(string, string) gomap"
  hp_body :: body

record Request =
  rq_method :: string
  rq_path :: string
  rq_query :: "(string \<times> string) list"
  rq_group :: "Group option"
  rq_rule :: "PolicyRule option"

text \<open>\<open>r.URL.Query().Get\<close>: the first value of the key, or the empty string.\<close>

definition Query_Get :: "Request \<Rightarrow> string \<Rightarrow> string" where
  "Query_Get r k = (case map_of (rq_query r) k of Some v \<Rightarrow> v | None \<Rightarrow> '''')"

text \<open>\<open>strconv.ParseUint(s, 10, 32)\<close>; \<open>None\<close> is the syntax or the range error.\<close>

definition ParseUint32 :: "string \<Rightarrow> u32 option" where
  "ParseUint32 s =
     (if s \<noteq> [] \<and> list_all is_digit s \<and> dec_value s < 2 ^ 32 then Some (of_nat (dec_value s)) else None)"

definition writeJSON :: "(string, string) gomap \<Rightarrow> int \<Rightarrow> Response \<Rightarrow> HttpResponse" where
  "writeJSON h status data =
     \<lparr>hp_status = status, hp_headers = gput ''Content-Type'' ''application/json'' h, hp_body = JsonBody data\<rparr>"

definition writeError :: "(string, string) gomap \<Rightarrow> int \<Rightarrow> string \<Rightarrow> HttpResponse" where
  "writeError h status message = writeJSON h status \<lparr>rs_code = status, rs_message = message, rs_data = NoData\<rparr>"

definition writeSuccess :: "(string, string) gomap \<Rightarrow> payload \<Rightarrow> HttpResponse" where
  "writeSuccess h data = writeJSON h 200 \<lparr>rs_code = 0, rs_message = '''', rs_data = data\<rparr>"

definition http_Error :: "(string, string) gomap \<Rightarrow> string \<Rightarrow> int \<Rightarrow> HttpResponse" where
  "http_Error h msg code =
     \<lparr>hp_status = code,
      hp_headers = gput ''X-Content-Type-Options'' ''nosniff'' (gput ''Content-Type'' ''text/plain; charset=utf-8'' h),
      hp_body = TextBody (msg @ ''\<newline>'')\<rparr>"

subsection \<open>Handlers\<close>

type_synonym headers = "(string, string) gomap"

definition Handler_ListWorkloads :: "headers \<Rightarrow> Cache \<Rightarrow> HttpResponse" where
  "Handler_ListWorkloads h c = writeSuccess h (WorkloadsData (ListWorkloads c))"

definition Handler_GetWorkload :: "headers \<Rightarrow> Request \<Rightarrow> Cache \<Rightarrow> HttpResponse" where
  "Handler_GetWorkload h r c =
     (let i = Query_Get r ''id''
      in if i = '''' then writeError h 400 ''missing workload id''
         else case GetWorkload c i of
                None \<Rightarrow> writeError h 404 ''workload not found''
              | Some wl \<Rightarrow> writeSuccess h (WorkloadData wl))"

definition Handler_ListGroups :: "headers \<Rightarrow> Cache \<Rightarrow> HttpResponse" where
  "Handler_ListGroups h c = writeSuccess h (GroupsData (ListGroups c))"

definition Handler_GetGroup :: "headers \<Rightarrow> Request \<Rightarrow> Cache \<Rightarrow> HttpResponse" where
  "Handler_GetGroup h r c =
     (let name = Query_Get r ''name''
      in if name = '''' then writeError h 400 ''missing group name''
         else case GetGroup c name of
                None \<Rightarrow> writeError h 404 ''group not found''
              | Some g \<Rightarrow> writeSuccess h (GroupData g))"

definition Handler_CreateGroup :: "headers \<Rightarrow> Request \<Rightarrow> Cache \<Rightarrow> HttpResponse \<times> Cache" where
  "Handler_CreateGroup h r c =
     (case rq_group r of
        None \<Rightarrow> (writeError h 400 ''invalid request body'', c)
      | Some g \<Rightarrow>
          if gr_name g = '''' then (writeError h 400 ''missing group name'', c)
          else (writeSuccess h (GroupData g), AddGroup g c))"

definition Handler_DeleteGroup :: "headers \<Rightarrow> Request \<Rightarrow> Cache \<Rightarrow> HttpResponse \<times> Cache" where
  "Handler_DeleteGroup h r c =
     (let name = Query_Get r ''name''
      in if name = '''' then (writeError h 400 ''missing group name'', c)
         else (writeSuccess h NoData, DeleteGroup name c))"

definition Handler_ListPolicies :: "headers \<Rightarrow> Engine \<Rightarrow> HttpResponse" where
  "Handler_ListPolicies h e = writeSuccess h (RulesData (ListRules e))"

definition Handler_GetPolicy :: "headers \<Rightarrow> Request \<Rightarrow> Engine \<Rightarrow> HttpResponse" where
  "Handler_GetPolicy h r e =
     (let idStr = Query_Get r ''id''
      in if idStr = '''' then writeError h 400 ''missing policy id''
         else case ParseUint32 idStr of
                None \<Rightarrow> writeError h 400 ''invalid policy id''
              | Some i \<Rightarrow>
                  (case GetRule e i of
                     None \<Rightarrow> writeError h 404 ''policy not found''
                   | Some rule \<Rightarrow> writeSuccess h (RuleData rule)))"

definition Handler_CreatePolicy :: "time \<Rightarrow> time \<Rightarrow> headers \<Rightarrow> Request \<Rightarrow> Engine \<Rightarrow> HttpResponse \<times> Engine" where
  "Handler_CreatePolicy now1 now2 h r e =
     (case rq_rule r of
        None \<Rightarrow> (writeError h 400 ''invalid request body'', e)
      | Some rule \<Rightarrow>
          (case AddRule now1 now2 rule e of
             Inl err \<Rightarrow> (writeError h 400 err, e)
           | Inr (rule', e') \<Rightarrow> (writeSuccess h (RuleData rule'), e')))"

definition Handler_UpdatePolicy :: "time \<Rightarrow> headers \<Rightarrow> Request \<Rightarrow> Engine \<Rightarrow> HttpResponse \<times> Engine" where
  "Handler_UpdatePolicy now h r e =
     (case rq_rule r of
        None \<Rightarrow> (writeError h 400 ''invalid request body'', e)
      | Some rule \<Rightarrow>
          (case UpdateRule now rule e of
             Inl err \<Rightarrow> (writeError h 404 err, e)
           | Inr (rule', e') \<Rightarrow> (writeSuccess h (RuleData rule'), e')))"

definition Handler_DeletePolicy :: "headers \<Rightarrow> Request \<Rightarrow> Engine \<Rightarrow> HttpResponse \<times> Engine" where
  "Handler_DeletePolicy h r e =
     (let idStr = Query_Get r ''id''
      in if idStr = '''' then (writeError h 400 ''missing policy id'', e)
         else case ParseUint32 idStr of
                None \<Rightarrow> (writeError h 400 ''invalid policy id'', e)
              | Some i \<Rightarrow>
                  (case DeleteRule i e of
                     Inl err \<Rightarrow> (writeError h 404 err, e)
                   | Inr e' \<Rightarrow> (writeSuccess h NoData, e')))"

definition Handler_GetNetworkGraph :: "headers \<Rightarrow> Cache \<Rightarrow> HttpResponse" where
  "Handler_GetNetworkGraph h c = writeSuccess h (GraphData (GetNetworkGraph c))"

definition Handler_ListHosts :: "headers \<Rightarrow> Cache \<Rightarrow> HttpResponse" where
  "Handler_ListHosts h c = writeSuccess h (HostsData (ListHosts c))"

definition Handler_ListAgents :: "headers \<Rightarrow> Cache \<Rightarrow> HttpResponse" where
  "Handler_ListAgents h c = writeSuccess h (AgentsData (ListAgents c))"

definition Handler_GetStats :: "headers \<Rightarrow> Cache \<Rightarrow> Engine \<Rightarrow> HttpResponse" where
  "Handler_GetStats h c e =
     writeSuccess h (StatsData
       [(''workloads'', length (ListWorkloads c)), (''groups'', length (ListGroups c)),
        (''policies'', GetRuleCount e), (''hosts'', length (ListHosts c)),
        (''agents'', length (ListAgents c)), (''graph_nodes'', GetGraphNodeCount c),
        (''graph_links'', GetGraphLinkCount c)])"

subsection \<open>Router\<close>

text \<open>The state behind the router; a route handler may change both parts.\<close>

type_synonym ctl = "Cache \<times> Engine"

definition method_not_allowed :: "headers \<Rightarrow> HttpResponse" where
  "method_not_allowed h = http_Error h ''Method not allowed'' 405"

definition handleWorkloads :: "headers \<Rightarrow> Request \<Rightarrow> ctl \<Rightarrow> HttpResponse \<times> ctl" where
  "handleWorkloads h r x =
     (if rq_method r = ''GET'' then (Handler_ListWorkloads h (fst x), x) else (method_not_allowed h, x))"

definition handleWorkload :: "headers \<Rightarrow> Request \<Rightarrow> ctl \<Rightarrow> HttpResponse \<times> ctl" where
  "handleWorkload h r x =
     (if rq_method r = ''GET'' then (Handler_GetWorkload h r (fst x), x) else (method_not_allowed h, x))"

definition handleGroups :: "headers \<Rightarrow> Request \<Rightarrow> ctl \<Rightarrow> HttpResponse \<times> ctl" where
  "handleGroups h r x =
     (if rq_method r = ''GET'' then (Handler_ListGroups h (fst x), x) else (method_not_allowed h, x))"

definition handleGroup :: "headers \<Rightarrow> Request \<Rightarrow> ctl \<Rightarrow> HttpResponse \<times> ctl" where
  "handleGroup h r x =
     (if rq_method r = ''GET'' then (Handler_GetGroup h r (fst x), x)
      else if rq_method r = ''POST'' then
        (let (resp, c) = Handler_CreateGroup h r (fst x) in (resp, (c, snd x)))
      else if rq_method r = ''DELETE'' then
        (let (resp, c) = Handler_DeleteGroup h r (fst x) in (resp, (c, snd x)))
      else (method_not_allowed h, x))"

definition handlePolicies :: "headers \<Rightarrow> Request \<Rightarrow> ctl \<Rightarrow> HttpResponse \<times> ctl" where
  "handlePolicies h r x =
     (if rq_method r = ''GET'' then (Handler_ListPolicies h (snd x), x) else (method_not_allowed h, x))"

definition handlePolicy :: "time \<Rightarrow> time \<Rightarrow> headers \<Rightarrow> Request \<Rightarrow> ctl \<Rightarrow> HttpResponse \<times> ctl" where
  "handlePolicy now1 now2 h r x =
     (if rq_method r = ''GET'' then (Handler_GetPolicy h r (snd x), x)
      else if rq_method r = ''POST'' then
        (let (resp, e) = Handler_CreatePolicy now1 now2 h r (snd x) in (resp, (fst x, e)))
      else if rq_method r = ''PUT'' then
        (let (resp, e) = Handler_UpdatePolicy now1 h r (snd x) in (resp, (fst x, e)))
      else if rq_method r = ''DELETE'' then
        (let (resp, e) = Handler_DeletePolicy h r (snd x) in (resp, (fst x, e)))
      else (method_not_allowed h, x))"

definition handleGraph :: "headers \<Rightarrow> Request \<Rightarrow> ctl \<Rightarrow> HttpResponse \<times> ctl" where
  "handleGraph h r x =
     (if rq_method r = ''GET'' then (Handler_GetNetworkGraph h (fst x), x) else (method_not_allowed h, x))"

definition handleHosts :: "headers \<Rightarrow> Request \<Rightarrow> ctl \<Rightarrow> HttpResponse \<times> ctl" where
  "handleHosts h r x =
     (if rq_method r = ''GET'' then (Handler_ListHosts h (fst x), x) else (method_not_allowed h, x))"

definition handleAgents :: "headers \<Rightarrow> Request \<Rightarrow> ctl \<Rightarrow> HttpResponse \<times> ctl" where
  "handleAgents h r x =
     (if rq_method r = ''GET'' then (Handler_ListAgents h (fst x), x) else (method_not_allowed h, x))"

definition handleStats :: "headers \<Rightarrow> Request \<Rightarrow> ctl \<Rightarrow> HttpResponse \<times> ctl" where
  "handleStats h r x =
     (if rq_method r = ''GET'' then (Handler_GetStats h (fst x) (snd x), x) else (method_not_allowed h, x))"

definition handleHealth :: "headers \<Rightarrow> Request \<Rightarrow> ctl \<Rightarrow> HttpResponse \<times> ctl" where
  "handleHealth h r x =
     (\<lparr>hp_status = 200, hp_headers = gput ''Content-Type'' ''application/json'' h,
       hp_body = TextBody ''{\"status\":\"ok\"}''\<rparr>, x)"

type_synonym route = "headers \<Rightarrow> Request \<Rightarrow> ctl \<Rightarrow> HttpResponse \<times> ctl"

definition setupRoutes :: "time \<Rightarrow> time \<Rightarrow> (string, route) gomap" where
  "setupRoutes now1 now2 =
     [(''/api/v1/workloads'', handleWorkloads), (''/api/v1/workload'', handleWorkload),
      (''/api/v1/groups'', handleGroups), (''/api/v1/group'', handleGroup),
      (''/api/v1/policies'', handlePolicies), (''/api/v1/policy'', handlePolicy now1 now2),
      (''/api/v1/graph'', handleGraph), (''/api/v1/hosts'', handleHosts),
      (''/api/v1/agents'', handleAgents), (''/api/v1/stats'', handleStats),
      (''/health'', handleHealth)]"

text \<open>
  \<open>cleanPath\<close> of \<open>net/http\<close>: the path with empty and dot elements removed and each double-dot element
  resolved, with its trailing slash kept.
\<close>

fun clean_elems :: "string list \<Rightarrow> string list \<Rightarrow> string list" where
  "clean_elems acc [] = rev acc"
| "clean_elems acc (x # xs) =
     (if x = '''' \<or> x = ''.'' then clean_elems acc xs
      else if x = ''..'' then clean_elems (tl acc) xs
      else clean_elems (x # acc) xs)"

definition cleanPath :: "string \<Rightarrow> string" where
  "cleanPath p =
     (let np = ''/'' @ join ''/'' (clean_elems [] (Split p ''/''))
      in if p \<noteq> '''' \<and> last p = CHR ''/'' \<and> np \<noteq> ''/'' then np @ ''/'' else np)"

text \<open>The redirect is modelled by its status and location, without the query string and HTML body.\<close>

definition mux_ServeHTTP :: "(string, route) gomap \<Rightarrow> headers \<Rightarrow> Request \<Rightarrow> ctl \<Rightarrow> HttpResponse \<times> ctl" where
  "mux_ServeHTTP routes h r x =
     (if rq_method r \<noteq> ''CONNECT'' \<and> cleanPath (rq_path r) \<noteq> rq_path r then
        (\<lparr>hp_status = 301, hp_headers = gput ''Location'' (cleanPath (rq_path r)) h, hp_body = EmptyBody\<rparr>, x)
      else case gget routes (rq_path r) of
             Some f \<Rightarrow> f h r x
           | None \<Rightarrow> (http_Error h ''404 page not found'' 404, x))"

definition cors :: headers where
  "cors = [(''Access-Control-Allow-Origin'', ''*''),
           (''Access-Control-Allow-Methods'', ''GET, POST, PUT, DELETE, OPTIONS''),
           (''Access-Control-Allow-Headers'', ''Content-Type, Authorization'')]"

definition Router_ServeHTTP :: "time \<Rightarrow> time \<Rightarrow> Request \<Rightarrow> ctl \<Rightarrow> HttpResponse \<times> ctl" where
  "Router_ServeHTTP now1 now2 req x =
     (if rq_method req = ''OPTIONS'' then (\<lparr>hp_status = 200, hp_headers = cors, hp_body = EmptyBody\<rparr>, x)
      else mux_ServeHTTP (setupRoutes now1 now2) cors req x)"

section \<open>Responses of the routes\<close>

lemma status_write [simp]:
  "hp_status (writeError h st m) = st" "hp_status (writeSuccess h d) = 200" "hp_status (method_not_allowed h) = 405"
  "hp_status (http_Error h m st) = st"
  by (simp_all add: writeError_def writeSuccess_def writeJSON_def method_not_allowed_def http_Error_def)

lemma writeSuccess_inject [simp]: "writeSuccess h d = writeSuccess h d' \<longleftrightarrow> d = d'"
  by (simp add: writeSuccess_def writeJSON_def)

text \<open>
  What every route keeps: a request that is not answered with 200, or whose method does not write,
  changes nothing; the invariants of the cache and of the engine survive every request.
\<close>

definition quiet :: "Request \<Rightarrow> ctl \<Rightarrow> HttpResponse \<times> ctl \<Rightarrow> bool" where
  "quiet r x y \<longleftrightarrow>
     (hp_status (fst y) = 200 \<and> rq_method r \<in> {''POST'', ''PUT'', ''DELETE''} \<or> snd y = x)"

definition keeps_wf :: "ctl \<Rightarrow> ctl \<Rightarrow> bool" where
  "keeps_wf x y \<longleftrightarrow> (cache_wf (fst x) \<longrightarrow> cache_wf (fst y)) \<and> (engine_wf (snd x) \<longrightarrow> engine_wf (snd y))"

lemmas read_handlers =
  handleWorkloads_def handleWorkload_def handleGroups_def handlePolicies_def handleGraph_def handleHosts_def
  handleAgents_def handleStats_def handleHealth_def

lemma quiet_read:
  "quiet r x (handleWorkloads h r x)" "quiet r x (handleWorkload h r x)" "quiet r x (handleGroups h r x)"
  "quiet r x (handlePolicies h r x)" "quiet r x (handleGraph h r x)" "quiet r x (handleHosts h r x)"
  "quiet r x (handleAgents h r x)" "quiet r x (handleStats h r x)" "quiet r x (handleHealth h r x)"
  by (simp_all add: quiet_def read_handlers)

lemma keeps_wf_read:
  "keeps_wf x (snd (handleWorkloads h r x))" "keeps_wf x (snd (handleWorkload h r x))"
  "keeps_wf x (snd (handleGroups h r x))" "keeps_wf x (snd (handlePolicies h r x))"
  "keeps_wf x (snd (handleGraph h r x))" "keeps_wf x (snd (handleHosts h r x))"
  "keeps_wf x (snd (handleAgents h r x))" "keeps_wf x (snd (handleStats h r x))"
  "keeps_wf x (snd (handleHealth h r x))"
  by (simp_all add: keeps_wf_def read_handlers)

lemma quiet_handleGroup: "quiet r x (handleGroup h r x)"
  by (auto simp: quiet_def handleGroup_def Handler_CreateGroup_def Handler_DeleteGroup_def Let_def split: option.splits)

lemma keeps_wf_handleGroup: "keeps_wf x (snd (handleGroup h r x))"
  by (auto simp: keeps_wf_def handleGroup_def Handler_CreateGroup_def Handler_DeleteGroup_def Let_def
      cache_wf_ops split: option.splits)

lemma quiet_handlePolicy: "quiet r x (handlePolicy t1 t2 h r x)"
  by (auto simp: quiet_def handlePolicy_def Handler_CreatePolicy_def Handler_UpdatePolicy_def
      Handler_DeletePolicy_def Let_def split: option.splits sum.splits)

lemma keeps_wf_handlePolicy: "keeps_wf x (snd (handlePolicy t1 t2 h r x))"
  by (auto simp: keeps_wf_def handlePolicy_def Handler_CreatePolicy_def Handler_UpdatePolicy_def
      Handler_DeletePolicy_def Let_def split: option.splits sum.splits
      intro: engine_wf_AddRule engine_wf_UpdateRule engine_wf_DeleteRule)

lemma route_cases:
  assumes "gget (setupRoutes t1 t2) p = Some f"
  shows "f \<in> {handleWorkloads, handleWorkload, handleGroups, handleGroup, handlePolicies, handlePolicy t1 t2,
    handleGraph, handleHosts, handleAgents, handleStats, handleHealth}"
proof -
  have "f \<in> snd ` set (setupRoutes t1 t2)"
    using map_of_SomeD[OF assms] by (rule image_eqI[rotated]) simp
  then show ?thesis
    by (simp only: setupRoutes_def list.set image_insert image_empty snd_conv)
qed

lemma quiet_route: "gget (setupRoutes t1 t2) p = Some f \<Longrightarrow> quiet r x (f h r x)"
  by (drule route_cases, elim insertE emptyE) (simp_all only: quiet_read quiet_handleGroup quiet_handlePolicy)

lemma keeps_wf_route: "gget (setupRoutes t1 t2) p = Some f \<Longrightarrow> keeps_wf x (snd (f h r x))"
  by (drule route_cases, elim insertE emptyE) (simp_all only: keeps_wf_read keeps_wf_handleGroup keeps_wf_handlePolicy)

lemma Router_cases:
  "snd (Router_ServeHTTP t1 t2 r x) = x \<or>
   (\<exists>f. gget (setupRoutes t1 t2) (rq_path r) = Some f \<and> Router_ServeHTTP t1 t2 r x = f cors r x)"
  by (auto simp: Router_ServeHTTP_def mux_ServeHTTP_def split: option.splits)

lemma quiet_Router: "quiet r x (Router_ServeHTTP t1 t2 r x)"
  using Router_cases[of t1 t2 r x]
proof
  assume "\<exists>f. gget (setupRoutes t1 t2) (rq_path r) = Some f \<and> Router_ServeHTTP t1 t2 r x = f cors r x"
  then show ?thesis
    using quiet_route by (elim exE conjE) simp
qed (simp add: quiet_def)

lemma keeps_wf_Router: "keeps_wf x (snd (Router_ServeHTTP t1 t2 r x))"
  using Router_cases[of t1 t2 r x]
proof
  assume "\<exists>f. gget (setupRoutes t1 t2) (rq_path r) = Some f \<and> Router_ServeHTTP t1 t2 r x = f cors r x"
  then show ?thesis
    using keeps_wf_route by (elim exE conjE) simp
qed (simp add: keeps_wf_def)

section \<open>Numbers in queries\<close>

lemma ParseUint32_show [simp]: "ParseUint32 (show_word i) = Some i"
proof -
  have "unat i < 2 ^ 32"
    using unsigned_less[of i] by simp
  then show ?thesis
    by (auto simp: ParseUint32_def show_word_def list_all_iff dec_digits_digits)
qed

text \<open>Two decimal strings that parse to the same identifier denote the same number.\<close>

lemma ParseUint32_Some: "ParseUint32 s = Some i \<Longrightarrow> unat i = dec_value s \<and> dec_value s < 2 ^ 32"
  by (auto simp: ParseUint32_def unat_of_nat take_bit_nat_eq_self split: if_splits)

section \<open>Properties\<close>

text \<open>C10. A request that is not answered with status 200 leaves the cache and the engine exactly as they
  were, and so does every request whose method is not POST, PUT or DELETE; no request breaks the
  invariants of the cache or of the engine.\<close>

theorem rest_failed_request_changes_nothing:
  assumes "Router_ServeHTTP t1 t2 r (c, e) = (resp, (c', e'))"
  shows "(hp_status resp \<noteq> 200 \<or> rq_method r \<notin> {''POST'', ''PUT'', ''DELETE''} \<longrightarrow> c' = c \<and> e' = e) \<and>
    (cache_wf c \<longrightarrow> cache_wf c') \<and> (engine_wf e \<longrightarrow> engine_wf e')"
  using quiet_Router[of r "(c, e)" t1 t2] keeps_wf_Router[of "(c, e)" t1 t2 r]
  by (simp add: assms quiet_def keeps_wf_def) blast

theorem rest_failed_request_changes_nothing_witness:
  "Router_ServeHTTP 0 0 \<lparr>rq_method = ''PATCH'', rq_path = ''/api/v1/policy'', rq_query = [], rq_group = None, rq_rule = None\<rparr>
     (NewCache, NewEngine) = (method_not_allowed cors, (NewCache, NewEngine))"
proof -
  let ?r = "\<lparr>rq_method = ''PATCH'', rq_path = ''/api/v1/policy'', rq_query = [], rq_group = None, rq_rule = None\<rparr>"
  have "fst (Router_ServeHTTP 0 0 ?r (NewCache, NewEngine)) = method_not_allowed cors"
    by (simp add: Router_ServeHTTP_def mux_ServeHTTP_def setupRoutes_def handlePolicy_def cleanPath_def Split.simps HasPrefix_def)
  moreover obtain resp c' e' where out: "Router_ServeHTTP 0 0 ?r (NewCache, NewEngine) = (resp, (c', e'))"
    by (metis surj_pair)
  ultimately show ?thesis
    using rest_failed_request_changes_nothing[OF out] by simp
qed

text \<open>The table of the interface: the methods of each path, \<open>None\<close> where every method is served.\<close>

definition rest_table :: "(string, string list option) gomap" where
  "rest_table =
     [(''/api/v1/workloads'', Some [''GET'']), (''/api/v1/workload'', Some [''GET'']),
      (''/api/v1/groups'', Some [''GET'']), (''/api/v1/group'', Some [''GET'', ''POST'', ''DELETE'']),
      (''/api/v1/policies'', Some [''GET'']), (''/api/v1/policy'', Some [''GET'', ''POST'', ''PUT'', ''DELETE'']),
      (''/api/v1/graph'', Some [''GET'']), (''/api/v1/hosts'', Some [''GET'']),
      (''/api/v1/agents'', Some [''GET'']), (''/api/v1/stats'', Some [''GET'']), (''/health'', None)]"

definition statuses :: "string list option \<Rightarrow> string \<Rightarrow> int set" where
  "statuses ms m = (case ms of None \<Rightarrow> {200} | Some l \<Rightarrow> if m \<in> set l then {200, 400, 404} else {405})"

definition serves :: "route \<Rightarrow> string list option \<Rightarrow> bool" where
  "serves f ms \<longleftrightarrow>
     (\<forall>h r x. hp_status (fst (f h r x)) \<in> statuses ms (rq_method r) \<and>
        (\<forall>k. k \<notin> {''Content-Type'', ''X-Content-Type-Options''} \<longrightarrow> gget (hp_headers (fst (f h r x))) k = gget h k))"

lemma headers_write [simp]:
  "hp_headers (writeError h st m) = gput ''Content-Type'' ''application/json'' h"
  "hp_headers (writeSuccess h d) = gput ''Content-Type'' ''application/json'' h"
  "hp_headers (method_not_allowed h) =
     gput ''X-Content-Type-Options'' ''nosniff'' (gput ''Content-Type'' ''text/plain; charset=utf-8'' h)"
  by (simp_all add: writeError_def writeSuccess_def writeJSON_def method_not_allowed_def http_Error_def)

lemmas handler_defs =
  Handler_ListWorkloads_def Handler_GetWorkload_def Handler_ListGroups_def Handler_GetGroup_def Handler_CreateGroup_def
  Handler_DeleteGroup_def Handler_ListPolicies_def Handler_GetPolicy_def Handler_CreatePolicy_def Handler_UpdatePolicy_def
  Handler_DeletePolicy_def Handler_GetNetworkGraph_def Handler_ListHosts_def Handler_ListAgents_def Handler_GetStats_def

lemma serves_read:
  "serves handleWorkloads (Some [''GET''])" "serves handleWorkload (Some [''GET''])" "serves handleGroups (Some [''GET''])"
  "serves handlePolicies (Some [''GET''])" "serves handleGraph (Some [''GET''])" "serves handleHosts (Some [''GET''])"
  "serves handleAgents (Some [''GET''])" "serves handleStats (Some [''GET''])" "serves handleHealth None"
  by (simp_all add: serves_def statuses_def read_handlers handler_defs Let_def split: option.split)

lemma serves_handleGroup: "serves handleGroup (Some [''GET'', ''POST'', ''DELETE''])"
  unfolding serves_def
proof (intro allI conjI impI)
  fix h r x k
  show "hp_status (fst (handleGroup h r x)) \<in> statuses (Some [''GET'', ''POST'', ''DELETE'']) (rq_method r)"
    by (simp add: statuses_def handleGroup_def handler_defs Let_def split: option.split)
  show "gget (hp_headers (fst (handleGroup h r x))) k = gget h k" if "k \<notin> {''Content-Type'', ''X-Content-Type-Options''}"
    using that by (simp add: handleGroup_def handler_defs Let_def split: option.split)
qed

lemma serves_handlePolicy: "serves (handlePolicy t1 t2) (Some [''GET'', ''POST'', ''PUT'', ''DELETE''])"
  unfolding serves_def
proof (intro allI conjI impI)
  fix h r x k
  show "hp_status (fst (handlePolicy t1 t2 h r x)) \<in> statuses (Some [''GET'', ''POST'', ''PUT'', ''DELETE'']) (rq_method r)"
    by (simp add: statuses_def handlePolicy_def handler_defs Let_def split: option.split sum.split)
  show "gget (hp_headers (fst (handlePolicy t1 t2 h r x))) k = gget h k" if "k \<notin> {''Content-Type'', ''X-Content-Type-Options''}"
    using that by (simp add: handlePolicy_def handler_defs Let_def split: option.split sum.split)
qed

lemma serves_status: "serves f ms \<Longrightarrow> hp_status (fst (f h r x)) \<in> statuses ms (rq_method r)"
  unfolding serves_def by blast

lemma serves_origin:
  "serves f ms \<Longrightarrow>
   gget (hp_headers (fst (f h r x))) ''Access-Control-Allow-Origin'' = gget h ''Access-Control-Allow-Origin''"
  unfolding serves_def by (cases x) simp

lemma rel_map_of:
  "list_all2 (\<lambda>p q. fst p = fst q \<and> R (snd p) (snd q)) xs ys \<Longrightarrow> rel_option R (map_of xs k) (map_of ys k)"
  by (induction xs ys rule: list_all2_induct) auto

lemma serves_table: "rel_option serves (gget (setupRoutes t1 t2) p) (gget rest_table p)"
  by (rule rel_map_of) (simp add: setupRoutes_def rest_table_def serves_read serves_handleGroup serves_handlePolicy)

text \<open>Status codes by path and method.  For a path in clean form and any method other than OPTIONS,
  the answer is 404 when the path is not in the table of the interface, 405 when the path is but
  the method is not, and otherwise 200, 400 or 404 from the handler (200 for the health check).  Every
  answer, redirects and errors included, carries the three cross-origin headers.\<close>

lemma rest_status_codes:
  assumes "cleanPath (rq_path r) = rq_path r" and "rq_method r \<noteq> ''OPTIONS''"
  shows "hp_status (fst (Router_ServeHTTP t1 t2 r x)) \<in>
      (case gget rest_table (rq_path r) of None \<Rightarrow> {404} | Some ms \<Rightarrow> statuses ms (rq_method r)) \<and>
    gget (hp_headers (fst (Router_ServeHTTP t1 t2 q x))) ''Access-Control-Allow-Origin'' = Some ''*''"
proof
  show "hp_status (fst (Router_ServeHTTP t1 t2 r x)) \<in>
      (case gget rest_table (rq_path r) of None \<Rightarrow> {404} | Some ms \<Rightarrow> statuses ms (rq_method r))"
    using serves_table[of t1 t2 "rq_path r"] assms
    by (cases rule: option.rel_cases) (simp_all add: Router_ServeHTTP_def mux_ServeHTTP_def serves_status)
  show "gget (hp_headers (fst (Router_ServeHTTP t1 t2 q x))) ''Access-Control-Allow-Origin'' = Some ''*''"
    using serves_table[of t1 t2 "rq_path q"]
    by (cases rule: option.rel_cases)
       (simp_all add: Router_ServeHTTP_def mux_ServeHTTP_def serves_origin http_Error_def, simp_all add: cors_def)
qed

definition policy_request :: "string \<Rightarrow> (string \<times> string) list \<Rightarrow> PolicyRule option \<Rightarrow> Request" where
  "policy_request m q r =
     \<lparr>rq_method = m, rq_path = ''/api/v1/policy'', rq_query = q, rq_group = None, rq_rule = r\<rparr>"

lemma policy_request_sel [simp]:
  "rq_method (policy_request m q r) = m" "rq_query (policy_request m q r) = q" "rq_rule (policy_request m q r) = r"
  by (simp_all add: policy_request_def)

lemma cleanPath_policy: "cleanPath ''/api/v1/policy'' = ''/api/v1/policy''"
  by (simp add: cleanPath_def Split.simps HasPrefix_def)


lemma Router_policy:
  "m \<noteq> ''OPTIONS'' \<Longrightarrow>
   Router_ServeHTTP t1 t2 (policy_request m q r) x = handlePolicy t1 t2 cors (policy_request m q r) x"
  by (simp add: Router_ServeHTTP_def mux_ServeHTTP_def policy_request_def cleanPath_policy setupRoutes_def)

text \<open>C28. The life of a policy over REST.  Posting a rule with a non-zero identifier answers 200 with
  the stamped rule; a GET with the decimal identifier then returns that rule with 200; a DELETE with it
  answers 200, and afterwards a GET and a second DELETE with it answer 404.\<close>

theorem policy_rest_life_cycle:
  assumes "pr_id rule \<noteq> 0"
  shows "(let q = [(''id'', show_word (pr_id rule))];
         stored = rule\<lparr>pr_created_at := t1, pr_updated_at := t2\<rparr>;
         (r1, x1) = Router_ServeHTTP t1 t2 (policy_request ''POST'' [] (Some rule)) x;
         (r2, x2) = Router_ServeHTTP t3 t4 (policy_request ''GET'' q None) x1;
         (r3, x3) = Router_ServeHTTP t5 t6 (policy_request ''DELETE'' q None) x2;
         (r4, x4) = Router_ServeHTTP t7 t8 (policy_request ''GET'' q None) x3;
         (r5, x5) = Router_ServeHTTP t9 t10 (policy_request ''DELETE'' q None) x4
     in r1 = writeSuccess cors (RuleData stored) \<and> r2 = writeSuccess cors (RuleData stored) \<and>
        hp_status r3 = 200 \<and> hp_status r4 = 404 \<and> hp_status r5 = 404 \<and> fst x5 = fst x \<and>
        GetRule (snd x5) = (GetRule (snd x))(pr_id rule := None))"
proof -
  have ne: "show_word (pr_id rule) \<noteq> ''''"
    by simp
  show ?thesis
    using assms ne
    by (simp add: Router_policy handlePolicy_def Handler_CreatePolicy_def Handler_GetPolicy_def
        Handler_DeletePolicy_def AddRule_def DeleteRule_def Query_Get_def GetRule_def Let_def fun_eq_iff)
qed

theorem policy_rest_life_cycle_witness:
  "hp_status (fst (Router_ServeHTTP 3 4 (policy_request ''GET'' [(''id'', show_word (7 :: u32))] None)
     (snd (Router_ServeHTTP 1 2 (policy_request ''POST'' [] (Some rule0)) (NewCache, NewEngine))))) = 200"
proof -
  have "pr_id rule0 \<noteq> 0" "pr_id rule0 = 7"
    by (simp_all add: rule0_def)
  with policy_rest_life_cycle[of rule0 2 1 "(NewCache, NewEngine)" 3 4 5 6 7 8 9 10] show ?thesis
    by (simp add: Let_def case_prod_unfold)
qed

end
