(* ===== verification/GrpcServer.thy ===== *)
theory GrpcServer
  imports ControllerCache PolicyEngine
begin

text \<open>
  The gRPC service of the controller, \<open>micro-segment/internal/controller/grpc/server.go\<close>.

  The server record holds the server's own state; the cache and the policy engine are shared with
  the REST interface and are arguments of the handlers that use them.  The callbacks that the
  handlers start as goroutines are returned as events.  The theory shows when an agent counts as
  online, what a connection report does to the topology graph and which rules an agent receives.
\<close>

section \<open>Model\<close>

record AgentState =
  st_info :: pbAgentInfo
  st_last_seen :: time
  st_online :: bool
  st_stats :: "pbAgentStats option"

record Server =
  sv_port :: int
  sv_running :: bool
  sv_listening :: bool
  sv_agents :: "(string, AgentState) gomap"
  sv_onAgentJoin :: bool
  sv_onAgentLeave :: bool

datatype server_event =
    AgentJoin string string
  | AgentLeave string

definition NewServer :: "int \<Rightarrow> Server" where
  "NewServer port = \<lparr>sv_port = port, sv_running = False, sv_listening = False, sv_agents = [],
     sv_onAgentJoin = False, sv_onAgentLeave = False\<rparr>"

definition SetOnAgentJoin :: "bool \<Rightarrow> Server \<Rightarrow> Server" where
  "SetOnAgentJoin cb s = s\<lparr>sv_onAgentJoin := cb\<rparr>"

definition SetOnAgentLeave :: "bool \<Rightarrow> Server \<Rightarrow> Server" where
  "SetOnAgentLeave cb s = s\<lparr>sv_onAgentLeave := cb\<rparr>"

text \<open>\<open>Start\<close>; the argument \<open>listen\<close> is the error of \<open>net.Listen\<close>, if any.\<close>

definition Server_Start :: "(string \<Rightarrow> string option) \<Rightarrow> Server \<Rightarrow> string option \<times> Server" where
  "Server_Start listen s =
     (if sv_running s then (Some ''server already running'', s)
      else case listen ('':'' @ show_int (sv_port s)) of
             Some err \<Rightarrow> (Some (''failed to listen: '' @ err), s)
           | None \<Rightarrow> (None, s\<lparr>sv_listening := True, sv_running := True\<rparr>))"

definition Server_Stop :: "Server \<Rightarrow> Server" where
  "Server_Stop s = (if \<not> sv_running s then s else s\<lparr>sv_listening := False, sv_running := False\<rparr>)"

definition Server_IsRunning :: "Server \<Rightarrow> bool" where
  "Server_IsRunning s = sv_running s"

definition agent_timeout :: time where
  "agent_timeout = 60 * 1000000000"

definition expired :: "time \<Rightarrow> AgentState \<Rightarrow> bool" where
  "expired now state \<longleftrightarrow> st_online state \<and> now - st_last_seen state > agent_timeout"

definition checkAgentTimeout :: "time \<Rightarrow> Server \<Rightarrow> Server \<times> server_event list" where
  "checkAgentTimeout now s =
     (s\<lparr>sv_agents := map (\<lambda>(i, state). (i, if expired now state then state\<lparr>st_online := False\<rparr> else state)) (sv_agents s)\<rparr>,
      concat (map (\<lambda>(i, state). if expired now state \<and> sv_onAgentLeave s then [AgentLeave i] else []) (sv_agents s)))"

text \<open>
  The checker goroutine: the loop test reads \<open>running\<close>, then the loop waits for the next tick, during
  which the other goroutines change the server by the given function.
\<close>

fun agentTimeoutChecker :: "((Server \<Rightarrow> Server) \<times> time) list \<Rightarrow> Server \<Rightarrow> Server \<times> server_event list" where
  "agentTimeoutChecker [] s = (s, [])"
| "agentTimeoutChecker ((env, tick) # ticks) s =
     (if sv_running s then
        (let (s1, ev1) = checkAgentTimeout tick (env s);
             (s2, ev2) = agentTimeoutChecker ticks s1
         in (s2, ev1 @ ev2))
      else (s, []))"

definition Server_Register :: "time \<Rightarrow> pbAgentInfo \<Rightarrow> Server \<Rightarrow> pbRegisterResponse \<times> Server \<times> server_event list" where
  "Server_Register now req s =
     (\<lparr>rr_code = 0, rr_message = ''registered'', rr_cluster_id = ''micro-segment-cluster'', rr_report_interval = 5\<rparr>,
      s\<lparr>sv_agents := gput (ai_agent_id req)
          \<lparr>st_info = req, st_last_seen = now, st_online = True, st_stats = None\<rparr> (sv_agents s)\<rparr>,
      if sv_onAgentJoin s then [AgentJoin (ai_agent_id req) (ai_host_id req)] else [])"

definition Server_Heartbeat :: "time \<Rightarrow> time \<Rightarrow> pbHeartbeatRequest \<Rightarrow> Server \<Rightarrow> pbHeartbeatResponse \<times> Server" where
  "Server_Heartbeat now1 now2 req s =
     (\<lparr>hr_code = 0, hr_timestamp = unix_seconds now2\<rparr>,
      case gget (sv_agents s) (hq_agent_id req) of
        Some state \<Rightarrow>
          s\<lparr>sv_agents := gput (hq_agent_id req)
              (state\<lparr>st_last_seen := now1, st_online := True, st_stats := hq_stats req\<rparr>) (sv_agents s)\<rparr>
      | None \<Rightarrow> s)"

definition Server_ReportConnections :: "pbConnectionReport \<Rightarrow> Cache \<Rightarrow> pbReportResponse \<times> Cache" where
  "Server_ReportConnections req c =
     (\<lparr>rp_code = 0, rp_message = ''ok'', rp_report_interval = 5\<rparr>,
      fold (\<lambda>conn. UpdateConnectionFromProto (Some conn)) (cr_connections req) c)"

definition Server_ReportThreats :: "pbThreatReport \<Rightarrow> pbReportResponse" where
  "Server_ReportThreats req = \<lparr>rp_code = 0, rp_message = ''ok'', rp_report_interval = 0\<rparr>"

definition Server_ReportWorkload :: "time \<Rightarrow> pbWorkloadEvent \<Rightarrow> Cache \<Rightarrow> pbReportResponse \<times> Cache" where
  "Server_ReportWorkload now req c =
     (\<lparr>rp_code = 0, rp_message = ''ok'', rp_report_interval = 0\<rparr>,
      if we_event_type req = ''add'' \<or> we_event_type req = ''update'' then
        UpdateWorkloadFromProto now (we_workload req) c
      else if we_event_type req = ''delete'' then
        (case we_workload req of Some w \<Rightarrow> DeleteWorkload (pw_id w) c | None \<Rightarrow> c)
      else c)"

definition actionToProto :: "string \<Rightarrow> u32" where
  "actionToProto action =
     (if action = ''open'' then 0
      else if action = ''allow'' then 1
      else if action = ''deny'' then 2
      else if action = ''violate'' then 3
      else 3)"

definition rule_to_proto :: "PolicyRule \<Rightarrow> pbPolicyRule" where
  "rule_to_proto rule =
     \<lparr>pp_id = pr_id rule, pp_from = pr_from rule, pp_to = pr_to rule, pp_ports = pr_ports rule,
      pp_applications = [], pp_action = actionToProto (pr_action rule), pp_ingress = False,
      pp_priority = pr_priority rule, pp_disable = pr_disable rule, pp_comment = pr_comment rule\<rparr>"

definition Server_GetPolicies :: "pbPolicyRequest \<Rightarrow> Engine \<Rightarrow> pbPolicyList" where
  "Server_GetPolicies req e = \<lparr>pl_rules = map rule_to_proto (ListRules e)\<rparr>"

definition GetAgentCount :: "Server \<Rightarrow> nat" where
  "GetAgentCount s = length (sv_agents s)"

definition GetOnlineAgentCount :: "Server \<Rightarrow> nat" where
  "GetOnlineAgentCount s =
     fold (\<lambda>(_, state) count. if st_online state then count + 1 else count) (sv_agents s) 0"

section \<open>Agents\<close>

lemma gget_checkAgentTimeout:
  "gget (sv_agents (fst (checkAgentTimeout now s))) i =
     map_option (\<lambda>st. if expired now st then st\<lparr>st_online := False\<rparr> else st) (gget (sv_agents s) i)"
  by (simp add: checkAgentTimeout_def map_of_map)

lemma keys_checkAgentTimeout: "map fst (sv_agents (fst (checkAgentTimeout now s))) = map fst (sv_agents s)"
  by (simp add: checkAgentTimeout_def case_prod_unfold comp_def)

lemma gwf_server_ops:
  assumes "gwf (sv_agents s)"
  shows "gwf (sv_agents (fst (snd (Server_Register now req s))))"
    and "gwf (sv_agents (snd (Server_Heartbeat t1 t2 hb s)))"
    and "gwf (sv_agents (fst (checkAgentTimeout now s)))"
  using assms
  by (auto simp: Server_Register_def Server_Heartbeat_def keys_checkAgentTimeout split: option.splits)

text \<open>The operations on the agent table, as a sequence.\<close>

datatype agent_op =
    OpRegister time pbAgentInfo
  | OpHeartbeat time time pbHeartbeatRequest
  | OpCheck time

fun do_agent_op :: "agent_op \<Rightarrow> Server \<Rightarrow> Server" where
  "do_agent_op (OpRegister now req) s = fst (snd (Server_Register now req s))"
| "do_agent_op (OpHeartbeat t1 t2 req) s = snd (Server_Heartbeat t1 t2 req s)"
| "do_agent_op (OpCheck now) s = fst (checkAgentTimeout now s)"

text \<open>The time at which an operation is a contact of the given, already registered, agent.\<close>

fun contact :: "string \<Rightarrow> agent_op \<Rightarrow> time option" where
  "contact i (OpRegister now req) = (if ai_agent_id req = i then Some now else None)"
| "contact i (OpHeartbeat t1 t2 req) = (if hq_agent_id req = i then Some t1 else None)"
| "contact i (OpCheck now) = None"

lemma agent_op_contact:
  assumes "gget (sv_agents s) i = Some st" and "contact i x = Some t"
  shows "\<exists>st'. gget (sv_agents (do_agent_op x s)) i = Some st' \<and> st_last_seen st' = t \<and> st_online st'"
  using assms by (cases x) (auto simp: Server_Register_def Server_Heartbeat_def split: if_splits)

lemma agent_op_other:
  assumes "gget (sv_agents s) i = Some st" and "contact i x = None"
  shows "\<exists>st'. gget (sv_agents (do_agent_op x s)) i = Some st' \<and> st_last_seen st' = st_last_seen st \<and>
    (st_online st' \<longleftrightarrow> st_online st \<and> (\<forall>now. x = OpCheck now \<longrightarrow> now - st_last_seen st \<le> agent_timeout))"
  using assms
  by (cases x)
     (auto simp: Server_Register_def Server_Heartbeat_def gget_checkAgentTimeout expired_def split: if_splits option.splits)

lemma agent_ops_other:
  assumes "gget (sv_agents s) i = Some st" and "\<forall>x \<in> set xs. contact i x = None"
  shows "\<exists>st'. gget (sv_agents (fold do_agent_op xs s)) i = Some st' \<and> st_last_seen st' = st_last_seen st \<and>
    (st_online st' \<longleftrightarrow> st_online st \<and> (\<forall>now. OpCheck now \<in> set xs \<longrightarrow> now - st_last_seen st \<le> agent_timeout))"
  using assms
proof (induction xs arbitrary: s st)
  case Nil
  then show ?case by auto
next
  case (Cons x xs)
  then have "contact i x = None"
    by simp
  from agent_op_other[OF Cons.prems(1) this] obtain st1 where
    st1: "gget (sv_agents (do_agent_op x s)) i = Some st1" "st_last_seen st1 = st_last_seen st"
      "st_online st1 \<longleftrightarrow> st_online st \<and> (\<forall>now. x = OpCheck now \<longrightarrow> now - st_last_seen st \<le> agent_timeout)"
    by blast
  from Cons.IH[OF st1(1)] Cons.prems(2) obtain st2 where
    "gget (sv_agents (fold do_agent_op xs (do_agent_op x s))) i = Some st2" "st_last_seen st2 = st_last_seen st1"
    "st_online st2 \<longleftrightarrow> st_online st1 \<and> (\<forall>now. OpCheck now \<in> set xs \<longrightarrow> now - st_last_seen st1 \<le> agent_timeout)"
    by auto
  with st1 show ?case
    by (intro exI[of _ st2]) auto
qed

lemma fold_count: "fold (\<lambda>(_, x) n. if P x then n + 1 else n) m k = k + length (filter (\<lambda>(_, x). P x) m)"
  by (induction m arbitrary: k) auto

lemma length_filter_gwf:
  assumes "gwf m"
  shows "length (filter (\<lambda>(_, x). P x) m) = card {k. \<exists>x. gget m k = Some x \<and> P x}"
proof -
  let ?f = "filter (\<lambda>(_, x). P x) m"
  have "length ?f = card (fst ` set ?f)"
    using assms by (metis distinct_card distinct_map_filter length_map list.set_map)
  moreover have "fst ` set ?f = {k. \<exists>x. gget m k = Some x \<and> P x}"
    using assms by (force simp: gget_iff_mem)
  ultimately show ?thesis by simp
qed

lemma concat_if:
  "concat (map (\<lambda>(k, x). if P x \<and> b then [f k] else []) m) =
     (if b then map (\<lambda>p. f (fst p)) (filter (\<lambda>p. P (snd p)) m) else [])"
  by (induction m) auto

lemma checkAgentTimeout_events:
  "snd (checkAgentTimeout now s) =
     (if sv_onAgentLeave s then map (\<lambda>p. AgentLeave (fst p)) (filter (\<lambda>p. expired now (snd p)) (sv_agents s)) else [])"
  by (simp add: checkAgentTimeout_def concat_if)

lemma set_checkAgentTimeout_events:
  assumes "gwf (sv_agents s)"
  shows "set (snd (checkAgentTimeout now s)) =
    {AgentLeave i | i. sv_onAgentLeave s \<and> (\<exists>st. gget (sv_agents s) i = Some st \<and> expired now st)}"
  using assms by (force simp: checkAgentTimeout_events gget_iff_mem)

lemma distinct_checkAgentTimeout_events:
  assumes "gwf (sv_agents s)"
  shows "distinct (snd (checkAgentTimeout now s))"
proof -
  have "distinct (map fst (filter (\<lambda>p. expired now (snd p)) (sv_agents s)))"
    using assms by (rule distinct_map_filter)
  then have "distinct (map AgentLeave (map fst (filter (\<lambda>p. expired now (snd p)) (sv_agents s))))"
    by (rule distinct_map[THEN iffD2, OF conjI]) (simp add: inj_on_def)
  then show ?thesis
    by (simp add: checkAgentTimeout_events comp_def)
qed

lemma Attr_UpdateConnection:
  "Attr (wlGraph (UpdateConnection conn c)) s ''graph'' d =
     (if s = cn_client_wl conn \<and> d = cn_server_wl conn then Some (conn_attr conn) else Attr (wlGraph c) s ''graph'' d)"
  by (simp add: UpdateConnection_def Let_def flip: AddLink_graph_def)

lemma Attr_fold_connections:
  "Attr (wlGraph (fold (\<lambda>p. UpdateConnectionFromProto (Some p)) ps c)) s ''graph'' d =
    (case find (\<lambda>p. pc_client_wl p = s \<and> pc_server_wl p = d) (rev ps) of
       Some p \<Rightarrow> Some (conn_attr (connection_from_proto p))
     | None \<Rightarrow> Attr (wlGraph c) s ''graph'' d)"
  by (induction ps rule: rev_induct)
     (auto simp: UpdateConnectionFromProto_Some Attr_UpdateConnection connection_from_proto_def)

section \<open>Properties\<close>


definition agent1 :: pbAgentInfo where
  "agent1 = \<lparr>ai_agent_id = ''a1'', ai_host_id = ''h1'', ai_host_name = ''node'', ai_version = ''1'', ai_platform = ''linux''\<rparr>"


text \<open>A timeout check reports exactly the agents it turns offline, each once and only if the
  callback is set; it adds and removes no agent.  The online counter counts the online agents and
  never exceeds the agent counter.\<close>

lemma checkAgentTimeout_reports:
  assumes "gwf (sv_agents s)" and "(s', ev) = checkAgentTimeout now s"
  shows "distinct ev \<and> dom (gget (sv_agents s')) = dom (gget (sv_agents s)) \<and>
    set ev = {AgentLeave i | i. sv_onAgentLeave s \<and>
      (\<exists>st st'. gget (sv_agents s) i = Some st \<and> gget (sv_agents s') i = Some st' \<and> st_online st \<and> \<not> st_online st')} \<and>
    GetOnlineAgentCount s' = card {i. \<exists>st. gget (sv_agents s') i = Some st \<and> st_online st} \<and>
    GetOnlineAgentCount s' \<le> GetAgentCount s'"
proof -
  have s': "s' = fst (checkAgentTimeout now s)" and ev: "ev = snd (checkAgentTimeout now s)"
    using assms(2) by (metis fst_conv, metis snd_conv)
  have "dom (gget (sv_agents s')) = dom (gget (sv_agents s))"
    by (metis dom_gget keys_checkAgentTimeout list.set_map s')
  moreover have "(\<exists>st. gget (sv_agents s) i = Some st \<and> expired now st) \<longleftrightarrow>
      (\<exists>st st'. gget (sv_agents s) i = Some st \<and> gget (sv_agents s') i = Some st' \<and> st_online st \<and> \<not> st_online st')" for i
    by (cases "gget (sv_agents s) i") (auto simp: s' gget_checkAgentTimeout expired_def)
  moreover have "gwf (sv_agents s')"
    using assms(1) by (simp add: s' gwf_server_ops)
  ultimately show ?thesis
    using assms(1)
    by (simp add: ev set_checkAgentTimeout_events distinct_checkAgentTimeout_events GetOnlineAgentCount_def
        GetAgentCount_def fold_count length_filter_gwf)
       (simp flip: length_filter_gwf)
qed


text \<open>A connection report updates the topology graph edge by edge: after the report the edge between
  two workloads carries the values of the last connection between them in the report, and an edge
  that the report does not mention is as it was.\<close>

lemma ReportConnections_edges:
  "Attr (wlGraph (snd (Server_ReportConnections req c))) s ''graph'' d =
    (case find (\<lambda>p. pc_client_wl p = s \<and> pc_server_wl p = d) (rev (cr_connections req)) of
       Some p \<Rightarrow> Some (conn_attr (connection_from_proto p))
     | None \<Rightarrow> Attr (wlGraph c) s ''graph'' d)"
  by (simp add: Server_ReportConnections_def Attr_fold_connections)

text \<open>What an agent receives from \<open>GetPolicies\<close>: the stored rules in the order in which the engine
  tries them, each once, with identifier, endpoints, ports, priority and the disable flag as stored,
  but without their application lists.  The transmitted action is the one the engine applies, except
  for the action string \<open>open\<close>, which is sent as 0 and applied as a violation.\<close>

lemma GetPolicies_rules:
  "map pp_id (pl_rules (Server_GetPolicies req e)) = map pr_id (ListRules e) \<and>
   (\<forall>r. (pp_from (rule_to_proto r), pp_to (rule_to_proto r), pp_ports (rule_to_proto r),
          pp_priority (rule_to_proto r), pp_disable (rule_to_proto r), pp_applications (rule_to_proto r)) =
        (pr_from r, pr_to r, pr_ports r, pr_priority r, pr_disable r, [])) \<and>
   (\<forall>r. pp_action (rule_to_proto r) = ucast (actionFromString (pr_action r)) \<longleftrightarrow> pr_action r \<noteq> ''open'')"
  by (auto simp: Server_GetPolicies_def rule_to_proto_def actionToProto_def actionFromString_def policy_consts)

end
