(* ===== verification/AgentTypes.thy ===== *)
theory AgentTypes
  imports GoNet
begin

text \<open>
  The data of the agent, \<open>micro-segment/internal/agent/types.go\<close>.  The record names carry an \<open>A\<close> where
  the controller declares a struct of the same name.
\<close>

type_synonym APolicyMode = string

definition APolicyModeMonitor :: APolicyMode where "APolicyModeMonitor = ''Monitor''"
definition APolicyModeProtect :: APolicyMode where "APolicyModeProtect = ''Protect''"

type_synonym APolicyAction = u8

definition APolicyActionOpen :: APolicyAction where "APolicyActionOpen = 0"
definition APolicyActionAllow :: APolicyAction where "APolicyActionAllow = 1"
definition APolicyActionDeny :: APolicyAction where "APolicyActionDeny = 2"
definition APolicyActionViolate :: APolicyAction where "APolicyActionViolate = 3"

lemmas apolicy_consts =
  APolicyModeMonitor_def APolicyModeProtect_def
  APolicyActionOpen_def APolicyActionAllow_def APolicyActionDeny_def APolicyActionViolate_def

record AConnection =
  xc_agent_id :: string
  xc_host_id :: string
  xc_client_wl :: string
  xc_server_wl :: string
  xc_client_ip :: ip
  xc_server_ip :: ip
  xc_client_port :: u16
  xc_server_port :: u16
  xc_ip_proto :: u8
  xc_application :: u32
  xc_bytes :: u64
  xc_sessions :: u32
  xc_violates :: u32
  xc_first_seen_at :: u32
  xc_last_seen_at :: u32
  xc_threat_id :: u32
  xc_severity :: u8
  xc_policy_action :: u8
  xc_policy_id :: u32
  xc_ingress :: bool
  xc_external_peer :: bool
  xc_local_peer :: bool
  xc_scope :: string
  xc_network :: string

record ConnectionData =
  cd_epmac :: mac
  cd_conn :: AConnection

record AThreatLog =
  xt_id :: string
  xt_threat_id :: u32
  xt_threat_name :: string
  xt_severity :: string
  xt_client_wl :: string
  xt_server_wl :: string
  xt_client_ip :: ip
  xt_server_ip :: ip
  xt_server_port :: u16
  xt_ip_proto :: u8
  xt_pkt_ingress :: bool
  xt_local_peer :: bool
  xt_host_id :: string
  xt_host_name :: string
  xt_agent_id :: string
  xt_agent_name :: string
  xt_workload_id :: string
  xt_workload_name :: string
  xt_reported_at :: time

record AIPAddr =
  xi_ip :: ip
  xi_ipnet :: IPNet
  xi_scope :: string
  xi_gateway :: string

record AWorkload =
  xw_id :: string
  xw_name :: string
  xw_host_id :: string
  xw_host_name :: string
  xw_domain :: string
  xw_service :: string
  xw_policy_mode :: APolicyMode
  xw_running :: bool
  xw_pid :: int
  xw_ifaces :: "(string, AIPAddr list) gomap"

record APolicyRule =
  xr_id :: u32
  xr_from :: string
  xr_to :: string
  xr_ports :: string
  xr_applications :: "u32 list"
  xr_action :: APolicyAction
  xr_ingress :: bool

record Subnet =
  sn_subnet :: IPNet
  sn_scope :: string

end
