(* ===== verification/GrpcClient.thy ===== *)
theory GrpcClient
  imports AgentTypes Proto
begin

text \<open>
  The agent's client of the controller service, \<open>micro-segment/internal/agent/grpc/client.go\<close>.

  The remote service is a parameter: each call is a function from the state \<open>'w\<close> of the far side and the
  request to a transport error or a response, and to the new state.  The locale \<open>controller_service\<close>
  states what the client relies on; the root theory interprets it with the server of the controller.
\<close>

section \<open>Model\<close>

record Client =
  cl_serverAddr :: string
  cl_connected :: bool
  cl_agentID :: string
  cl_hostID :: string
  cl_hostName :: string
  cl_version :: string
  cl_heartbeatInterval :: time
  cl_stopped :: bool
  cl_heartbeats :: nat

type_synonym ('w, 'q, 'r) rpc = "'w \<Rightarrow> 'q \<Rightarrow> (string + 'r) \<times> 'w"

definition NewClient :: "string \<Rightarrow> string \<Rightarrow> string \<Rightarrow> string \<Rightarrow> string \<Rightarrow> Client" where
  "NewClient serverAddr agentID hostID hostName version =
     \<lparr>cl_serverAddr = serverAddr, cl_connected = False, cl_agentID = agentID, cl_hostID = hostID,
      cl_hostName = hostName, cl_version = version, cl_heartbeatInterval = 10 * 1000000000,
      cl_stopped = False, cl_heartbeats = 0\<rparr>"

definition Client_Connect :: "string option \<Rightarrow> Client \<Rightarrow> string option \<times> Client" where
  "Client_Connect dial c =
     (if cl_connected c then (None, c)
      else case dial of
             Some err \<Rightarrow> (Some (''failed to connect: '' @ err), c)
           | None \<Rightarrow> (None, c\<lparr>cl_connected := True\<rparr>))"

text \<open>
  \<open>Disconnect\<close> closes the stop channel, which ends the heartbeat loops; closing it a second time
  panics (\<open>None\<close>).
\<close>

definition Client_Disconnect :: "Client \<Rightarrow> Client option" where
  "Client_Disconnect c =
     (if \<not> cl_connected c then Some c
      else if cl_stopped c then None
      else Some (c\<lparr>cl_stopped := True, cl_heartbeats := 0, cl_connected := False\<rparr>))"

definition Client_IsConnected :: "Client \<Rightarrow> bool" where
  "Client_IsConnected c = cl_connected c"

text \<open>A heartbeat loop that starts after the stop channel is closed returns at once.\<close>

definition start_heartbeat :: "Client \<Rightarrow> Client" where
  "start_heartbeat c = (if cl_stopped c then c else c\<lparr>cl_heartbeats := Suc (cl_heartbeats c)\<rparr>)"

definition Client_Register ::
  "('w, pbAgentInfo, pbRegisterResponse) rpc \<Rightarrow> 'w \<Rightarrow> Client \<Rightarrow> string option \<times> 'w \<times> Client" where
  "Client_Register call w c =
     (if \<not> cl_connected c then (Some ''not connected'', w, c)
      else
        let (r, w') = call w \<lparr>ai_agent_id = cl_agentID c, ai_host_id = cl_hostID c, ai_host_name = cl_hostName c,
                              ai_version = cl_version c, ai_platform = ''''\<rparr>
        in case r of
             Inl err \<Rightarrow> (Some (''register failed: '' @ err), w', c)
           | Inr resp \<Rightarrow>
               if rr_code resp \<noteq> 0 then (Some (''register failed: '' @ rr_message resp), w', c)
               else (None, w', start_heartbeat c))"

definition sendHeartbeat ::
  "('w, pbHeartbeatRequest, pbHeartbeatResponse) rpc \<Rightarrow> time \<Rightarrow> 'w \<Rightarrow> Client \<Rightarrow> 'w" where
  "sendHeartbeat call now w c =
     (if \<not> cl_connected c then w
      else snd (call w \<lparr>hq_agent_id = cl_agentID c, hq_timestamp = unix_seconds now, hq_stats = None\<rparr>))"

text \<open>The heartbeat loop: each element is the time of a tick, \<open>None\<close> the stop signal.\<close>

fun heartbeatLoop ::
  "('w, pbHeartbeatRequest, pbHeartbeatResponse) rpc \<Rightarrow> time option list \<Rightarrow> 'w \<Rightarrow> Client \<Rightarrow> 'w" where
  "heartbeatLoop call [] w c = w"
| "heartbeatLoop call (None # evs) w c = w"
| "heartbeatLoop call (Some now # evs) w c = heartbeatLoop call evs (sendHeartbeat call now w c) c"

definition connection_to_proto :: "AConnection \<Rightarrow> pbConnection" where
  "connection_to_proto conn =
     \<lparr>pc_client_wl = xc_client_wl conn, pc_server_wl = xc_server_wl conn,
      pc_client_ip = xc_client_ip conn, pc_server_ip = xc_server_ip conn,
      pc_client_port = ucast (xc_client_port conn), pc_server_port = ucast (xc_server_port conn),
      pc_ip_proto = ucast (xc_ip_proto conn), pc_application = xc_application conn,
      pc_bytes = xc_bytes conn, pc_sessions = xc_sessions conn,
      pc_first_seen_at = xc_first_seen_at conn, pc_last_seen_at = xc_last_seen_at conn,
      pc_threat_id = xc_threat_id conn, pc_severity = ucast (xc_severity conn),
      pc_policy_action = ucast (xc_policy_action conn), pc_policy_id = xc_policy_id conn,
      pc_ingress = xc_ingress conn, pc_external_peer = xc_external_peer conn, pc_local_peer = xc_local_peer conn,
      pc_scope = xc_scope conn, pc_network = xc_network conn, pc_violates = xc_violates conn\<rparr>"

text \<open>The common tail of the report calls: a transport error, an error code, or success.\<close>

definition report_result :: "string \<Rightarrow> (string + pbReportResponse) \<times> 'w \<Rightarrow> string option \<times> 'w" where
  "report_result what out =
     (case fst out of
        Inl err \<Rightarrow> (Some (what @ '' failed: '' @ err), snd out)
      | Inr resp \<Rightarrow>
          if rp_code resp \<noteq> 0 then (Some (what @ '' failed: '' @ rp_message resp), snd out)
          else (None, snd out))"

definition Client_ReportConnections ::
  "('w, pbConnectionReport, pbReportResponse) rpc \<Rightarrow> AConnection list \<Rightarrow> 'w \<Rightarrow> Client \<Rightarrow> string option \<times> 'w" where
  "Client_ReportConnections call conns w c =
     (if \<not> cl_connected c then (Some ''not connected'', w)
      else report_result ''report connections''
             (call w \<lparr>cr_agent_id = cl_agentID c, cr_host_id = cl_hostID c,
                      cr_connections = map connection_to_proto conns\<rparr>))"

definition threat_to_proto :: "AThreatLog \<Rightarrow> pbThreatLog" where
  "threat_to_proto threat =
     \<lparr>pt_id = xt_id threat, pt_threat_id = xt_threat_id threat, pt_threat_name = xt_threat_name threat,
      pt_severity = xt_severity threat, pt_client_wl = xt_client_wl threat, pt_server_wl = xt_server_wl threat,
      pt_client_ip = xt_client_ip threat, pt_server_ip = xt_server_ip threat,
      pt_server_port = ucast (xt_server_port threat), pt_ip_proto = ucast (xt_ip_proto threat),
      pt_pkt_ingress = xt_pkt_ingress threat, pt_local_peer = xt_local_peer threat,
      pt_reported_at = unix_seconds (xt_reported_at threat)\<rparr>"

definition Client_ReportThreats ::
  "('w, pbThreatReport, pbReportResponse) rpc \<Rightarrow> AThreatLog list \<Rightarrow> 'w \<Rightarrow> Client \<Rightarrow> string option \<times> 'w" where
  "Client_ReportThreats call threats w c =
     (if \<not> cl_connected c then (Some ''not connected'', w)
      else report_result ''report threats''
             (call w \<lparr>tr_agent_id = cl_agentID c, tr_host_id = cl_hostID c,
                      tr_threats = map threat_to_proto threats\<rparr>))"

definition addr_to_proto :: "AIPAddr \<Rightarrow> pbIPAddress" where
  "addr_to_proto addr = \<lparr>pa_ip = IP_String (xi_ip addr), pa_scope = xi_scope addr, pa_gateway = xi_gateway addr\<rparr>"

definition workload_to_proto :: "AWorkload \<Rightarrow> pbWorkload" where
  "workload_to_proto wl =
     \<lparr>pw_id = xw_id wl, pw_name = xw_name wl, pw_host_id = xw_host_id wl, pw_host_name = xw_host_name wl,
      pw_domain = xw_domain wl, pw_service = xw_service wl, pw_image = '''', pw_policy_mode = xw_policy_mode wl,
      pw_running = xw_running wl, pw_pid = sint (of_int (xw_pid wl) :: u32),
      pw_ifaces = map (\<lambda>(name, addrs). \<lparr>pn_name = name, pn_mac = '''', pn_addrs = map addr_to_proto addrs\<rparr>) (xw_ifaces wl),
      pw_labels = []\<rparr>"

definition Client_ReportWorkload ::
  "('w, pbWorkloadEvent, pbReportResponse) rpc \<Rightarrow> string \<Rightarrow> AWorkload \<Rightarrow> 'w \<Rightarrow> Client \<Rightarrow> string option \<times> 'w" where
  "Client_ReportWorkload call eventType wl w c =
     (if \<not> cl_connected c then (Some ''not connected'', w)
      else report_result ''report workload''
             (call w \<lparr>we_agent_id = cl_agentID c, we_event_type = eventType, we_workload = Some (workload_to_proto wl)\<rparr>))"

definition rule_from_proto :: "pbPolicyRule \<Rightarrow> APolicyRule" where
  "rule_from_proto r =
     \<lparr>xr_id = pp_id r, xr_from = pp_from r, xr_to = pp_to r, xr_ports = pp_ports r,
      xr_applications = pp_applications r, xr_action = ucast (pp_action r), xr_ingress = pp_ingress r\<rparr>"

definition Client_GetPolicies ::
  "('w, pbPolicyRequest, pbPolicyList) rpc \<Rightarrow> string list \<Rightarrow> 'w \<Rightarrow> Client \<Rightarrow> (string + APolicyRule list) \<times> 'w" where
  "Client_GetPolicies call workloadIDs w c =
     (if \<not> cl_connected c then (Inl ''not connected'', w)
      else
        let (r, w') = call w \<lparr>pq_agent_id = cl_agentID c, pq_workload_ids = workloadIDs\<rparr>
        in case r of
             Inl err \<Rightarrow> (Inl (''get policies failed: '' @ err), w')
           | Inr resp \<Rightarrow> (Inr (map rule_from_proto (pl_rules resp)), w'))"

definition ipToBytes :: "ip \<Rightarrow> u8 list" where
  "ipToBytes a = (case To4 a of Some v \<Rightarrow> v | None \<Rightarrow> a)"

section \<open>What the client relies on\<close>

text \<open>
  The service as the client sees it, over a faultless transport: \<open>known\<close> tells which agents the far
  side knows, \<open>edge\<close> what it has on record between two workloads, \<open>recorded\<close> what it keeps of a
  connection, \<open>served\<close> the rules it serves.
\<close>

locale controller_service =
  fixes register :: "('w, pbAgentInfo, pbRegisterResponse) rpc"
    and heartbeat :: "('w, pbHeartbeatRequest, pbHeartbeatResponse) rpc"
    and connections :: "('w, pbConnectionReport, pbReportResponse) rpc"
    and policies :: "('w, pbPolicyRequest, pbPolicyList) rpc"
    and known :: "'w \<Rightarrow> string set"
    and edge :: "'w \<Rightarrow> string \<Rightarrow> string \<Rightarrow> 'e option"
    and recorded :: "pbConnection \<Rightarrow> 'e"
    and served :: "'w \<Rightarrow> pbPolicyRule list"
  assumes register_ok: "\<exists>resp w'. register w q = (Inr resp, w') \<and> rr_code resp = 0 \<and> known w' = insert (ai_agent_id q) (known w)"
    and heartbeat_ok: "\<exists>resp w'. heartbeat w h = (Inr resp, w') \<and> known w' = known w"
    and connections_ok: "\<exists>resp w'. connections w r = (Inr resp, w') \<and> rp_code resp = 0 \<and> known w' = known w"
    and connections_edge:
      "edge (snd (connections w r)) s d =
         (case find (\<lambda>p. pc_client_wl p = s \<and> pc_server_wl p = d) (rev (cr_connections r)) of
            Some p \<Rightarrow> Some (recorded p) | None \<Rightarrow> edge w s d)"
    and policies_ok: "policies w p = (Inr \<lparr>pl_rules = served w\<rparr>, w)"
begin

lemma Register_known:
  assumes "cl_connected c"
  shows "\<exists>w' c'. Client_Register register w c = (None, w', c') \<and> cl_agentID c \<in> known w'"
proof -
  let ?q = "\<lparr>ai_agent_id = cl_agentID c, ai_host_id = cl_hostID c, ai_host_name = cl_hostName c,
             ai_version = cl_version c, ai_platform = ''''\<rparr>"
  obtain resp w' where "register w ?q = (Inr resp, w')" "rr_code resp = 0" "known w' = insert (cl_agentID c) (known w)"
    using register_ok[of w ?q] by auto
  with assms show ?thesis
    by (simp add: Client_Register_def)
qed

lemma heartbeats_known: "known (heartbeatLoop heartbeat evs w c) = known w"
proof (induction evs arbitrary: w)
  case Nil
  then show ?case by simp
next
  case (Cons ev evs)
  have known: "known (sendHeartbeat heartbeat now w c) = known w" for now w
  proof -
    have "known (snd (heartbeat w h)) = known w" for h
      using heartbeat_ok[of w h] by (elim exE conjE) simp
    then show ?thesis
      by (simp add: sendHeartbeat_def)
  qed
  show ?case
    by (cases ev) (simp_all add: Cons known)
qed

lemma ReportConnections_ok:
  assumes "cl_connected c"
  shows "Client_ReportConnections connections conns w c =
    (None, snd (connections w \<lparr>cr_agent_id = cl_agentID c, cr_host_id = cl_hostID c,
                               cr_connections = map connection_to_proto conns\<rparr>))"
proof -
  let ?r = "\<lparr>cr_agent_id = cl_agentID c, cr_host_id = cl_hostID c, cr_connections = map connection_to_proto conns\<rparr>"
  obtain resp w' where "connections w ?r = (Inr resp, w')" "rp_code resp = 0"
    using connections_ok[of w ?r] by blast
  with assms show ?thesis
    by (simp add: Client_ReportConnections_def report_result_def)
qed

lemma ReportConnections_edge:
  assumes "cl_connected c"
  shows "edge (snd (Client_ReportConnections connections conns w c)) s d =
    (case find (\<lambda>x. xc_client_wl x = s \<and> xc_server_wl x = d) (rev conns) of
       Some x \<Rightarrow> Some (recorded (connection_to_proto x)) | None \<Rightarrow> edge w s d)"
proof -
  have "find (\<lambda>p. pc_client_wl p = s \<and> pc_server_wl p = d) (map connection_to_proto xs) =
      map_option connection_to_proto (find (\<lambda>x. xc_client_wl x = s \<and> xc_server_wl x = d) xs)" for xs
    by (induction xs) (simp_all add: connection_to_proto_def)
  then show ?thesis
    by (simp add: ReportConnections_ok[OF assms] connections_edge rev_map split: option.split)
qed

lemma GetPolicies_served:
  assumes "cl_connected c"
  shows "Client_GetPolicies policies ids w c = (Inr (map rule_from_proto (served w)), w)"
  using assms by (simp add: Client_GetPolicies_def policies_ok)

end

end
