(* ===== verification/Controller.thy ===== *)
theory Controller
  imports RestApi GrpcServer GrpcClient
begin

text \<open>
  The controller process, \<open>micro-segment/cmd/controller/main.go\<close>: one cache and one policy engine shared
  by the gRPC server and the REST router.

  The state is the record \<open>Controller\<close>; the remote procedures of the server appear as \<open>rpc\<close>
  functions on it, over a transport that does not fail.  The step relation has one rule per entry point of the
  running process: a remote call, a REST request, a run of the timeout check, and a change of the
  iteration order of the rule map.  The theory interprets the contract \<open>controller_service\<close> of the agent's
  client with these procedures.
\<close>

section \<open>Model\<close>

record Controller =
  ct_cache :: Cache
  ct_engine :: Engine
  ct_server :: Server

text \<open>The set-up of \<open>main\<close>, with the two logging callbacks; \<open>None\<close> is the fatal exit.\<close>

definition controller_setup :: "int \<Rightarrow> Controller" where
  "controller_setup grpcPort =
     \<lparr>ct_cache = NewCache, ct_engine = NewEngine,
      ct_server = SetOnAgentLeave True (SetOnAgentJoin True (NewServer grpcPort))\<rparr>"

definition controller_main :: "(string \<Rightarrow> string option) \<Rightarrow> int \<Rightarrow> Controller option" where
  "controller_main listen grpcPort =
     (let k = controller_setup grpcPort
      in case Server_Start listen (ct_server k) of
           (Some err, _) \<Rightarrow> None
         | (None, s) \<Rightarrow> Some (k\<lparr>ct_server := s\<rparr>))"

definition controller_shutdown :: "Controller \<Rightarrow> Controller" where
  "controller_shutdown k = k\<lparr>ct_server := Server_Stop (ct_server k)\<rparr>"

definition ctl_register :: "time \<Rightarrow> (Controller, pbAgentInfo, pbRegisterResponse) rpc" where
  "ctl_register now k req =
     (let (resp, s, _) = Server_Register now req (ct_server k) in (Inr resp, k\<lparr>ct_server := s\<rparr>))"

definition ctl_heartbeat :: "time \<Rightarrow> time \<Rightarrow> (Controller, pbHeartbeatRequest, pbHeartbeatResponse) rpc" where
  "ctl_heartbeat now1 now2 k req =
     (let (resp, s) = Server_Heartbeat now1 now2 req (ct_server k) in (Inr resp, k\<lparr>ct_server := s\<rparr>))"

definition ctl_connections :: "(Controller, pbConnectionReport, pbReportResponse) rpc" where
  "ctl_connections k req =
     (let (resp, c) = Server_ReportConnections req (ct_cache k) in (Inr resp, k\<lparr>ct_cache := c\<rparr>))"

definition ctl_threats :: "(Controller, pbThreatReport, pbReportResponse) rpc" where
  "ctl_threats k req = (Inr (Server_ReportThreats req), k)"

definition ctl_workload :: "time \<Rightarrow> (Controller, pbWorkloadEvent, pbReportResponse) rpc" where
  "ctl_workload now k req =
     (let (resp, c) = Server_ReportWorkload now req (ct_cache k) in (Inr resp, k\<lparr>ct_cache := c\<rparr>))"

definition ctl_policies :: "(Controller, pbPolicyRequest, pbPolicyList) rpc" where
  "ctl_policies k req = (Inr (Server_GetPolicies req (ct_engine k)), k)"

definition ctl_rest :: "time \<Rightarrow> time \<Rightarrow> Request \<Rightarrow> Controller \<Rightarrow> HttpResponse \<times> Controller" where
  "ctl_rest now1 now2 req k =
     (let (resp, c, e) = Router_ServeHTTP now1 now2 req (ct_cache k, ct_engine k)
      in (resp, k\<lparr>ct_cache := c, ct_engine := e\<rparr>))"

definition ctl_check :: "time \<Rightarrow> Controller \<Rightarrow> Controller" where
  "ctl_check now k = k\<lparr>ct_server := fst (checkAgentTimeout now (ct_server k))\<rparr>"

inductive controller_step :: "Controller \<Rightarrow> Controller \<Rightarrow> bool" where
  k_register: "controller_step k (snd (ctl_register now k reg))"
| k_heartbeat: "controller_step k (snd (ctl_heartbeat now1 now2 k hb))"
| k_connections: "controller_step k (snd (ctl_connections k conns))"
| k_threats: "controller_step k (snd (ctl_threats k thr))"
| k_workload: "controller_step k (snd (ctl_workload now k wl))"
| k_policies: "controller_step k (snd (ctl_policies k pol))"
| k_rest: "controller_step k (snd (ctl_rest now1 now2 req k))"
| k_check: "controller_step k (ctl_check now k)"
| k_maps: "reorder (rules (ct_engine k)) m \<Longrightarrow> controller_step k (k\<lparr>ct_engine := (ct_engine k)\<lparr>rules := m\<rparr>\<rparr>)"

inductive_cases controller_stepE: "controller_step k k'"

section \<open>What a REST request leaves alone\<close>

text \<open>
  No route touches the modes of the engine, nor the hosts, agents, policies, connections and topology
  of the cache.
\<close>

definition rest_frame :: "ctl \<Rightarrow> ctl \<Rightarrow> bool" where
  "rest_frame x y \<longleftrightarrow> groupModes (snd y) = groupModes (snd x) \<and> hosts (fst y) = hosts (fst x) \<and>
     agents (fst y) = agents (fst x) \<and> policies (fst y) = policies (fst x) \<and>
     connections (fst y) = connections (fst x) \<and> wlGraph (fst y) = wlGraph (fst x)"

lemma rest_frame_read:
  "rest_frame x (snd (handleWorkloads h r x))" "rest_frame x (snd (handleWorkload h r x))"
  "rest_frame x (snd (handleGroups h r x))" "rest_frame x (snd (handlePolicies h r x))"
  "rest_frame x (snd (handleGraph h r x))" "rest_frame x (snd (handleHosts h r x))"
  "rest_frame x (snd (handleAgents h r x))" "rest_frame x (snd (handleStats h r x))"
  "rest_frame x (snd (handleHealth h r x))"
  by (simp_all add: rest_frame_def read_handlers)

lemma rest_frame_group: "rest_frame x (snd (handleGroup h r x))"
  by (auto simp: rest_frame_def handleGroup_def Handler_CreateGroup_def Handler_DeleteGroup_def AddGroup_def
      DeleteGroup_def Let_def split: option.splits)

lemma modes_engine_ops:
  "AddRule t1 t2 r e = Inr (r', e') \<Longrightarrow> groupModes e' = groupModes e"
  "UpdateRule t r e = Inr (r', e') \<Longrightarrow> groupModes e' = groupModes e"
  "DeleteRule i e = Inr e' \<Longrightarrow> groupModes e' = groupModes e"
  by (auto simp: AddRule_def UpdateRule_def DeleteRule_def updateRuleOrder_def Let_def split: if_splits option.splits)

lemma rest_frame_policy: "rest_frame x (snd (handlePolicy t1 t2 h r x))"
  by (auto simp: rest_frame_def handlePolicy_def Handler_CreatePolicy_def Handler_UpdatePolicy_def
      Handler_DeletePolicy_def Let_def split: option.splits sum.splits dest: modes_engine_ops)

lemma rest_frame_route: "gget (setupRoutes t1 t2) p = Some f \<Longrightarrow> rest_frame x (snd (f h r x))"
  by (drule route_cases, elim insertE emptyE) (simp_all only: rest_frame_read rest_frame_group rest_frame_policy)

lemma rest_frame_Router: "rest_frame x (snd (Router_ServeHTTP t1 t2 r x))"
  using Router_cases[of t1 t2 r x]
proof
  assume "\<exists>f. gget (setupRoutes t1 t2) (rq_path r) = Some f \<and> Router_ServeHTTP t1 t2 r x = f cors r x"
  then show ?thesis
    using rest_frame_route by (elim exE conjE) simp
qed (simp add: rest_frame_def)

section \<open>The invariant of the controller\<close>

text \<open>
  Nothing in the process sets a group mode, stores a host, an agent or a policy in the cache: these
  four maps stay empty.
\<close>

definition controller_inv :: "Controller \<Rightarrow> bool" where
  "controller_inv k \<longleftrightarrow> cache_wf (ct_cache k) \<and> engine_wf (ct_engine k) \<and> gwf (sv_agents (ct_server k)) \<and>
     groupModes (ct_engine k) = [] \<and> hosts (ct_cache k) = [] \<and> agents (ct_cache k) = [] \<and> policies (ct_cache k) = []"

lemma controller_inv_setup: "controller_inv (controller_setup p)"
  by (simp add: controller_inv_def controller_setup_def NewCache_wf)
     (simp add: NewCache_def NewEngine_def engine_wf_def NewServer_def SetOnAgentJoin_def SetOnAgentLeave_def)

lemma controller_inv_main: "controller_main listen p = Some k \<Longrightarrow> controller_inv k"
  using controller_inv_setup[of p]
  by (auto simp: controller_main_def Let_def controller_inv_def Server_Start_def split: option.splits if_splits)

text \<open>What a report may change in the cache.\<close>

lemma cache_frame_connections:
  "hosts (fold (\<lambda>p. UpdateConnectionFromProto (Some p)) ps c) = hosts c \<and>
   agents (fold (\<lambda>p. UpdateConnectionFromProto (Some p)) ps c) = agents c \<and>
   policies (fold (\<lambda>p. UpdateConnectionFromProto (Some p)) ps c) = policies c"
  by (induction ps arbitrary: c) (simp_all add: UpdateConnectionFromProto_def Let_def)

lemma cache_wf_connections: "cache_wf c \<Longrightarrow> cache_wf (fold (\<lambda>p. UpdateConnectionFromProto (Some p)) ps c)"
  by (induction ps arbitrary: c) (simp_all add: cache_wf_from_proto)

lemma cache_frame_workload:
  "hosts (snd (Server_ReportWorkload now q c)) = hosts c \<and> agents (snd (Server_ReportWorkload now q c)) = agents c \<and>
   policies (snd (Server_ReportWorkload now q c)) = policies c"
  by (auto simp: Server_ReportWorkload_def UpdateWorkloadFromProto_def DeleteWorkload_def Let_def split: option.splits)

lemma cache_wf_workload: "cache_wf c \<Longrightarrow> cache_wf (snd (Server_ReportWorkload now q c))"
  by (auto simp: Server_ReportWorkload_def cache_wf_from_proto cache_wf_DeleteWorkload split: option.splits)

lemma engine_wf_rules: "engine_wf e \<Longrightarrow> reorder (rules e) m \<Longrightarrow> engine_wf (e\<lparr>rules := m\<rparr>)"
  using engine_wf_maps[of e m "groupModes e"] by (cases e) (simp add: reorder_def)

interpretation ctl_sys: invariant_system "\<lambda>k. \<exists>p. k = controller_setup p" controller_step controller_inv
proof
  show "controller_inv k'" if inv: "controller_inv k" and "controller_step k k'" for k k'
    using that(2)
  proof (cases rule: controller_step.cases)
    case (k_register now reg)
    with inv gwf_server_ops(1)[of "ct_server k" now reg] show ?thesis
      by (simp add: controller_inv_def ctl_register_def case_prod_unfold Let_def)
  next
    case (k_heartbeat now1 now2 hb)
    with inv gwf_server_ops(2)[of "ct_server k" now1 now2 hb] show ?thesis
      by (simp add: controller_inv_def ctl_heartbeat_def case_prod_unfold Let_def)
  next
    case (k_connections conns)
    with inv show ?thesis
      by (simp add: controller_inv_def ctl_connections_def Server_ReportConnections_def cache_frame_connections
          cache_wf_connections)
  next
    case (k_workload now wl)
    with inv show ?thesis
      by (simp add: controller_inv_def ctl_workload_def case_prod_unfold Let_def cache_frame_workload cache_wf_workload)
  next
    case (k_rest now1 now2 req)
    with inv rest_frame_Router[of "(ct_cache k, ct_engine k)" now1 now2 req]
      keeps_wf_Router[of "(ct_cache k, ct_engine k)" now1 now2 req] show ?thesis
      by (simp add: controller_inv_def ctl_rest_def case_prod_unfold Let_def rest_frame_def keeps_wf_def)
  next
    case (k_check now)
    with inv gwf_server_ops(3)[of "ct_server k" now] show ?thesis
      by (simp add: controller_inv_def ctl_check_def)
  next
    case (k_maps m)
    with inv show ?thesis
      by (simp add: controller_inv_def engine_wf_rules)
  qed (use inv in \<open>simp_all add: ctl_threats_def ctl_policies_def\<close>)
qed (auto simp: controller_inv_setup)

section \<open>The contract of the agent's client\<close>

interpretation ctl: controller_service "ctl_register now" "ctl_heartbeat now1 now2" ctl_connections ctl_policies
  "\<lambda>k. dom (gget (sv_agents (ct_server k)))" "\<lambda>k s d. Attr (wlGraph (ct_cache k)) s ''graph'' d"
  "\<lambda>p. conn_attr (connection_from_proto p)" "\<lambda>k. map rule_to_proto (ListRules (ct_engine k))" for now now1 now2
proof
  show "\<exists>resp w'. ctl_heartbeat now1 now2 w h = (Inr resp, w') \<and>
      dom (gget (sv_agents (ct_server w'))) = dom (gget (sv_agents (ct_server w)))" for w h
    by (auto simp: ctl_heartbeat_def Server_Heartbeat_def Let_def split: option.split)
qed (simp_all add: ctl_register_def Server_Register_def ctl_connections_def Server_ReportConnections_def
    Attr_fold_connections ctl_policies_def Server_GetPolicies_def)


section \<open>Requests and decisions\<close>

definition get_request :: "string \<Rightarrow> Request" where
  "get_request path = \<lparr>rq_method = ''GET'', rq_path = path, rq_query = [], rq_group = None, rq_rule = None\<rparr>"

lemma rest_get:
  "fst (ctl_rest t1 t2 (get_request ''/api/v1/agents'') k) = writeSuccess cors (AgentsData (ListAgents (ct_cache k)))"
  "fst (ctl_rest t1 t2 (get_request ''/api/v1/hosts'') k) = writeSuccess cors (HostsData (ListHosts (ct_cache k)))"
proof -
  have c: "cleanPath ''/api/v1/agents'' = ''/api/v1/agents''" "cleanPath ''/api/v1/hosts'' = ''/api/v1/hosts''"
    by (simp_all add: cleanPath_def Split.simps HasPrefix_def)
  show "fst (ctl_rest t1 t2 (get_request ''/api/v1/agents'') k) = writeSuccess cors (AgentsData (ListAgents (ct_cache k)))"
    by (simp add: ctl_rest_def Let_def case_prod_unfold Router_ServeHTTP_def mux_ServeHTTP_def get_request_def c
        setupRoutes_def handleAgents_def Handler_ListAgents_def)
  show "fst (ctl_rest t1 t2 (get_request ''/api/v1/hosts'') k) = writeSuccess cors (HostsData (ListHosts (ct_cache k)))"
    by (simp add: ctl_rest_def Let_def case_prod_unfold Router_ServeHTTP_def mux_ServeHTTP_def get_request_def c
        setupRoutes_def handleHosts_def Handler_ListHosts_def)
qed

lemma MatchPolicy_no_modes:
  assumes "engine_wf e" and "groupModes e = []"
  shows "\<exists>i a. MatchPolicy e src dst port proto app = Some (i, a) \<and> (i = 0 \<longrightarrow> a = PolicyActionViolate)"
proof (cases "find (rule_matches src dst app) (ListRules e)")
  case None
  with assms show ?thesis
    by (simp add: MatchPolicy_find getDefaultAction_def GetGroupMode_def PolicyModeMonitor_def PolicyModeProtect_def)
next
  case (Some r)
  then have "r \<in> ran (gget (rules e))"
    using assms(1) by (auto simp: find_Some_iff ListRules_order_rules set_order_rules[symmetric])
  then have "pr_id r \<noteq> 0"
    using assms(1) by (auto simp: engine_wf_def ran_def)
  with Some assms(1) show ?thesis
    by (simp add: MatchPolicy_find)
qed

section \<open>Properties\<close>

text \<open>
  C32. What the running controller never fills in.  In every reachable state a policy decision is made
  without a panic, and a connection that no rule matches is a violation and never denied, because no
  entry point sets a group mode; the agent and the host list of the REST interface are empty, however
  many agents have registered.
\<close>

theorem controller_unfilled_stores:
  assumes "reach (\<lambda>k. \<exists>p. k = controller_setup p) controller_step k"
  shows "(\<exists>i a. MatchPolicy (ct_engine k) src dst port proto app = Some (i, a) \<and> (i = 0 \<longrightarrow> a = PolicyActionViolate)) \<and>
    fst (ctl_rest t1 t2 (get_request ''/api/v1/agents'') k) = writeSuccess cors (AgentsData []) \<and>
    fst (ctl_rest t1 t2 (get_request ''/api/v1/hosts'') k) = writeSuccess cors (HostsData [])"
proof -
  have "controller_inv k"
    by (rule ctl_sys.reach_inv[OF assms])
  then show ?thesis
    by (simp add: rest_get MatchPolicy_no_modes controller_inv_def ListAgents_def ListHosts_def)
qed

lemma reach_agent1: "reach (\<lambda>k. \<exists>p. k = controller_setup p) controller_step (snd (ctl_register 0 (controller_setup 18400) agent1))"
proof -
  have "reach (\<lambda>k. \<exists>p. k = controller_setup p) controller_step (controller_setup 18400)"
    by (rule reach_init) blast
  then show ?thesis
    by (rule reach_step) (rule k_register)
qed

theorem controller_unfilled_stores_witness:
  "GetAgentCount (ct_server (snd (ctl_register 0 (controller_setup 18400) agent1))) = 1 \<and>
   fst (ctl_rest 1 2 (get_request ''/api/v1/agents'') (snd (ctl_register 0 (controller_setup 18400) agent1))) =
     writeSuccess cors (AgentsData [])"
proof
  show "GetAgentCount (ct_server (snd (ctl_register 0 (controller_setup 18400) agent1))) = 1"
    by (simp add: GetAgentCount_def ctl_register_def Server_Register_def controller_setup_def NewServer_def
        SetOnAgentJoin_def SetOnAgentLeave_def)
qed (use controller_unfilled_stores[OF reach_agent1] in blast)

text \<open>
  C31. Registration and heartbeats.  A connected client that registers gets no error, and the controller
  then lists its agent as online since that moment; no later heartbeat removes it.  A client whose agent the
  controller does not know, as after a restart of the controller, changes nothing by its heartbeats,
  however many it sends.
\<close>

theorem agent_registration:
  assumes "cl_connected c" and "Client_Register (ctl_register now) k c = (err, k', c')"
  shows "err = None \<and>
    (\<exists>st. gget (sv_agents (ct_server k')) (cl_agentID c) = Some st \<and> st_online st \<and> st_last_seen st = now) \<and>
    cl_agentID c \<in> dom (gget (sv_agents (ct_server (heartbeatLoop (ctl_heartbeat t1 t2) evs k' c')))) \<and>
    (cl_agentID c \<notin> dom (gget (sv_agents (ct_server k))) \<longrightarrow> heartbeatLoop (ctl_heartbeat t1 t2) evs k c = k)"
proof -
  have reg: "err = None" "\<exists>st. gget (sv_agents (ct_server k')) (cl_agentID c) = Some st \<and> st_online st \<and> st_last_seen st = now"
    using assms by (auto simp: Client_Register_def ctl_register_def Server_Register_def)
  moreover from reg have "cl_agentID c \<in> dom (gget (sv_agents (ct_server (heartbeatLoop (ctl_heartbeat t1 t2) evs k' c'))))"
    unfolding ctl.heartbeats_known by blast
  moreover have "heartbeatLoop (ctl_heartbeat t1 t2) evs k c = k" if "cl_agentID c \<notin> dom (gget (sv_agents (ct_server k)))"
  proof -
    have "sendHeartbeat (ctl_heartbeat t1 t2) t k c = k" for t
      using that by (auto simp: sendHeartbeat_def ctl_heartbeat_def Server_Heartbeat_def split: option.splits)
    then show ?thesis
      by (induction evs rule: list.induct) (auto split: option.splits, metis heartbeatLoop.simps option.exhaust)
  qed
  ultimately show ?thesis
    by blast
qed

theorem agent_registration_witness:
  "heartbeatLoop (ctl_heartbeat 5 6) [Some 1, Some 2] (controller_setup 18400)
     ((NewClient ''localhost:18400'' ''a1'' ''h1'' ''node'' ''0.1.0'')\<lparr>cl_connected := True\<rparr>) = controller_setup 18400"
proof -
  let ?c = "(NewClient ''localhost:18400'' ''a1'' ''h1'' ''node'' ''0.1.0'')\<lparr>cl_connected := True\<rparr>"
  have "cl_connected ?c" "cl_agentID ?c \<notin> dom (gget (sv_agents (ct_server (controller_setup 18400))))"
    by (simp_all add: controller_setup_def NewServer_def SetOnAgentJoin_def SetOnAgentLeave_def)
  moreover obtain err k' c' where "Client_Register (ctl_register 0) (controller_setup 18400) ?c = (err, k', c')"
    by (rule prod_cases3)
  ultimately show ?thesis
    using agent_registration[of ?c 0 "controller_setup 18400" err k' c' 5 6 "[Some 1, Some 2]"] by blast
qed

end
