(* ===== verification/StateLogic.thy ===== *)
theory StateLogic
  imports Prelude "HOL-Library.State_Monad"
begin

text \<open>
  Reasoning about programs of the state monad: the triple \<open>valid P m Q\<close> says that \<open>m\<close>, started in a state
  with \<open>P\<close>, ends with a result and a state that satisfy \<open>Q\<close>.  The programs of the state monad always end.
  The rules are collected as \<open>triple\<close>; \<open>each\<close> is a loop that discards the results of its body.
\<close>

declare map_of_eq_Some_iff [simp del] Some_eq_map_of_iff [simp del]

named_theorems triple \<open>rules for triples\<close>

lemma run_state_update [simp]: "run_state (State_Monad.update f) s = ((), f s)"
  by (simp add: State_Monad.update_def)

lemma run_map_state [simp]: "run_state (map_state f m) s = (f (fst (run_state m s)), snd (run_state m s))"
  by (cases m) (simp add: prod_eq_iff map_prod_def case_prod_unfold)

primrec each :: "('a \<Rightarrow> ('s, 'b) state) \<Rightarrow> 'a list \<Rightarrow> ('s, unit) state" where
  "each f [] = State_Monad.return ()"
| "each f (x # xs) = do { f x; each f xs }"

definition valid :: "('s \<Rightarrow> bool) \<Rightarrow> ('s, 'a) state \<Rightarrow> ('a \<Rightarrow> 's \<Rightarrow> bool) \<Rightarrow> bool" where
  "valid P m Q \<longleftrightarrow> (\<forall>s. P s \<longrightarrow> Q (fst (run_state m s)) (snd (run_state m s)))"

lemma validI: "(\<And>s. P s \<Longrightarrow> Q (fst (run_state m s)) (snd (run_state m s))) \<Longrightarrow> valid P m Q"
  by (simp add: valid_def)

lemma validD: "valid P m Q \<Longrightarrow> P s \<Longrightarrow> Q (fst (run_state m s)) (snd (run_state m s))"
  by (simp add: valid_def)

lemma valid_conseq: "valid P' m Q' \<Longrightarrow> (\<And>s. P s \<Longrightarrow> P' s) \<Longrightarrow> (\<And>a s. Q' a s \<Longrightarrow> Q a s) \<Longrightarrow> valid P m Q"
  by (simp add: valid_def)

lemma valid_pre: "valid P' m Q \<Longrightarrow> (\<And>s. P s \<Longrightarrow> P' s) \<Longrightarrow> valid P m Q"
  by (simp add: valid_def)

lemma valid_post: "valid P m Q' \<Longrightarrow> (\<And>a s. Q' a s \<Longrightarrow> Q a s) \<Longrightarrow> valid P m Q"
  by (simp add: valid_def)

lemma valid_return [triple]: "(\<And>s. P s \<Longrightarrow> Q a s) \<Longrightarrow> valid P (State_Monad.return a) Q"
  by (simp add: valid_def)

lemma valid_update [triple]: "(\<And>s. P s \<Longrightarrow> Q () (f s)) \<Longrightarrow> valid P (State_Monad.update f) Q"
  by (simp add: valid_def)

lemma valid_bind: "valid P m R \<Longrightarrow> (\<And>a. valid (R a) (f a) Q) \<Longrightarrow> valid P (State_Monad.bind m f) Q"
  by (auto simp: valid_def split: prod.split)

lemma valid_get: "(\<And>s. P s \<Longrightarrow> valid (\<lambda>t. t = s) (f s) Q) \<Longrightarrow> valid P (State_Monad.bind State_Monad.get f) Q"
  by (simp add: valid_def)

lemma valid_case_sum [triple]:
  "(\<And>a. valid P (f a) Q) \<Longrightarrow> (\<And>b. valid P (g b) Q) \<Longrightarrow> valid P (case x of Inl a \<Rightarrow> f a | Inr b \<Rightarrow> g b) Q"
  by (cases x) auto

lemma valid_case_option [triple]:
  "valid P m Q \<Longrightarrow> (\<And>b. valid P (g b) Q) \<Longrightarrow> valid P (case x of None \<Rightarrow> m | Some b \<Rightarrow> g b) Q"
  by (cases x) auto

lemma valid_if [triple]: "(b \<Longrightarrow> valid P m Q) \<Longrightarrow> (\<not> b \<Longrightarrow> valid P n Q) \<Longrightarrow> valid P (if b then m else n) Q"
  by simp

lemma valid_fact: "(B \<Longrightarrow> valid P m Q) \<Longrightarrow> valid (\<lambda>s. B \<and> P s) m Q"
  by (auto simp: valid_def)

text \<open>A loop keeps what its body keeps; a loop over a list may consume one element of a resource per round.\<close>

lemma valid_each: "(\<And>x. x \<in> set xs \<Longrightarrow> valid I (f x) (\<lambda>_. I)) \<Longrightarrow> valid I (each f xs) (\<lambda>_. I)"
  by (induction xs) (auto intro: valid_return valid_bind)

lemma valid_each_list:
  assumes "\<And>x xs. valid (I (x # xs)) (f x) (\<lambda>_. I xs)"
  shows "valid (I xs) (each f xs) (\<lambda>_. I [])"
  by (induction xs) (auto intro: valid_return valid_bind assms)

text \<open>Programs that relate the state before and after by a reflexive and transitive relation.\<close>

lemma io_rel_return: "reflp R \<Longrightarrow> state_io_rel R (State_Monad.return a)"
  by (simp add: state_io_rel_def reflpD)

lemma io_rel_bind: "transp R \<Longrightarrow> state_io_rel R m \<Longrightarrow> (\<And>a. state_io_rel R (f a)) \<Longrightarrow> state_io_rel R (State_Monad.bind m f)"
  by (auto simp: state_io_rel_def split: prod.split dest: transpD) (metis snd_conv transpD)

lemma io_rel_each:
  assumes "reflp R" and "transp R" and "\<And>x. state_io_rel R (f x)"
  shows "state_io_rel R (each f xs)"
  by (induction xs) (simp_all add: io_rel_return io_rel_bind assms)

lemma valid_io_rel:
  assumes "state_io_rel R m" and "\<And>s t. R s t \<Longrightarrow> P s \<Longrightarrow> Q t"
  shows "valid P m (\<lambda>_. Q)"
  using assms by (auto simp: valid_def state_io_rel_def)

end
