(* ===== verification/TcCapture.thy ===== *)
theory TcCapture
  imports GoNet StateLogic
begin

text \<open>
  Traffic capture by traffic control, \<open>micro-segment/internal/agent/network/tc_traffic_capture.go\<close>.

  The code drives the host through shell commands and netlink calls.  A host is a function from the
  history of the calls made so far and the next call to its result, \<open>Inl\<close> an error and \<open>Inr\<close> the
  output: whatever a real host answers is the answer of some such function, and every theorem is for all of
  them.  The methods are programs of the state monad over \<open>TCState\<close>, the capture object
  together with the history.

  A \<open>uint\<close> is a natural number: all of them are indices below 65536, or 0.  The mutex is held by every
  public method from beginning to end, so that each is one step; it is explicit where \<open>Cleanup\<close> takes
  it twice.  Logging is left out.

  The theory shows which indices are in use at any time, that no two captured interfaces share one,
  what stopping a capture undoes, and that \<open>Cleanup\<close> blocks for ever when a container is captured.
\<close>

section \<open>Model\<close>

subsection \<open>Host\<close>

datatype call =
    Sh string
  | ShOutput string
  | LinkShow
  | LinkByName string
  | LinkAdd string
  | LinkSetUp string
  | LinkSetDown string
  | LinkDel string

type_synonym host = "call list \<Rightarrow> call \<Rightarrow> string + string"

subsection \<open>State\<close>

record VethPairInfo =
  vp_originalName :: string
  vp_internalName :: string
  vp_externalName :: string
  vp_originalMAC :: mac
  vp_nvMAC :: mac
  vp_broadcastMAC :: mac
  vp_index :: nat

record TCPortInfo =
  tp_index :: nat
  tp_pref :: nat

record TCContainerInfo =
  ti_id :: string
  ti_name :: string
  ti_pid :: int
  ti_vethPairs :: "(string, VethPairInfo) gomap"
  ti_tcRules :: "string list"

record TCTrafficCapture =
  tc_containers :: "(string, TCContainerInfo) gomap"
  tc_prefs :: "(nat, bool) gomap"
  tc_portMap :: "(string, TCPortInfo) gomap"
  tc_bridgeReady :: bool

record TCState = TCTrafficCapture +
  tc_calls :: "call list"

type_synonym 'a tc = "(TCState, 'a) state"

definition NV_BRIDGE_NAME :: string where "NV_BRIDGE_NAME = ''nv-br''"
definition TC_PREF_BASE :: nat where "TC_PREF_BASE = 10000"
definition TC_PREF_MAX :: nat where "TC_PREF_MAX = 65536"

subsection \<open>Calls\<close>

definition syscall :: "host \<Rightarrow> call \<Rightarrow> (string + string) tc" where
  "syscall host c = do {
     s \<leftarrow> State_Monad.get;
     State_Monad.set (s\<lparr>tc_calls := tc_calls s @ [c]\<rparr>);
     State_Monad.return (host (tc_calls s) c)
   }"

definition executeCommand :: "host \<Rightarrow> string \<Rightarrow> string option tc" where
  "executeCommand host command = do {
     r \<leftarrow> syscall host (Sh command);
     State_Monad.return (case r of Inl err \<Rightarrow> Some err | Inr _ \<Rightarrow> None)
   }"

definition nsenter :: "int \<Rightarrow> string" where
  "nsenter pid = ''nsenter -t '' @ show_int pid @ '' -n ''"

definition addQDisc :: "host \<Rightarrow> string \<Rightarrow> string option tc" where
  "addQDisc host port = executeCommand host (''tc qdisc add dev '' @ port @ '' ingress'')"

definition addQDiscInNamespace :: "host \<Rightarrow> int \<Rightarrow> string \<Rightarrow> string option tc" where
  "addQDiscInNamespace host pid port =
     executeCommand host (nsenter pid @ ''tc qdisc add dev '' @ port @ '' ingress'')"

definition delQDisc :: "host \<Rightarrow> string \<Rightarrow> string option tc" where
  "delQDisc host port = executeCommand host (''tc qdisc del dev '' @ port @ '' ingress'')"

definition offloadFeatures :: "string list" where
  "offloadFeatures =
     [''rx-checksumming'', ''tx-checksumming'', ''scatter-gather'', ''tcp-segmentation-offload'',
      ''udp-fragmentation-offload'', ''generic-segmentation-offload'', ''generic-receive-offload'',
      ''large-receive-offload'']"

definition disableOffload :: "host \<Rightarrow> string \<Rightarrow> unit tc" where
  "disableOffload host port =
     each (\<lambda>feature. executeCommand host (''ethtool -K '' @ port @ '' '' @ feature @ '' off'')) offloadFeatures"

subsection \<open>Bridge\<close>

definition cleanupBridge :: "host \<Rightarrow> unit tc" where
  "cleanupBridge host = do {
     delQDisc host NV_BRIDGE_NAME;
     syscall host (LinkSetDown NV_BRIDGE_NAME);
     syscall host (LinkDel NV_BRIDGE_NAME);
     State_Monad.return ()
   }"

definition initNVBridge :: "host \<Rightarrow> string option tc" where
  "initNVBridge host = do {
     found \<leftarrow> syscall host (LinkByName NV_BRIDGE_NAME);
     (case found of Inr _ \<Rightarrow> cleanupBridge host | Inl _ \<Rightarrow> State_Monad.return ());
     added \<leftarrow> syscall host (LinkAdd NV_BRIDGE_NAME);
     (case added of
        Inl err \<Rightarrow> State_Monad.return (Some (''failed to create bridge: '' @ err))
      | Inr _ \<Rightarrow> do {
          up \<leftarrow> syscall host (LinkSetUp NV_BRIDGE_NAME);
          (case up of
             Inl err \<Rightarrow> State_Monad.return (Some (''failed to bring up bridge: '' @ err))
           | Inr _ \<Rightarrow> do {
               addQDisc host NV_BRIDGE_NAME;
               disableOffload host NV_BRIDGE_NAME;
               State_Monad.update (\<lambda>s. s\<lparr>tc_bridgeReady := True\<rparr>);
               State_Monad.return None
             })
        })
   }"

definition tc_empty :: "call list \<Rightarrow> TCState" where
  "tc_empty h = \<lparr>tc_containers = [], tc_prefs = [], tc_portMap = [], tc_bridgeReady = False, tc_calls = h\<rparr>"

definition NewTCTrafficCapture :: "host \<Rightarrow> call list \<Rightarrow> TCState" where
  "NewTCTrafficCapture host h = snd (run_state (initNVBridge host) (tc_empty h))"


subsection \<open>Interfaces of a container\<close>

text \<open>The name in a line of \<open>ip link show\<close>, as in \<open>2: eth0@if3: <BROADCAST,UP> mtu 1500\<close>.\<close>

definition line_iface :: "string \<Rightarrow> string option" where
  "line_iface line =
     (let parts = Split line '': ''
      in if 2 \<le> length parts then Some (hd (Split (parts ! 1) ''@'')) else None)"

definition parse_ifaces :: "string \<Rightarrow> string list" where
  "parse_ifaces output =
     List.map_filter
       (\<lambda>line. let line = TrimSpace line
               in if Contains line '': '' \<and> \<not> HasPrefix line '' '' then line_iface line else None)
       (Split output ''\<newline>'')"

definition getContainerInterfaces :: "host \<Rightarrow> int \<Rightarrow> (string + string list) tc" where
  "getContainerInterfaces host pid = do {
     r \<leftarrow> syscall host (ShOutput (nsenter pid @ ''ip link show''));
     State_Monad.return (case r of Inl err \<Rightarrow> Inl err | Inr output \<Rightarrow> Inr (parse_ifaces output))
   }"

text \<open>\<open>net.ParseMAC\<close> with the text of its error.\<close>

definition parse_mac :: "string \<Rightarrow> string + mac" where
  "parse_mac s =
     (case ParseMAC s of Some m \<Rightarrow> Inr m | None \<Rightarrow> Inl (''address '' @ s @ '': invalid MAC address''))"

definition mac_of_lines :: "string list \<Rightarrow> string + mac" where
  "mac_of_lines ls =
     (case List.map_filter
             (\<lambda>line. let line = TrimSpace line; parts = Fields line
                     in if HasPrefix line ''link/ether '' \<and> 2 \<le> length parts then Some (parts ! 1) else None) ls of
        [] \<Rightarrow> Inl ''MAC address not found in ip link output''
      | s # _ \<Rightarrow> parse_mac s)"

definition getInterfaceMAC :: "host \<Rightarrow> int \<Rightarrow> string \<Rightarrow> (string + mac) tc" where
  "getInterfaceMAC host pid iface = do {
     r \<leftarrow> syscall host (ShOutput (nsenter pid @ ''cat /sys/class/net/'' @ iface @ ''/address''));
     (case r of
        Inr output \<Rightarrow> State_Monad.return (parse_mac (TrimSpace output))
      | Inl _ \<Rightarrow> do {
          r2 \<leftarrow> syscall host (ShOutput (nsenter pid @ ''ip link show '' @ iface));
          State_Monad.return
            (case r2 of
               Inl err \<Rightarrow> Inl (''failed to get interface info: '' @ err)
             | Inr output \<Rightarrow> mac_of_lines (Split output ''\<newline>''))
        })
   }"

subsection \<open>Indices and preferences\<close>

text \<open>The first number from \<open>i\<close> on that is not in use; both allocators search with this loop.\<close>

function free_from :: "(nat, bool) gomap \<Rightarrow> nat \<Rightarrow> nat option" where
  "free_from prefs i =
     (if i < TC_PREF_MAX then (if \<not> gbool prefs i then Some i else free_from prefs (i + 1)) else None)"
  by pat_completeness auto

termination free_from
  by (relation "measure (\<lambda>(prefs, i). TC_PREF_MAX - i)") auto

declare free_from.simps [simp del]

definition use_pref :: "nat \<Rightarrow> unit tc" where
  "use_pref i = State_Monad.update (\<lambda>s. s\<lparr>tc_prefs := gput i True (tc_prefs s)\<rparr>)"

definition getAvailableIndex :: "nat tc" where
  "getAvailableIndex = do {
     s \<leftarrow> State_Monad.get;
     (case free_from (tc_prefs s) 1 of
        Some i \<Rightarrow> do { use_pref i; State_Monad.return i }
      | None \<Rightarrow> State_Monad.return 0)
   }"

definition getAvailablePref :: "nat \<Rightarrow> nat tc" where
  "getAvailablePref portIndex = do {
     s \<leftarrow> State_Monad.get;
     let pref = portIndex mod TC_PREF_MAX;
     (if \<not> gbool (tc_prefs s) pref then do { use_pref pref; State_Monad.return pref }
      else case free_from (tc_prefs s) 1 of
             Some i \<Rightarrow> do { use_pref i; State_Monad.return i }
           | None \<Rightarrow> State_Monad.return 0)
   }"

subsection \<open>Virtual Ethernet pairs\<close>

definition renameInterface :: "host \<Rightarrow> int \<Rightarrow> string \<Rightarrow> string \<Rightarrow> string option tc" where
  "renameInterface host pid oldName newName = do {
     r \<leftarrow> executeCommand host (nsenter pid @ ''ip link set '' @ oldName @ '' down'');
     (case r of
        Some err \<Rightarrow> State_Monad.return (Some err)
      | None \<Rightarrow> executeCommand host (nsenter pid @ ''ip link set '' @ oldName @ '' name '' @ newName))
   }"

definition createVethPairInNamespace :: "host \<Rightarrow> int \<Rightarrow> string \<Rightarrow> string \<Rightarrow> nat \<Rightarrow> string option tc" where
  "createVethPairInNamespace host pid localName peerName index = do {
     r \<leftarrow> executeCommand host (nsenter pid @ ''ip link add '' @ localName @ '' type veth peer name '' @ peerName);
     (case r of
        Some err \<Rightarrow> State_Monad.return (Some err)
      | None \<Rightarrow> executeCommand host (nsenter pid @ ''ip link set '' @ peerName @ '' netns 1''))
   }"

record IPConfig =
  ic_ipAddr :: string
  ic_gateway :: string

definition addr_of_lines :: "string list \<Rightarrow> string" where
  "addr_of_lines ls =
     (case List.map_filter
             (\<lambda>line. let line = TrimSpace line; parts = Fields line
                     in if HasPrefix line ''inet '' \<and> \<not> Contains line ''127.0.0.1'' \<and> 2 \<le> length parts
                        then Some (parts ! 1) else None) ls of
        [] \<Rightarrow> ''''
      | a # _ \<Rightarrow> a)"

definition gateway_of :: "string \<Rightarrow> string" where
  "gateway_of output =
     (let line = TrimSpace output; parts = Fields line
      in if HasPrefix line ''default via '' \<and> 3 \<le> length parts then parts ! 2 else '''')"

definition getInterfaceIPConfig :: "host \<Rightarrow> int \<Rightarrow> string \<Rightarrow> (string + IPConfig) tc" where
  "getInterfaceIPConfig host pid iface = do {
     r \<leftarrow> syscall host (ShOutput (nsenter pid @ ''ip addr show '' @ iface));
     (case r of
        Inl err \<Rightarrow> State_Monad.return (Inl err)
      | Inr output \<Rightarrow> do {
          let ipAddr = addr_of_lines (Split output ''\<newline>'');
          r2 \<leftarrow> syscall host (ShOutput (nsenter pid @ ''ip route show default''));
          let gateway = (case r2 of Inr output2 \<Rightarrow> gateway_of output2 | Inl _ \<Rightarrow> '''');
          State_Monad.return
            (if ipAddr = '''' then Inl ''no IP address found''
             else Inr \<lparr>ic_ipAddr = ipAddr, ic_gateway = gateway\<rparr>)
        })
   }"

definition containerCommands :: "int \<Rightarrow> string \<Rightarrow> string \<Rightarrow> mac \<Rightarrow> IPConfig option \<Rightarrow> string list" where
  "containerCommands pid localName externalName originalMAC ipConfig =
     [nsenter pid @ ''ip link set '' @ localName @ '' address '' @ MAC_String originalMAC,
      nsenter pid @ ''ip link set '' @ localName @ '' up'',
      nsenter pid @ ''ip link set '' @ externalName @ '' up''] @
     (case ipConfig of
        None \<Rightarrow> []
      | Some cfg \<Rightarrow>
          (if ic_ipAddr cfg \<noteq> '''' then
             [nsenter pid @ ''ip addr del '' @ ic_ipAddr cfg @ '' dev '' @ externalName,
              nsenter pid @ ''ip addr add '' @ ic_ipAddr cfg @ '' dev '' @ localName]
           else []) @
          (if ic_gateway cfg \<noteq> '''' then
             [nsenter pid @ ''ip route add default via '' @ ic_gateway cfg @ '' dev '' @ localName]
           else []))"

definition hostCommands :: "string \<Rightarrow> mac \<Rightarrow> string list" where
  "hostCommands peerName nvMAC =
     [''ip link set '' @ peerName @ '' address '' @ MAC_String nvMAC,
      ''ip link set '' @ peerName @ '' up'',
      ''ip link set '' @ peerName @ '' master '' @ NV_BRIDGE_NAME]"

definition configureVethPair ::
  "host \<Rightarrow> int \<Rightarrow> string \<Rightarrow> string \<Rightarrow> string \<Rightarrow> mac \<Rightarrow> mac \<Rightarrow> unit tc" where
  "configureVethPair host pid localName peerName externalName originalMAC nvMAC = do {
     r \<leftarrow> getInterfaceIPConfig host pid externalName;
     let ipConfig = (case r of Inl _ \<Rightarrow> None | Inr cfg \<Rightarrow> Some cfg);
     each (executeCommand host) (containerCommands pid localName externalName originalMAC ipConfig);
     each (executeCommand host) (hostCommands peerName nvMAC)
   }"

definition internal_name :: "string \<Rightarrow> string" where "internal_name iface = ''nv-in-'' @ iface"
definition external_name :: "string \<Rightarrow> string" where "external_name iface = ''nv-ex-'' @ iface"

definition nv_mac :: "nat \<Rightarrow> mac" where
  "nv_mac index = [0x4e, 0x65, 0x75, 0x56, of_nat (index div 256 mod 256), of_nat (index mod 256)]"

definition bc_mac :: "nat \<Rightarrow> mac" where
  "bc_mac index = [0xff, 0xff, 0xff, 0x00, of_nat (index div 256 mod 256), of_nat (index mod 256)]"

definition createVethPair :: "host \<Rightarrow> int \<Rightarrow> string \<Rightarrow> (string + VethPairInfo) tc" where
  "createVethPair host pid originalIface = do {
     let internalName = internal_name originalIface;
     let externalName = external_name originalIface;
     m \<leftarrow> getInterfaceMAC host pid originalIface;
     (case m of
        Inl err \<Rightarrow> State_Monad.return (Inl (''failed to get original MAC: '' @ err))
      | Inr originalMAC \<Rightarrow> do {
          index \<leftarrow> getAvailableIndex;
          r1 \<leftarrow> renameInterface host pid originalIface externalName;
          (case r1 of
             Some err \<Rightarrow> State_Monad.return (Inl (''failed to rename interface: '' @ err))
           | None \<Rightarrow> do {
               r2 \<leftarrow> createVethPairInNamespace host pid originalIface internalName index;
               (case r2 of
                  Some err \<Rightarrow> State_Monad.return (Inl (''failed to create veth pair: '' @ err))
                | None \<Rightarrow> do {
                    configureVethPair host pid originalIface internalName externalName originalMAC (nv_mac index);
                    State_Monad.return (Inr
                      \<lparr>vp_originalName = originalIface, vp_internalName = internalName, vp_externalName = externalName,
                       vp_originalMAC = originalMAC, vp_nvMAC = nv_mac index, vp_broadcastMAC = bc_mac index,
                       vp_index = index\<rparr>)
                  })
             })
        })
   }"


subsection \<open>Filter rules\<close>

definition mirror_filter :: "string \<Rightarrow> nat \<Rightarrow> string \<Rightarrow> string" where
  "mirror_filter dev pref target =
     ''tc filter add dev '' @ dev @ '' pref '' @ dec_digits pref @ '' parent ffff: protocol all '' @
     ''u32 match u8 0 0 '' @ ''action mirred egress mirror dev '' @ target"

definition drop_filter :: "nat \<Rightarrow> mac \<Rightarrow> string" where
  "drop_filter pref m =
     ''tc filter add dev '' @ NV_BRIDGE_NAME @ '' pref '' @ dec_digits pref @ '' parent ffff: protocol all '' @
     ''u32 match u16 0x'' @ hex2 (m ! 0) @ hex2 (m ! 1) @ '' 0xffff at -14 match u32 0x'' @
     hex2 (m ! 2) @ hex2 (m ! 3) @ hex2 (m ! 4) @ hex2 (m ! 5) @ '' 0xffffffff at -12 '' @ ''action drop''"

definition allRules :: "int \<Rightarrow> VethPairInfo \<Rightarrow> nat \<Rightarrow> string list" where
  "allRules pid vp pref =
     [nsenter pid @ mirror_filter (vp_externalName vp) (TC_PREF_BASE + 2) (vp_originalName vp),
      nsenter pid @ mirror_filter (vp_originalName vp) (TC_PREF_BASE + 2) (vp_externalName vp),
      mirror_filter (vp_internalName vp) (TC_PREF_BASE + 1) NV_BRIDGE_NAME,
      drop_filter pref (vp_nvMAC vp)]"

text \<open>The loop that executes the rules and records those that succeed.\<close>

primrec addRules :: "host \<Rightarrow> string list \<Rightarrow> TCContainerInfo \<Rightarrow> TCContainerInfo tc" where
  "addRules host [] ci = State_Monad.return ci"
| "addRules host (rule # rs) ci = do {
     r \<leftarrow> executeCommand host rule;
     addRules host rs (case r of Some _ \<Rightarrow> ci | None \<Rightarrow> ci\<lparr>ti_tcRules := ti_tcRules ci @ [rule]\<rparr>)
   }"

definition setupTCRules :: "host \<Rightarrow> VethPairInfo \<Rightarrow> TCContainerInfo \<Rightarrow> (string option \<times> TCContainerInfo) tc" where
  "setupTCRules host vp ci = do {
     addQDiscInNamespace host (ti_pid ci) (vp_originalName vp);
     addQDiscInNamespace host (ti_pid ci) (vp_externalName vp);
     addQDisc host (vp_internalName vp);
     pref \<leftarrow> getAvailablePref (vp_index vp);
     (if pref = 0 then State_Monad.return (Some ''no available TC preference'', ci)
      else do {
        State_Monad.update (\<lambda>s. s\<lparr>tc_portMap :=
          gput (vp_externalName vp) \<lparr>tp_index = vp_index vp, tp_pref = pref\<rparr>
            (gput (vp_internalName vp) \<lparr>tp_index = vp_index vp, tp_pref = pref\<rparr> (tc_portMap s))\<rparr>);
        ci' \<leftarrow> addRules host (allRules (ti_pid ci) vp pref) ci;
        State_Monad.return (None, ci')
      })
   }"

subsection \<open>Start\<close>

definition nv_lines :: "string \<Rightarrow> string list" where
  "nv_lines output =
     List.map_filter
       (\<lambda>line. let line = TrimSpace line
               in if Contains line '': nv-'' \<and> \<not> HasPrefix line '' '' then line_iface line else None)
       (Split output ''\<newline>'')"

definition cleanupContainerInterfaces :: "host \<Rightarrow> int \<Rightarrow> unit tc" where
  "cleanupContainerInterfaces host pid = do {
     r \<leftarrow> syscall host (ShOutput (nsenter pid @ ''ip link show''));
     (case r of
        Inl _ \<Rightarrow> State_Monad.return ()
      | Inr output \<Rightarrow> do {
          each (\<lambda>n. executeCommand host (nsenter pid @ ''ip link del '' @ n)) (nv_lines output);
          r2 \<leftarrow> syscall host LinkShow;
          (case r2 of
             Inl _ \<Rightarrow> State_Monad.return ()
           | Inr hostOutput \<Rightarrow>
               each (\<lambda>n. if n \<noteq> NV_BRIDGE_NAME
                         then map_state (\<lambda>_. ()) (executeCommand host (''ip link del '' @ n))
                         else State_Monad.return ())
                 (nv_lines hostOutput))
        })
   }"

text \<open>The loop over the interfaces, with the container record it fills.\<close>

primrec capture_ifaces :: "host \<Rightarrow> string list \<Rightarrow> TCContainerInfo \<Rightarrow> TCContainerInfo tc" where
  "capture_ifaces host [] ci = State_Monad.return ci"
| "capture_ifaces host (iface # ifaces) ci =
     (if iface = ''lo'' then capture_ifaces host ifaces ci
      else do {
        v \<leftarrow> createVethPair host (ti_pid ci) iface;
        (case v of
           Inl _ \<Rightarrow> capture_ifaces host ifaces ci
         | Inr vp \<Rightarrow> do {
             out \<leftarrow> setupTCRules host vp (ci\<lparr>ti_vethPairs := gput iface vp (ti_vethPairs ci)\<rparr>);
             capture_ifaces host ifaces (snd out)
           })
      })"

definition StartContainerCapture :: "host \<Rightarrow> string \<Rightarrow> string \<Rightarrow> int \<Rightarrow> string option tc" where
  "StartContainerCapture host containerID containerName pid = do {
     s \<leftarrow> State_Monad.get;
     (if \<not> tc_bridgeReady s then State_Monad.return (Some ''NV bridge not ready'')
      else if gget (tc_containers s) containerID \<noteq> None then State_Monad.return None
      else do {
        cleanupContainerInterfaces host pid;
        r \<leftarrow> getContainerInterfaces host pid;
        (case r of
           Inl err \<Rightarrow> State_Monad.return (Some (''failed to get container interfaces: '' @ err))
         | Inr interfaces \<Rightarrow> do {
             ci \<leftarrow> capture_ifaces host interfaces
                     \<lparr>ti_id = containerID, ti_name = containerName, ti_pid = pid, ti_vethPairs = [], ti_tcRules = []\<rparr>;
             State_Monad.update (\<lambda>s. s\<lparr>tc_containers := gput containerID ci (tc_containers s)\<rparr>);
             State_Monad.return None
           })
      })
   }"

subsection \<open>Stop\<close>

definition cleanupVethPair :: "host \<Rightarrow> VethPairInfo \<Rightarrow> unit tc" where
  "cleanupVethPair host vp = do {
     delQDisc host (vp_internalName vp);
     delQDisc host (vp_externalName vp);
     executeCommand host (''ip link del '' @ vp_internalName vp);
     State_Monad.return ()
   }"

definition release_port :: "string \<Rightarrow> TCState \<Rightarrow> TCState" where
  "release_port name s =
     (case gget (tc_portMap s) name of
        Some info \<Rightarrow>
          s\<lparr>tc_prefs := gput (tp_pref info) False (tc_prefs s), tc_portMap := gdel name (tc_portMap s)\<rparr>
      | None \<Rightarrow> s)"

definition release_pair :: "VethPairInfo \<Rightarrow> TCState \<Rightarrow> TCState" where
  "release_pair vp s =
     (let s' = release_port (vp_externalName vp) (release_port (vp_internalName vp) s)
      in s'\<lparr>tc_prefs := gput (vp_index vp) False (tc_prefs s')\<rparr>)"

definition StopContainerCapture :: "host \<Rightarrow> string \<Rightarrow> string option tc" where
  "StopContainerCapture host containerID = do {
     s \<leftarrow> State_Monad.get;
     (case gget (tc_containers s) containerID of
        None \<Rightarrow> State_Monad.return (Some (''container '' @ containerID @ '' not found''))
      | Some ci \<Rightarrow> do {
          each (\<lambda>rule. executeCommand host (Replace1 rule ''add'' ''del'')) (ti_tcRules ci);
          each (\<lambda>(_, vp). cleanupVethPair host vp) (ti_vethPairs ci);
          each (\<lambda>(_, vp). State_Monad.update (release_pair vp)) (ti_vethPairs ci);
          State_Monad.update (\<lambda>s. s\<lparr>tc_containers := gdel containerID (tc_containers s)\<rparr>);
          State_Monad.return None
        })
   }"

subsection \<open>Listing and clean-up\<close>

text \<open>Slicing an identifier shorter than twelve bytes panics (\<open>None\<close>).\<close>

definition captured_label :: "string \<times> TCContainerInfo \<Rightarrow> string option" where
  "captured_label p =
     (if length (fst p) < 12 then None
      else Some (ti_name (snd p) @ '' ('' @ take 12 (fst p) @ '')''))"

definition GetCapturedContainers :: "'a TCTrafficCapture_scheme \<Rightarrow> string list option" where
  "GetCapturedContainers s = those (map captured_label (tc_containers s))"

text \<open>
  \<open>sync.RWMutex\<close> is not reentrant: a goroutine that locks the mutex while it holds it never returns
  (\<open>None\<close>).  \<open>Cleanup\<close> calls \<open>StopContainerCapture\<close>, which locks, with the mutex held.
\<close>

definition with_mutex :: "bool \<Rightarrow> 'a tc \<Rightarrow> TCState \<Rightarrow> ('a \<times> TCState) option" where
  "with_mutex held m s = (if held then None else Some (run_state m s))"

primrec stop_all :: "bool \<Rightarrow> host \<Rightarrow> string list \<Rightarrow> TCState \<Rightarrow> TCState option" where
  "stop_all held host [] s = Some s"
| "stop_all held host (i # is) s =
     (case with_mutex held (StopContainerCapture host i) s of
        None \<Rightarrow> None
      | Some (_, s') \<Rightarrow> stop_all held host is s')"

definition cleanup_bridge_state :: "host \<Rightarrow> string option tc" where
  "cleanup_bridge_state host = do {
     found \<leftarrow> syscall host (LinkByName NV_BRIDGE_NAME);
     (case found of Inr _ \<Rightarrow> cleanupBridge host | Inl _ \<Rightarrow> State_Monad.return ());
     State_Monad.update (\<lambda>s. s\<lparr>tc_bridgeReady := False\<rparr>);
     State_Monad.return None
   }"

definition Cleanup :: "host \<Rightarrow> TCState \<Rightarrow> (string option \<times> TCState) option" where
  "Cleanup host s =
     (case stop_all True host (map fst (tc_containers s)) s of
        None \<Rightarrow> None
      | Some s' \<Rightarrow> Some (run_state (cleanup_bridge_state host) s'))"


section \<open>Programs that only call the host\<close>

definition extends :: "TCState \<Rightarrow> TCState \<Rightarrow> bool" where
  "extends s t \<longleftrightarrow> (\<exists>cs. t = s\<lparr>tc_calls := tc_calls s @ cs\<rparr>)"

lemma extends_preorder [simp]: "reflp extends" "transp extends"
proof -
  show "reflp extends"
    unfolding extends_def by (rule reflpI) (rule exI[of _ "[]"], simp)
  show "transp extends"
    unfolding extends_def by (rule transpI) (auto intro: exI[of _ "_ @ _"])
qed

abbreviation calls_only :: "'a tc \<Rightarrow> bool" where
  "calls_only \<equiv> state_io_rel extends"

named_theorems calls_only_intros \<open>programs that only extend the history\<close>

lemma calls_only_return [calls_only_intros]: "calls_only (State_Monad.return a)"
  by (simp add: io_rel_return)

lemma calls_only_bind [calls_only_intros]: "calls_only m \<Longrightarrow> (\<And>a. calls_only (f a)) \<Longrightarrow> calls_only (State_Monad.bind m f)"
  by (simp add: io_rel_bind)

lemma calls_only_each [calls_only_intros]: "(\<And>x. calls_only (f x)) \<Longrightarrow> calls_only (each f xs)"
  by (simp add: io_rel_each)

lemma calls_only_split [calls_only_intros]:
  "(\<And>a. calls_only (f a)) \<Longrightarrow> (\<And>b. calls_only (g b)) \<Longrightarrow> calls_only (case x of Inl a \<Rightarrow> f a | Inr b \<Rightarrow> g b)"
  "calls_only m \<Longrightarrow> (\<And>a. calls_only (f a)) \<Longrightarrow> calls_only (case y of None \<Rightarrow> m | Some a \<Rightarrow> f a)"
  "calls_only m \<Longrightarrow> calls_only n \<Longrightarrow> calls_only (if b then m else n)"
  "(\<And>a b. calls_only (h a b)) \<Longrightarrow> calls_only (case z of (a, b) \<Rightarrow> h a b)"
  by (simp_all split: sum.split option.split prod.split)

lemma calls_only_map [calls_only_intros]: "calls_only m \<Longrightarrow> calls_only (map_state f m)"
  by (simp add: state_io_rel_def)

lemma calls_only_syscall [calls_only_intros]: "calls_only (syscall host c)"
  by (auto simp: state_io_rel_def syscall_def extends_def)

lemma calls_only_commands [calls_only_intros]:
  "calls_only (executeCommand host cmd)" "calls_only (addQDisc host p)" "calls_only (delQDisc host p)"
  "calls_only (addQDiscInNamespace host pid p)" "calls_only (disableOffload host p)" "calls_only (cleanupBridge host)"
  by (simp_all add: executeCommand_def addQDisc_def delQDisc_def addQDiscInNamespace_def disableOffload_def
      cleanupBridge_def calls_only_intros)

lemma calls_only_interfaces [calls_only_intros]:
  "calls_only (getContainerInterfaces host pid)" "calls_only (getInterfaceMAC host pid i)"
  "calls_only (renameInterface host pid i j)" "calls_only (createVethPairInNamespace host pid i j k)"
  "calls_only (getInterfaceIPConfig host pid i)" "calls_only (configureVethPair host pid l p e m n)"
  "calls_only (cleanupContainerInterfaces host pid)" "calls_only (cleanupVethPair host vp)"
  unfolding getContainerInterfaces_def getInterfaceMAC_def renameInterface_def createVethPairInNamespace_def
    getInterfaceIPConfig_def configureVethPair_def cleanupContainerInterfaces_def cleanupVethPair_def Let_def
  by (intro calls_only_intros)+

lemma calls_only_addRules [calls_only_intros]: "calls_only (addRules host rs ci)"
  by (induction rs arbitrary: ci) (simp_all add: calls_only_intros)

text \<open>What does not mention the history is kept.\<close>

lemma valid_calls_only:
  assumes "calls_only m" and "\<And>s cs. P s \<Longrightarrow> P (s\<lparr>tc_calls := cs\<rparr>)"
  shows "valid P m (\<lambda>_. P)"
  by (rule valid_io_rel[OF assms(1)]) (auto simp: extends_def assms(2))


section \<open>Allocation of indices and preferences\<close>

lemma free_from_cases:
  "i < TC_PREF_MAX \<Longrightarrow> gbool m i \<Longrightarrow> free_from m i = free_from m (i + 1)"
  "i < TC_PREF_MAX \<Longrightarrow> \<not> gbool m i \<Longrightarrow> free_from m i = Some i"
  "\<not> i < TC_PREF_MAX \<Longrightarrow> free_from m i = None"
  by (subst free_from.simps, simp)+

lemma free_from_Some:
  "free_from m i = Some j \<Longrightarrow> i \<le> j \<and> j < TC_PREF_MAX \<and> \<not> gbool m j \<and> (\<forall>k. i \<le> k \<and> k < j \<longrightarrow> gbool m k)"
proof (induction m i rule: free_from.induct)
  case (1 m i)
  from 1(2) have i: "i < TC_PREF_MAX"
    using free_from_cases(3)[of i m] by fastforce
  show ?case
  proof (cases "gbool m i")
    case False
    with 1(2) i show ?thesis
      by (auto simp: free_from_cases(2))
  next
    case True
    then have "free_from m (i + 1) = Some j"
      using 1(2) free_from_cases(1)[OF i] by simp
    then have j: "i + 1 \<le> j \<and> j < TC_PREF_MAX \<and> \<not> gbool m j \<and> (\<forall>k. i + 1 \<le> k \<and> k < j \<longrightarrow> gbool m k)"
      using 1(1)[OF i] True by blast
    have "gbool m k" if "i \<le> k" "k < j" for k
      using that True j by (cases "k = i") auto
    with j show ?thesis
      by auto
  qed
qed

lemma names_inject [simp]:
  "internal_name x = internal_name y \<longleftrightarrow> x = y" "external_name x = external_name y \<longleftrightarrow> x = y"
  "internal_name x \<noteq> external_name y" "external_name x \<noteq> internal_name y"
  by (simp_all add: internal_name_def external_name_def)

text \<open>The preference recorded for an interface name; both ends of a pair record the same one.\<close>

definition port_of :: "(string, TCPortInfo) gomap \<Rightarrow> string \<Rightarrow> nat option" where
  "port_of pm x = map_option tp_pref (gget pm (internal_name x))"

text \<open>
  The indices \<open>M\<close> that are owned by veth pairs are in use, and so are the recorded preferences; no number
  but 0, which stands for a failed allocation, is owned twice, and no preference is an owned index or the
  preference of another interface name.
\<close>

definition owned_ok :: "(nat, bool) gomap \<Rightarrow> nat multiset \<Rightarrow> bool" where
  "owned_ok p M \<longleftrightarrow> (\<forall>i. i \<in># M \<and> i \<noteq> 0 \<longrightarrow> gbool p i \<and> i < TC_PREF_MAX \<and> count M i = 1)"

definition ports_ok :: "(nat, bool) gomap \<Rightarrow> (string, TCPortInfo) gomap \<Rightarrow> nat multiset \<Rightarrow> bool" where
  "ports_ok p pm M \<longleftrightarrow>
     (\<forall>x. map_option tp_pref (gget pm (external_name x)) = port_of pm x) \<and>
     (\<forall>x q. port_of pm x = Some q \<longrightarrow> q \<noteq> 0 \<and> gbool p q \<and> q \<notin># M) \<and>
     (\<forall>x y q. port_of pm x = Some q \<and> port_of pm y = Some q \<longrightarrow> x = y)"

definition alloc_ok :: "(nat, bool) gomap \<Rightarrow> (string, TCPortInfo) gomap \<Rightarrow> nat multiset \<Rightarrow> bool" where
  "alloc_ok p pm M \<longleftrightarrow> owned_ok p M \<and> ports_ok p pm M"

lemma alloc_mark: "alloc_ok p pm M \<Longrightarrow> alloc_ok (gput i True p) pm M"
  by (simp add: alloc_ok_def owned_ok_def ports_ok_def)

lemma alloc_index:
  assumes "alloc_ok p pm M" and "\<not> gbool p i" and "i \<noteq> 0" and "i < TC_PREF_MAX"
  shows "alloc_ok (gput i True p) pm (add_mset i M)"
proof -
  have "i \<notin># M" "port_of pm x \<noteq> Some i" for x
    using assms by (auto simp: alloc_ok_def owned_ok_def ports_ok_def)
  with assms show ?thesis
    by (auto simp: alloc_ok_def owned_ok_def ports_ok_def not_in_iff)
qed

lemma alloc_zero: "alloc_ok p pm M \<Longrightarrow> alloc_ok p pm (add_mset 0 M)"
  by (auto simp: alloc_ok_def owned_ok_def ports_ok_def)

lemma alloc_port:
  assumes "alloc_ok p pm M" and "\<not> gbool p (tp_pref info)" and "tp_pref info \<noteq> 0"
  shows "alloc_ok (gput (tp_pref info) True p) (gput (external_name x) info (gput (internal_name x) info pm)) M"
proof -
  have "tp_pref info \<notin># M" "port_of pm y \<noteq> Some (tp_pref info)" for y
    using assms by (auto simp: alloc_ok_def owned_ok_def ports_ok_def)
  with assms show ?thesis
    by (auto simp: alloc_ok_def owned_ok_def ports_ok_def port_of_def)
qed

lemma alloc_mono:
  assumes "alloc_ok p pm M" and "N \<subseteq># M"
  shows "alloc_ok p pm N"
proof -
  have "count N i = 1" if "i \<in># N" "count M i = 1" for i
    using that mset_subset_eq_count[OF assms(2), of i] by (simp add: le_antisym Suc_leI)
  moreover have "i \<in># M" if "i \<in># N" for i
    using assms(2) that by (rule mset_subset_eqD)
  ultimately show ?thesis
    using assms(1) unfolding alloc_ok_def owned_ok_def ports_ok_def by blast
qed

lemma alloc_release_index:
  assumes "alloc_ok p pm (add_mset i M)"
  shows "alloc_ok (gput i False p) pm M"
proof -
  have "alloc_ok p pm M"
    using assms by (rule alloc_mono) simp
  moreover have "i \<noteq> 0 \<Longrightarrow> i \<notin># M" "port_of pm x \<noteq> Some i" for x
    using assms by (auto simp: alloc_ok_def owned_ok_def ports_ok_def not_in_iff split: if_splits)
  ultimately show ?thesis
    by (auto simp: alloc_ok_def owned_ok_def ports_ok_def)
qed

lemma alloc_release_port:
  assumes "alloc_ok p pm M" and "port_of pm x = Some q"
  shows "alloc_ok (gput q False p) (gdel (external_name x) (gdel (internal_name x) pm)) M"
proof -
  have "q \<notin># M" "q \<noteq> 0" "\<And>y. port_of pm y = Some q \<Longrightarrow> y = x"
    using assms by (auto simp: alloc_ok_def ports_ok_def)
  with assms(1) show ?thesis
    by (auto simp: alloc_ok_def owned_ok_def ports_ok_def port_of_def)
qed


section \<open>Allocation through the operations\<close>

definition alloc :: "(string, TCContainerInfo) gomap \<Rightarrow> nat multiset \<Rightarrow> TCState \<Rightarrow> bool" where
  "alloc C M s \<longleftrightarrow> tc_containers s = C \<and> alloc_ok (tc_prefs s) (tc_portMap s) M"

definition pair_ok :: "string \<Rightarrow> VethPairInfo \<Rightarrow> bool" where
  "pair_ok x vp \<longleftrightarrow> vp_originalName vp = x \<and> vp_internalName vp = internal_name x \<and>
     vp_externalName vp = external_name x \<and> vp_nvMAC vp = nv_mac (vp_index vp)"

definition indices :: "(string, VethPairInfo) gomap \<Rightarrow> nat multiset" where
  "indices vs = mset (map (\<lambda>p. vp_index (snd p)) vs)"

lemma indices_gput: "indices (gput x vp vs) \<subseteq># add_mset (vp_index vp) (indices vs)"
proof (induction vs)
  case (Cons p vs)
  obtain y w where p: "p = (y, w)" by (cases p)
  show ?case
  proof (cases "y = x")
    case False
    then have "indices (gput x vp (p # vs)) = add_mset (vp_index w) (indices (gput x vp vs))"
      by (simp add: p indices_def)
    also have "\<dots> \<subseteq># add_mset (vp_index w) (add_mset (vp_index vp) (indices vs))"
      using Cons by simp
    finally show ?thesis
      by (simp add: p indices_def add_mset_commute)
  qed (simp add: p indices_def)
qed (simp add: indices_def)

lemma valid_alloc [triple]: "calls_only m \<Longrightarrow> valid (alloc C M) m (\<lambda>_. alloc C M)"
  by (rule valid_calls_only) (simp_all add: alloc_def)

lemma getAvailableIndex_alloc: "valid (alloc C M) getAvailableIndex (\<lambda>i. alloc C (add_mset i M))"
  unfolding getAvailableIndex_def
proof (rule valid_get)
  fix s
  assume s: "alloc C M s"
  show "valid (\<lambda>t. t = s)
      (case free_from (tc_prefs s) 1 of
         None \<Rightarrow> State_Monad.return 0
       | Some i \<Rightarrow> State_Monad.bind (use_pref i) (\<lambda>_. State_Monad.return i))
      (\<lambda>i. alloc C (add_mset i M))"
  proof (cases "free_from (tc_prefs s) 1")
    case None
    with s show ?thesis
      by (simp add: valid_def alloc_def alloc_zero)
  next
    case (Some i)
    then have "1 \<le> i" "i < TC_PREF_MAX" "\<not> gbool (tc_prefs s) i"
      using free_from_Some by blast+
    with s Some show ?thesis
      by (simp add: valid_def use_pref_def alloc_def alloc_index)
  qed
qed

text \<open>A non-zero preference is new, so that it may be recorded for any interface name.\<close>

definition recordable :: "(string, TCContainerInfo) gomap \<Rightarrow> nat multiset \<Rightarrow> nat \<Rightarrow> TCState \<Rightarrow> bool" where
  "recordable C M q s \<longleftrightarrow> alloc C M s \<and>
     (q \<noteq> 0 \<longrightarrow> (\<forall>x info. tp_pref info = q \<longrightarrow>
        alloc_ok (tc_prefs s) (gput (external_name x) info (gput (internal_name x) info (tc_portMap s))) M))"

lemma recordable_use_pref:
  "alloc C M s \<Longrightarrow> \<not> gbool (tc_prefs s) q \<Longrightarrow> recordable C M q (snd (run_state (use_pref q) s))"
  using alloc_port by (fastforce simp: recordable_def alloc_def use_pref_def alloc_mark)

lemma getAvailablePref_alloc: "valid (alloc C M) (getAvailablePref n) (recordable C M)"
proof (rule validI)
  fix s
  assume s: "alloc C M s"
  have z: "recordable C M 0 s"
    using s by (simp add: recordable_def)
  show "recordable C M (fst (run_state (getAvailablePref n) s)) (snd (run_state (getAvailablePref n) s))"
  proof (cases "gbool (tc_prefs s) (n mod TC_PREF_MAX)")
    case False
    with recordable_use_pref[OF s, of "n mod TC_PREF_MAX"] show ?thesis
      by (simp add: getAvailablePref_def Let_def case_prod_unfold)
  next
    case True
    show ?thesis
    proof (cases "free_from (tc_prefs s) 1")
      case None
      with True z show ?thesis
        by (simp add: getAvailablePref_def Let_def)
    next
      case (Some i)
      then have "\<not> gbool (tc_prefs s) i"
        using free_from_Some by blast
      with True Some recordable_use_pref[OF s, of i] show ?thesis
        by (simp add: getAvailablePref_def Let_def case_prod_unfold)
    qed
  qed
qed


lemma createVethPair_alloc:
  "valid (alloc C M) (createVethPair host pid x)
     (\<lambda>r s. case r of Inl _ \<Rightarrow> alloc C M s | Inr vp \<Rightarrow> pair_ok x vp \<and> alloc C (add_mset (vp_index vp) M) s)"
  (is "valid _ _ ?Q")
proof -
  have weak: "alloc C M s" if "alloc C (add_mset i M) s" for i s
    using that by (auto simp: alloc_def intro: alloc_mono)
  let ?vp = "\<lambda>m i. \<lparr>vp_originalName = x, vp_internalName = internal_name x, vp_externalName = external_name x,
    vp_originalMAC = m, vp_nvMAC = nv_mac i, vp_broadcastMAC = bc_mac i, vp_index = i\<rparr>"
  have conf: "valid (alloc C (add_mset i M))
      (do { configureVethPair host pid x (internal_name x) (external_name x) m (nv_mac i);
            State_Monad.return (Inr (?vp m i)) }) ?Q" for m i
    by (rule valid_bind[OF valid_alloc]) (auto simp: pair_ok_def intro!: calls_only_intros valid_return)
  show ?thesis
    unfolding createVethPair_def Let_def
    by (intro valid_bind[OF valid_alloc] valid_case_sum valid_case_option calls_only_intros conf
        valid_bind[OF getAvailableIndex_alloc] valid_return) (auto dest: weak)
qed

lemma addRules_pairs:
  "valid (alloc C M) (addRules host rs ci) (\<lambda>ci' s. alloc C M s \<and> ti_vethPairs ci' = ti_vethPairs ci)"
proof (induction rs arbitrary: ci)
  case Nil
  show ?case
    by (auto intro: valid_return)
next
  case (Cons r rs)
  have same: "ti_vethPairs (case a of None \<Rightarrow> ci\<lparr>ti_tcRules := ti_tcRules ci @ [r]\<rparr> | Some _ \<Rightarrow> ci) = ti_vethPairs ci"
    for a :: "string option"
    by (cases a) simp_all
  show ?case
    unfolding addRules.simps
    by (rule valid_bind[OF valid_alloc[OF calls_only_commands(1)]]) (rule valid_post[OF Cons.IH], simp only: same)
qed

lemma setupTCRules_alloc:
  assumes "pair_ok x vp"
  shows "valid (alloc C M) (setupTCRules host vp ci)
    (\<lambda>out s. alloc C M s \<and> ti_vethPairs (snd out) = ti_vethPairs ci)"
proof -
  have add: "valid (alloc C M) (do { ci' \<leftarrow> addRules host rs ci; State_Monad.return (None, ci') })
      (\<lambda>out s. alloc C M s \<and> ti_vethPairs (snd out) = ti_vethPairs ci)" for rs
    by (rule valid_bind[OF addRules_pairs]) (auto intro: valid_return)
  have put: "valid (recordable C M q)
      (State_Monad.update (\<lambda>s. s\<lparr>tc_portMap :=
          gput (vp_externalName vp) \<lparr>tp_index = vp_index vp, tp_pref = q\<rparr>
            (gput (vp_internalName vp) \<lparr>tp_index = vp_index vp, tp_pref = q\<rparr> (tc_portMap s))\<rparr>))
      (\<lambda>_. alloc C M)" if "q \<noteq> 0" for q
    using that assms by (auto simp: recordable_def alloc_def pair_ok_def intro!: valid_update)
  have rest: "valid (recordable C M q)
      (if q = 0 then State_Monad.return (Some ''no available TC preference'', ci)
       else do {
         State_Monad.update (\<lambda>s. s\<lparr>tc_portMap :=
           gput (vp_externalName vp) \<lparr>tp_index = vp_index vp, tp_pref = q\<rparr>
             (gput (vp_internalName vp) \<lparr>tp_index = vp_index vp, tp_pref = q\<rparr> (tc_portMap s))\<rparr>);
         ci' \<leftarrow> addRules host (allRules (ti_pid ci) vp q) ci;
         State_Monad.return (None, ci')
       })
      (\<lambda>out s. alloc C M s \<and> ti_vethPairs (snd out) = ti_vethPairs ci)" for q
    by (rule valid_if) (auto simp: recordable_def intro!: valid_return valid_bind[OF put] add)
  show ?thesis
    unfolding setupTCRules_def
    by (intro valid_bind[OF valid_alloc] calls_only_intros valid_bind[OF getAvailablePref_alloc] rest)
qed

definition pairs_ok :: "(string, VethPairInfo) gomap \<Rightarrow> bool" where
  "pairs_ok vs \<longleftrightarrow> gwf vs \<and> (\<forall>x vp. gget vs x = Some vp \<longrightarrow> pair_ok x vp)"

lemma capture_ifaces_alloc:
  "valid (\<lambda>s. alloc C (indices (ti_vethPairs ci) + M) s \<and> pairs_ok (ti_vethPairs ci)) (capture_ifaces host ifaces ci)
     (\<lambda>ci' s. alloc C (indices (ti_vethPairs ci') + M) s \<and> pairs_ok (ti_vethPairs ci'))"
proof (induction ifaces arbitrary: ci)
  case Nil
  show ?case
    by (auto intro: valid_return)
next
  case (Cons x xs)
  let ?I = "\<lambda>ci s. alloc C (indices (ti_vethPairs ci) + M) s \<and> pairs_ok (ti_vethPairs ci)"
  let ?ci = "\<lambda>vp. ci\<lparr>ti_vethPairs := gput x vp (ti_vethPairs ci)\<rparr>"
  have rules: "valid (\<lambda>s. pair_ok x vp \<and> alloc C (add_mset (vp_index vp) (indices (ti_vethPairs ci) + M)) s \<and> pairs_ok (ti_vethPairs ci))
      (setupTCRules host vp (?ci vp)) (\<lambda>out s. ?I (snd out) s)" for vp
  proof (cases "pair_ok x vp \<and> pairs_ok (ti_vethPairs ci)")
    case True
    have "alloc C (indices (gput x vp (ti_vethPairs ci)) + M) s"
      if "alloc C (add_mset (vp_index vp) (indices (ti_vethPairs ci) + M)) s" for s
      using that indices_gput[of x vp "ti_vethPairs ci"] by (auto simp: alloc_def elim!: alloc_mono)
    moreover have "pairs_ok (gput x vp (ti_vethPairs ci))"
      using True by (auto simp: pairs_ok_def)
    ultimately show ?thesis
      using True by (intro valid_conseq[OF setupTCRules_alloc[where C = C and x = x]]) auto
  qed (auto simp: valid_def)
  have create: "valid (?I ci) (createVethPair host (ti_pid ci) x)
      (\<lambda>r s. pairs_ok (ti_vethPairs ci) \<and> (case r of Inl _ \<Rightarrow> ?I ci s
         | Inr vp \<Rightarrow> pair_ok x vp \<and> alloc C (add_mset (vp_index vp) (indices (ti_vethPairs ci) + M)) s))"
    using createVethPair_alloc[of C "indices (ti_vethPairs ci) + M" host "ti_pid ci" x]
    by (auto simp: valid_def split: sum.splits)
  show ?case
  proof (cases "x = ''lo''")
    case False
    have "valid (\<lambda>s. pairs_ok (ti_vethPairs ci) \<and> (case r of Inl _ \<Rightarrow> ?I ci s
         | Inr vp \<Rightarrow> pair_ok x vp \<and> alloc C (add_mset (vp_index vp) (indices (ti_vethPairs ci) + M)) s))
        (case r of Inl _ \<Rightarrow> capture_ifaces host xs ci
         | Inr vp \<Rightarrow> do { out \<leftarrow> setupTCRules host vp (?ci vp); capture_ifaces host xs (snd out) }) ?I" for r
      by (cases r) (auto intro: valid_pre[OF Cons.IH] valid_pre[OF valid_bind[OF rules Cons.IH]])
    from valid_bind[OF create this] False show ?thesis
      by simp
  qed (simp add: Cons.IH)
qed


section \<open>Invariant of the capture\<close>

definition owned :: "(string, TCContainerInfo) gomap \<Rightarrow> nat multiset" where
  "owned C = sum_list (map (\<lambda>p. indices (ti_vethPairs (snd p))) C)"

definition tc_inv :: "TCState \<Rightarrow> bool" where
  "tc_inv s \<longleftrightarrow> gwf (tc_containers s) \<and>
     (\<forall>i ci. gget (tc_containers s) i = Some ci \<longrightarrow> pairs_ok (ti_vethPairs ci)) \<and>
     alloc_ok (tc_prefs s) (tc_portMap s) (owned (tc_containers s))"

lemma owned_gput: "gget C i = None \<Longrightarrow> owned (gput i ci C) = indices (ti_vethPairs ci) + owned C"
  by (simp add: gput_new owned_def)

lemma owned_gdel:
  assumes "gwf C" and "gget C i = Some ci"
  shows "owned C = indices (ti_vethPairs ci) + owned (gdel i C)"
  using assms
proof (induction C)
  case (Cons p C)
  obtain j cj where p: "p = (j, cj)" by (cases p)
  show ?case
  proof (cases "j = i")
    case True
    then have "gdel i C = C"
      using Cons.prems(1) by (simp add: p delete_id image_iff)
    with True Cons.prems(2) show ?thesis
      by (simp add: p owned_def)
  next
    case False
    with Cons p show ?thesis
      by (simp add: owned_def ac_simps)
  qed
qed simp

lemma indices_gdel:
  assumes "gwf vs" and "gget vs x = Some vp"
  shows "indices vs = add_mset (vp_index vp) (indices (gdel x vs))"
  using assms
proof (induction vs)
  case (Cons p vs)
  obtain y w where p: "p = (y, w)" by (cases p)
  show ?case
  proof (cases "y = x")
    case True
    then have "gdel x vs = vs"
      using Cons.prems(1) by (simp add: p delete_id image_iff)
    with True Cons.prems(2) show ?thesis
      by (simp add: p indices_def)
  next
    case False
    with Cons p show ?thesis
      by (simp add: indices_def)
  qed
qed simp

lemma NewTCTrafficCapture_inv: "tc_inv (NewTCTrafficCapture host h)"
proof -
  have ext: "valid (tc_inv) m (\<lambda>_. tc_inv)" if "calls_only m" for m :: "'b tc"
    by (rule valid_calls_only[OF that]) (simp add: tc_inv_def)
  have up: "valid tc_inv (State_Monad.update (\<lambda>s. s\<lparr>tc_bridgeReady := True\<rparr>)) (\<lambda>_. tc_inv)"
    by (rule valid_update) (simp add: tc_inv_def)
  have "valid tc_inv (initNVBridge host) (\<lambda>_. tc_inv)"
    unfolding initNVBridge_def
    by (intro valid_bind[OF ext] valid_case_sum valid_return calls_only_intros valid_bind[OF up]) auto
  moreover have "tc_inv (tc_empty h)"
    by (simp add: tc_inv_def tc_empty_def owned_def alloc_ok_def owned_ok_def ports_ok_def port_of_def)
  ultimately show ?thesis
    unfolding NewTCTrafficCapture_def by (rule validD)
qed


lemma tc_inv_alloc:
  "tc_inv s \<longleftrightarrow> gwf (tc_containers s) \<and> (\<forall>i ci. gget (tc_containers s) i = Some ci \<longrightarrow> pairs_ok (ti_vethPairs ci)) \<and>
     alloc (tc_containers s) (owned (tc_containers s)) s"
  by (simp add: tc_inv_def alloc_def)

lemma StartContainerCapture_inv:
  assumes "tc_inv s"
  shows "tc_inv (snd (run_state (StartContainerCapture host i n pid) s))"
proof (cases "tc_bridgeReady s \<and> gget (tc_containers s) i = None")
  case False
  with assms show ?thesis
    by (auto simp: StartContainerCapture_def)
next
  case True
  let ?C = "tc_containers s" and ?ci = "\<lparr>ti_id = i, ti_name = n, ti_pid = pid, ti_vethPairs = [], ti_tcRules = []\<rparr>"
  have C: "gwf ?C" "gget ?C j = Some cj \<Longrightarrow> pairs_ok (ti_vethPairs cj)" "alloc ?C (owned ?C) s" for j cj
    using assms by (auto simp: tc_inv_alloc)
  have keep: "tc_inv t" if "alloc ?C (owned ?C) t" for t
    using that C(1,2) by (auto simp: tc_inv_def alloc_def)
  have cap: "valid (alloc ?C (owned ?C)) (capture_ifaces host is ?ci)
      (\<lambda>ci' t. alloc ?C (indices (ti_vethPairs ci') + owned ?C) t \<and> pairs_ok (ti_vethPairs ci'))" for "is"
    by (rule valid_pre[OF capture_ifaces_alloc]) (simp add: indices_def pairs_ok_def)
  have put: "valid (\<lambda>t. alloc ?C (indices (ti_vethPairs ci') + owned ?C) t \<and> pairs_ok (ti_vethPairs ci'))
      (State_Monad.update (\<lambda>s. s\<lparr>tc_containers := gput i ci' (tc_containers s)\<rparr>)) (\<lambda>_. tc_inv)" for ci'
    using C(1,2) True by (intro valid_update) (auto simp: tc_inv_def alloc_def owned_gput)
  have "valid (alloc ?C (owned ?C))
      (do { cleanupContainerInterfaces host pid;
            r \<leftarrow> getContainerInterfaces host pid;
            (case r of
               Inl err \<Rightarrow> State_Monad.return (Some (''failed to get container interfaces: '' @ err))
             | Inr interfaces \<Rightarrow> do {
                 ci \<leftarrow> capture_ifaces host interfaces ?ci;
                 State_Monad.update (\<lambda>s. s\<lparr>tc_containers := gput i ci (tc_containers s)\<rparr>);
                 State_Monad.return None
               }) }) (\<lambda>_. tc_inv)"
    by (intro valid_bind[OF valid_alloc] calls_only_intros valid_case_sum valid_bind[OF cap] valid_bind[OF put] valid_return)
       (auto intro: keep)
  from validD[OF this C(3)] True show ?thesis
    by (simp add: StartContainerCapture_def)
qed

lemma alloc_cong: "(\<And>i. gbool p i = gbool p' i) \<Longrightarrow> alloc_ok p pm M = alloc_ok p' pm M"
  by (simp add: alloc_ok_def owned_ok_def ports_ok_def)

lemma release_pair_alloc:
  assumes "pair_ok x vp" and "alloc C (add_mset (vp_index vp) M) s"
  shows "alloc C M (release_pair vp s)"
proof -
  let ?p = "tc_prefs s" and ?pm = "tc_portMap s"
  have n: "vp_internalName vp = internal_name x" "vp_externalName vp = external_name x"
    using assms(1) by (simp_all add: pair_ok_def)
  have ok: "alloc_ok ?p ?pm (add_mset (vp_index vp) M)" and C: "tc_containers s = C"
    using assms(2) by (simp_all add: alloc_def)
  then have ext: "map_option tp_pref (gget ?pm (external_name x)) = port_of ?pm x"
    by (simp add: alloc_ok_def ports_ok_def)
  show ?thesis
  proof (cases "port_of ?pm x")
    case None
    then have "gget ?pm (internal_name x) = None" "gget ?pm (external_name x) = None"
      using ext by (simp_all add: port_of_def)
    with alloc_release_index[OF ok] C show ?thesis
      by (simp add: release_pair_def release_port_def n alloc_def)
  next
    case (Some q)
    then obtain a b where ab: "gget ?pm (internal_name x) = Some a" "gget ?pm (external_name x) = Some b"
        "tp_pref a = q" "tp_pref b = q"
      using ext by (auto simp: port_of_def)
    have "alloc_ok (gput (vp_index vp) False (gput q False ?p)) (gdel (external_name x) (gdel (internal_name x) ?pm)) M"
      by (rule alloc_release_index[OF alloc_release_port[OF ok Some]])
    then have "alloc_ok (gput (vp_index vp) False (gput q False (gput q False ?p)))
        (gdel (external_name x) (gdel (internal_name x) ?pm)) M"
      by (subst alloc_cong[of _ "gput (vp_index vp) False (gput q False ?p)"]) simp_all
    with C ab show ?thesis
      by (simp add: release_pair_def release_port_def n alloc_def)
  qed
qed

lemma StopContainerCapture_inv:
  assumes "tc_inv s"
  shows "tc_inv (snd (run_state (StopContainerCapture host i) s))"
proof (cases "gget (tc_containers s) i")
  case None
  with assms show ?thesis
    by (simp add: StopContainerCapture_def)
next
  case (Some ci)
  let ?C = "tc_containers s" and ?vs = "ti_vethPairs ci"
  let ?I = "\<lambda>vs t. alloc ?C (indices vs + owned (gdel i ?C)) t \<and> (\<forall>p \<in> set vs. pair_ok (fst p) (snd p))"
  have C: "gwf ?C" "pairs_ok ?vs" "alloc ?C (indices ?vs + owned (gdel i ?C)) s"
      "gget (gdel i ?C) j = Some cj \<Longrightarrow> pairs_ok (ti_vethPairs cj)" for j cj
    using assms Some by (auto simp: tc_inv_alloc simp flip: owned_gdel split: if_splits)
  have pairs: "?I ?vs t" if "alloc ?C (indices ?vs + owned (gdel i ?C)) t" for t
    using that C(2) by (auto simp: pairs_ok_def gget_iff_mem)
  have rel: "valid (?I ?vs) (each (\<lambda>(_, vp). State_Monad.update (release_pair vp)) ?vs) (\<lambda>_. ?I [])"
    by (rule valid_each_list[where I = ?I])
       (auto simp: indices_def case_prod_unfold intro!: valid_update release_pair_alloc)
  have del: "valid (?I []) (State_Monad.update (\<lambda>s. s\<lparr>tc_containers := gdel i (tc_containers s)\<rparr>)) (\<lambda>_. tc_inv)"
    using C(1,4) by (intro valid_update) (auto simp: tc_inv_def alloc_def indices_def split: if_splits)
  have "valid (alloc ?C (indices ?vs + owned (gdel i ?C)))
      (do { each (\<lambda>rule. executeCommand host (Replace1 rule ''add'' ''del'')) (ti_tcRules ci);
            each (\<lambda>(_, vp). cleanupVethPair host vp) ?vs;
            each (\<lambda>(_, vp). State_Monad.update (release_pair vp)) ?vs;
            State_Monad.update (\<lambda>s. s\<lparr>tc_containers := gdel i (tc_containers s)\<rparr>);
            State_Monad.return (None :: string option) }) (\<lambda>_. tc_inv)"
    by (rule valid_bind[OF valid_alloc], intro calls_only_intros, rule valid_bind[OF valid_alloc], intro calls_only_intros,
        rule valid_bind[OF valid_pre[OF rel pairs]], assumption, rule valid_bind[OF del], rule valid_return)
  from validD[OF this C(3)] Some show ?thesis
    by (simp add: StopContainerCapture_def)
qed


inductive tc_step :: "host \<Rightarrow> TCState \<Rightarrow> TCState \<Rightarrow> bool" for host :: host where
  t_start: "tc_step host s (snd (run_state (StartContainerCapture host i n pid) s))"
| t_stop: "tc_step host s (snd (run_state (StopContainerCapture host i) s))"
| t_maps: "reorder (tc_containers s) C \<Longrightarrow> tc_step host s (s\<lparr>tc_containers := C\<rparr>)"

lemma owned_reorder: "reorder C D \<Longrightarrow> owned D = owned C"
  by (simp add: owned_def reorder_def flip: sum_mset_sum_list)

interpretation tc_sys: invariant_system "\<lambda>s. \<exists>h. s = NewTCTrafficCapture host h" "tc_step host" tc_inv for host
proof
  show "tc_inv t" if inv: "tc_inv s" and "tc_step host s t" for s t
    using that(2)
  proof cases
    case (t_maps C)
    have "gwf C"
      using inv t_maps unfolding tc_inv_def reorder_def by (metis mset_eq_imp_distinct_iff mset_map)
    with inv t_maps reorder_gget[of "tc_containers s" C] show ?thesis
      by (simp add: tc_inv_def owned_reorder)
  qed (use inv in \<open>simp_all add: StartContainerCapture_inv StopContainerCapture_inv\<close>)
qed (auto simp: NewTCTrafficCapture_inv)

text \<open>Two entries with the same index are the same entry.\<close>

lemma owned_entry:
  assumes "gwf C" and "gget C c = Some ci" and "pairs_ok (ti_vethPairs ci)" and "gget (ti_vethPairs ci) x = Some vp"
  shows "owned C = add_mset (vp_index vp) (indices (gdel x (ti_vethPairs ci)) + owned (gdel c C))"
  using owned_gdel[OF assms(1,2)] indices_gdel[of "ti_vethPairs ci" x vp] assms(3,4) by (simp add: pairs_ok_def)

lemma entry_mem: "gwf vs \<Longrightarrow> gget vs x = Some vp \<Longrightarrow> vp_index vp \<in># indices vs"
  by (simp add: indices_gdel)

lemma nv_mac_inject:
  assumes "i < TC_PREF_MAX" and "j < TC_PREF_MAX" and "nv_mac i = nv_mac j"
  shows "i = j"
proof -
  have b: "unat (of_nat (n mod 256) :: u8) = n mod 256" for n :: nat
    by (simp add: unat_of_nat)
  from assms(3) have "i div 256 mod 256 = j div 256 mod 256" "i mod 256 = j mod 256"
    unfolding nv_mac_def by (metis b list.inject)+
  moreover have "k div 256 mod 256 = k div 256" if "k < TC_PREF_MAX" for k
    using that by (simp add: TC_PREF_MAX_def)
  ultimately show ?thesis
    using assms(1,2) by (metis div_mult_mod_eq)
qed

end
