(* ===== verification/TcBehaviour.thy ===== *)
theory TcBehaviour
  imports TcCapture
begin

text \<open>
  What a capture does on a host on which every command succeeds, and what stopping one undoes.  The
  steps are described up to the history of calls (\<open>modc\<close>).
\<close>

section \<open>A host on which everything succeeds\<close>

text \<open>Equal up to the history.\<close>

definition modc :: "TCState \<Rightarrow> TCState \<Rightarrow> bool" where
  "modc s t \<longleftrightarrow> tc_containers t = tc_containers s \<and> tc_prefs t = tc_prefs s \<and> tc_portMap t = tc_portMap s \<and>
     tc_bridgeReady t = tc_bridgeReady s"

lemma valid_modc: "calls_only m \<Longrightarrow> valid (modc s) m (\<lambda>_. modc s)"
  by (rule valid_calls_only) (auto simp: modc_def)

lemma modc_refl [simp]: "modc s s"
  by (simp add: modc_def)

text \<open>
  Every command and netlink call succeeds, and every container has one interface \<open>x\<close> beside the
  loopback, with a valid hardware address.
\<close>

definition obedient :: "host \<Rightarrow> string \<Rightarrow> bool" where
  "obedient host x \<longleftrightarrow> x \<noteq> ''lo'' \<and>
     (\<forall>h cmd. \<exists>out. host h (Sh cmd) = Inr out) \<and>
     (\<forall>h. (\<exists>out. host h (LinkAdd NV_BRIDGE_NAME) = Inr out) \<and> (\<exists>out. host h (LinkSetUp NV_BRIDGE_NAME) = Inr out)) \<and>
     (\<forall>h pid. \<exists>out. host h (ShOutput (nsenter pid @ ''ip link show'')) = Inr out \<and>
        filter (\<lambda>y. y \<noteq> ''lo'') (parse_ifaces out) = [x]) \<and>
     (\<forall>h pid. \<exists>out m. host h (ShOutput (nsenter pid @ ''cat /sys/class/net/'' @ x @ ''/address'')) = Inr out \<and>
        parse_mac (TrimSpace out) = Inr m)"

lemma obedient_command:
  assumes "obedient host x"
  shows "valid (modc s) (executeCommand host cmd) (\<lambda>r t. r = None \<and> modc s t)"
proof (rule validI)
  fix t
  assume t: "modc s t"
  obtain out where "host (tc_calls t) (Sh cmd) = Inr out"
    using assms unfolding obedient_def by blast
  with t show "fst (run_state (executeCommand host cmd) t) = None \<and> modc s (snd (run_state (executeCommand host cmd) t))"
    by (simp add: executeCommand_def syscall_def modc_def)
qed


lemma obedient_interfaces:
  assumes "obedient host x"
  shows "valid (modc s) (getContainerInterfaces host pid)
    (\<lambda>r t. (\<exists>ys. r = Inr ys \<and> filter (\<lambda>y. y \<noteq> ''lo'') ys = [x]) \<and> modc s t)"
proof (rule validI)
  fix t
  assume t: "modc s t"
  obtain out where "host (tc_calls t) (ShOutput (nsenter pid @ ''ip link show'')) = Inr out"
      "filter (\<lambda>y. y \<noteq> ''lo'') (parse_ifaces out) = [x]"
    using assms unfolding obedient_def by blast
  with t show "(\<exists>ys. fst (run_state (getContainerInterfaces host pid) t) = Inr ys \<and> filter (\<lambda>y. y \<noteq> ''lo'') ys = [x]) \<and>
      modc s (snd (run_state (getContainerInterfaces host pid) t))"
    by (auto simp: getContainerInterfaces_def syscall_def modc_def)
qed

lemma obedient_mac:
  assumes "obedient host x"
  shows "valid (modc s) (getInterfaceMAC host pid x) (\<lambda>r t. (\<exists>m. r = Inr m) \<and> modc s t)"
proof (rule validI)
  fix t
  assume t: "modc s t"
  obtain out m where "host (tc_calls t) (ShOutput (nsenter pid @ ''cat /sys/class/net/'' @ x @ ''/address'')) = Inr out"
      "parse_mac (TrimSpace out) = Inr m"
    using assms unfolding obedient_def by blast
  with t show "(\<exists>m. fst (run_state (getInterfaceMAC host pid x) t) = Inr m) \<and>
      modc s (snd (run_state (getInterfaceMAC host pid x) t))"
    by (auto simp: getInterfaceMAC_def syscall_def modc_def)
qed

definition new_pair :: "string \<Rightarrow> mac \<Rightarrow> nat \<Rightarrow> VethPairInfo" where
  "new_pair x m i =
     \<lparr>vp_originalName = x, vp_internalName = internal_name x, vp_externalName = external_name x,
      vp_originalMAC = m, vp_nvMAC = nv_mac i, vp_broadcastMAC = bc_mac i, vp_index = i\<rparr>"

lemma getAvailableIndex_modc:
  assumes "free_from (tc_prefs s) 1 = Some i"
  shows "valid (modc s) getAvailableIndex (\<lambda>j t. j = i \<and> modc (s\<lparr>tc_prefs := gput i True (tc_prefs s)\<rparr>) t)"
  using assms by (auto simp: valid_def getAvailableIndex_def modc_def use_pref_def)

lemma getAvailablePref_modc:
  assumes "gbool (tc_prefs s) (i mod TC_PREF_MAX)" and "free_from (tc_prefs s) 1 = Some q"
  shows "valid (modc s) (getAvailablePref i) (\<lambda>j t. j = q \<and> modc (s\<lparr>tc_prefs := gput q True (tc_prefs s)\<rparr>) t)"
  using assms by (auto simp: valid_def getAvailablePref_def modc_def use_pref_def Let_def)

lemma obedient_pair_commands:
  assumes "obedient host x"
  shows "valid (modc s) (renameInterface host pid a b) (\<lambda>r t. r = None \<and> modc s t)"
    and "valid (modc s) (createVethPairInNamespace host pid a b k) (\<lambda>r t. r = None \<and> modc s t)"
proof -
  note cmd = obedient_command[OF assms]
  have next_cmd: "valid (\<lambda>t. r = None \<and> modc s t) (case r of None \<Rightarrow> executeCommand host c | Some e \<Rightarrow> State_Monad.return (Some e))
      (\<lambda>r t. r = None \<and> modc s t)" for r c
    by (rule valid_fact) (simp add: cmd)
  show "valid (modc s) (renameInterface host pid a b) (\<lambda>r t. r = None \<and> modc s t)"
    unfolding renameInterface_def by (rule valid_bind[OF cmd next_cmd])
  show "valid (modc s) (createVethPairInNamespace host pid a b k) (\<lambda>r t. r = None \<and> modc s t)"
    unfolding createVethPairInNamespace_def by (rule valid_bind[OF cmd next_cmd])
qed

lemma createVethPair_obedient:
  assumes "obedient host x" and "free_from (tc_prefs s) 1 = Some i"
  shows "valid (modc s) (createVethPair host pid x)
    (\<lambda>r t. (\<exists>m. r = Inr (new_pair x m i)) \<and> modc (s\<lparr>tc_prefs := gput i True (tc_prefs s)\<rparr>) t)"
    (is "valid _ _ ?Q")
proof -
  let ?s = "s\<lparr>tc_prefs := gput i True (tc_prefs s)\<rparr>"
  note cmds = obedient_pair_commands[OF assms(1), of ?s]
  have conf: "valid (\<lambda>t. r = None \<and> modc ?s t)
      (case r of None \<Rightarrow> do { configureVethPair host pid a b c m n; State_Monad.return (Inr (new_pair x m i)) }
       | Some err \<Rightarrow> State_Monad.return (Inl (''failed to create veth pair: '' @ err))) ?Q" for r a b c m n
    by (rule valid_fact) (auto intro!: valid_bind[OF valid_modc] calls_only_intros valid_return)
  have create: "valid (\<lambda>t. r = None \<and> modc ?s t)
      (case r of None \<Rightarrow> do {
           r2 \<leftarrow> createVethPairInNamespace host pid x (internal_name x) j;
           (case r2 of None \<Rightarrow> do { configureVethPair host pid a b c m n; State_Monad.return (Inr (new_pair x m i)) }
            | Some err \<Rightarrow> State_Monad.return (Inl (''failed to create veth pair: '' @ err))) }
       | Some err \<Rightarrow> State_Monad.return (Inl (''failed to rename interface: '' @ err))) ?Q" for r a b c m n j
    by (rule valid_fact, simp only: option.case) (rule valid_bind[OF cmds(2) conf])
  have index: "valid (\<lambda>t. j = i \<and> modc ?s t)
      (do { r1 \<leftarrow> renameInterface host pid x (external_name x);
            (case r1 of None \<Rightarrow> do {
               r2 \<leftarrow> createVethPairInNamespace host pid x (internal_name x) j;
               (case r2 of None \<Rightarrow> do {
                    configureVethPair host pid x (internal_name x) (external_name x) m (nv_mac j);
                    State_Monad.return (Inr \<lparr>vp_originalName = x, vp_internalName = internal_name x,
                      vp_externalName = external_name x, vp_originalMAC = m, vp_nvMAC = nv_mac j,
                      vp_broadcastMAC = bc_mac j, vp_index = j\<rparr>) }
                | Some err \<Rightarrow> State_Monad.return (Inl (''failed to create veth pair: '' @ err))) }
             | Some err \<Rightarrow> State_Monad.return (Inl (''failed to rename interface: '' @ err))) }) ?Q" for j m
    by (rule valid_fact, simp only: new_pair_def[symmetric]) (rule valid_bind[OF cmds(1) create])
  have mac: "valid (\<lambda>t. (\<exists>m. r = Inr m) \<and> modc s t)
      (case r of Inl err \<Rightarrow> State_Monad.return (Inl (''failed to get original MAC: '' @ err)) | Inr m \<Rightarrow> f m) ?Q"
    if "\<And>m. valid (modc s) (f m) ?Q" for r :: "string + mac" and f
    by (rule valid_fact) (use that in auto)
  show ?thesis
    unfolding createVethPair_def Let_def
    by (rule valid_bind[OF obedient_mac[OF assms(1)]], rule mac, rule valid_bind[OF getAvailableIndex_modc[OF assms(2)] index])
qed


lemma addRules_obedient:
  assumes "obedient host x"
  shows "valid (modc s) (addRules host rs ci) (\<lambda>ci' t. ci' = ci\<lparr>ti_tcRules := ti_tcRules ci @ rs\<rparr> \<and> modc s t)"
proof (induction rs arbitrary: ci)
  case Nil
  show ?case
    by (auto intro: valid_return)
next
  case (Cons r rs)
  have "valid (\<lambda>t. a = None \<and> modc s t)
      (addRules host rs (case a of None \<Rightarrow> ci\<lparr>ti_tcRules := ti_tcRules ci @ [r]\<rparr> | Some _ \<Rightarrow> ci))
      (\<lambda>ci' t. ci' = ci\<lparr>ti_tcRules := ti_tcRules ci @ r # rs\<rparr> \<and> modc s t)" for a :: "string option"
    by (rule valid_fact) (use Cons.IH[of "ci\<lparr>ti_tcRules := ti_tcRules ci @ [r]\<rparr>"] in simp)
  from valid_bind[OF obedient_command[OF assms] this] show ?case
    by simp
qed

definition port_entry :: "string \<Rightarrow> nat \<Rightarrow> nat \<Rightarrow> (string, TCPortInfo) gomap \<Rightarrow> (string, TCPortInfo) gomap" where
  "port_entry x i q pm =
     gput (external_name x) \<lparr>tp_index = i, tp_pref = q\<rparr> (gput (internal_name x) \<lparr>tp_index = i, tp_pref = q\<rparr> pm)"

lemma setupTCRules_obedient:
  assumes "obedient host x" and "gbool (tc_prefs s) (i mod TC_PREF_MAX)" and "free_from (tc_prefs s) 1 = Some q"
  shows "valid (modc s) (setupTCRules host (new_pair x m i) ci)
    (\<lambda>out t. out = (None, ci\<lparr>ti_tcRules := ti_tcRules ci @ allRules (ti_pid ci) (new_pair x m i) q\<rparr>) \<and>
       modc (s\<lparr>tc_prefs := gput q True (tc_prefs s), tc_portMap := port_entry x i q (tc_portMap s)\<rparr>) t)"
    (is "valid _ _ ?Q")
proof -
  let ?vp = "new_pair x m i" and ?p = "s\<lparr>tc_prefs := gput q True (tc_prefs s)\<rparr>"
  let ?s = "s\<lparr>tc_prefs := gput q True (tc_prefs s), tc_portMap := port_entry x i q (tc_portMap s)\<rparr>"
  have q: "q \<noteq> 0"
    using free_from_Some[OF assms(3)] by simp
  have put: "valid (modc ?p)
      (State_Monad.update (\<lambda>s. s\<lparr>tc_portMap :=
          gput (vp_externalName ?vp) \<lparr>tp_index = vp_index ?vp, tp_pref = q\<rparr>
            (gput (vp_internalName ?vp) \<lparr>tp_index = vp_index ?vp, tp_pref = q\<rparr> (tc_portMap s))\<rparr>)) (\<lambda>_. modc ?s)"
    by (rule valid_update) (simp add: modc_def port_entry_def new_pair_def)
  have rules: "valid (modc ?s) (do { ci' \<leftarrow> addRules host (allRules (ti_pid ci) ?vp q) ci; State_Monad.return (None, ci') }) ?Q"
    by (rule valid_bind[OF addRules_obedient[OF assms(1)]]) (rule valid_return, auto)
  have rest: "valid (\<lambda>t. j = q \<and> modc ?p t)
      (if j = 0 then State_Monad.return (Some ''no available TC preference'', ci)
       else do {
         State_Monad.update (\<lambda>s. s\<lparr>tc_portMap :=
           gput (vp_externalName ?vp) \<lparr>tp_index = vp_index ?vp, tp_pref = j\<rparr>
             (gput (vp_internalName ?vp) \<lparr>tp_index = vp_index ?vp, tp_pref = j\<rparr> (tc_portMap s))\<rparr>);
         ci' \<leftarrow> addRules host (allRules (ti_pid ci) ?vp j) ci;
         State_Monad.return (None, ci')
       }) ?Q" for j
    by (rule valid_fact) (simp only: q if_False, rule valid_bind[OF put rules])
  have pref: "valid (modc s) (getAvailablePref (vp_index ?vp)) (\<lambda>j t. j = q \<and> modc ?p t)"
    using getAvailablePref_modc[OF assms(2,3)] by (simp add: new_pair_def)
  show ?thesis
    unfolding setupTCRules_def
    by (intro valid_bind[OF valid_modc] calls_only_intros valid_bind[OF pref rest])
qed

lemma capture_ifaces_filter: "capture_ifaces host ys ci = capture_ifaces host (filter (\<lambda>y. y \<noteq> ''lo'') ys) ci"
  by (induction ys arbitrary: ci) (simp_all cong: sum.case_cong)

definition captured :: "string \<Rightarrow> string \<Rightarrow> int \<Rightarrow> string \<Rightarrow> mac \<Rightarrow> nat \<Rightarrow> nat \<Rightarrow> TCContainerInfo" where
  "captured c n pid x m i q =
     \<lparr>ti_id = c, ti_name = n, ti_pid = pid, ti_vethPairs = [(x, new_pair x m i)],
      ti_tcRules = allRules pid (new_pair x m i) q\<rparr>"

definition after_start :: "string \<Rightarrow> string \<Rightarrow> int \<Rightarrow> string \<Rightarrow> mac \<Rightarrow> nat \<Rightarrow> nat \<Rightarrow> TCState \<Rightarrow> TCState" where
  "after_start c n pid x m i q s =
     s\<lparr>tc_containers := gput c (captured c n pid x m i q) (tc_containers s),
       tc_prefs := gput q True (gput i True (tc_prefs s)), tc_portMap := port_entry x i q (tc_portMap s)\<rparr>"

lemma capture_obedient:
  assumes "obedient host x" and "free_from (tc_prefs s) 1 = Some i"
    and "free_from (gput i True (tc_prefs s)) 1 = Some q" and "filter (\<lambda>y. y \<noteq> ''lo'') ys = [x]"
  shows "valid (modc s)
    (capture_ifaces host ys \<lparr>ti_id = c, ti_name = n, ti_pid = pid, ti_vethPairs = [], ti_tcRules = []\<rparr>)
    (\<lambda>ci t. \<exists>m. ci = captured c n pid x m i q \<and>
       modc (s\<lparr>tc_prefs := gput q True (gput i True (tc_prefs s)), tc_portMap := port_entry x i q (tc_portMap s)\<rparr>) t)"
    (is "valid _ (capture_ifaces host ys ?ci) ?Q")
proof -
  let ?s = "s\<lparr>tc_prefs := gput i True (tc_prefs s)\<rparr>"
  have "i < TC_PREF_MAX"
    using free_from_Some[OF assms(2)] by simp
  then have rules: "valid (modc ?s) (setupTCRules host (new_pair x m i) (?ci\<lparr>ti_vethPairs := [(x, new_pair x m i)]\<rparr>))
      (\<lambda>out t. out = (None, captured c n pid x m i q) \<and>
         modc (s\<lparr>tc_prefs := gput q True (gput i True (tc_prefs s)), tc_portMap := port_entry x i q (tc_portMap s)\<rparr>) t)" for m
    using setupTCRules_obedient[OF assms(1), of ?s i q m "?ci\<lparr>ti_vethPairs := [(x, new_pair x m i)]\<rparr>"] assms(3)
    by (simp add: captured_def)
  have fin: "valid (modc ?s)
      (do { out \<leftarrow> setupTCRules host (new_pair x m i) (?ci\<lparr>ti_vethPairs := [(x, new_pair x m i)]\<rparr>);
            State_Monad.return (snd out) }) ?Q" for m
    by (rule valid_bind[OF rules]) (auto intro!: valid_return)
  have pair: "valid (\<lambda>t. (\<exists>m. r = Inr (new_pair x m i)) \<and> modc ?s t)
      (case r of Inl _ \<Rightarrow> State_Monad.return ?ci
       | Inr vp \<Rightarrow> do { out \<leftarrow> setupTCRules host vp
                                 \<lparr>ti_id = c, ti_name = n, ti_pid = pid, ti_vethPairs = [(x, vp)], ti_tcRules = []\<rparr>;
                        State_Monad.return (snd out) }) ?Q" for r :: "string + VethPairInfo"
    by (rule valid_fact) (use fin in auto)
  have "x \<noteq> ''lo''"
    using assms(1) by (simp add: obedient_def)
  with valid_bind[OF createVethPair_obedient[OF assms(1,2), of pid] pair] show ?thesis
    by (subst capture_ifaces_filter) (simp add: assms(4))
qed

lemma StartContainerCapture_obedient:
  assumes "obedient host x" and "free_from (tc_prefs s) 1 = Some i"
    and "free_from (gput i True (tc_prefs s)) 1 = Some q" and "tc_bridgeReady s" and "gget (tc_containers s) c = None"
  shows "\<exists>m t. run_state (StartContainerCapture host c n pid) s = (None, t) \<and> modc (after_start c n pid x m i q s) t"
proof -
  let ?ci = "\<lparr>ti_id = c, ti_name = n, ti_pid = pid, ti_vethPairs = [], ti_tcRules = []\<rparr>"
  let ?Q = "\<lambda>r t. r = None \<and> (\<exists>m. modc (after_start c n pid x m i q s) t)"
  have put: "valid (\<lambda>t. \<exists>m. ci = captured c n pid x m i q \<and>
       modc (s\<lparr>tc_prefs := gput q True (gput i True (tc_prefs s)), tc_portMap := port_entry x i q (tc_portMap s)\<rparr>) t)
      (State_Monad.update (\<lambda>s. s\<lparr>tc_containers := gput c ci (tc_containers s)\<rparr>))
      (\<lambda>_ t. \<exists>m. modc (after_start c n pid x m i q s) t)" for ci
    by (rule valid_update) (auto simp: modc_def after_start_def)
  have "valid (\<lambda>t. (\<exists>ys. r = Inr ys \<and> filter (\<lambda>y. y \<noteq> ''lo'') ys = [x]) \<and> modc s t)
      (case r of
         Inl err \<Rightarrow> State_Monad.return (Some (''failed to get container interfaces: '' @ err))
       | Inr ys \<Rightarrow> do {
           ci \<leftarrow> capture_ifaces host ys ?ci;
           State_Monad.update (\<lambda>s. s\<lparr>tc_containers := gput c ci (tc_containers s)\<rparr>);
           State_Monad.return None }) ?Q" for r :: "string + string list"
    by (rule valid_fact)
       (auto intro!: valid_bind[OF capture_obedient[OF assms(1-3)]] valid_bind[OF put] valid_return)
  then have "valid (modc s) (do { cleanupContainerInterfaces host pid; r \<leftarrow> getContainerInterfaces host pid;
      (case r of
         Inl err \<Rightarrow> State_Monad.return (Some (''failed to get container interfaces: '' @ err))
       | Inr ys \<Rightarrow> do {
           ci \<leftarrow> capture_ifaces host ys ?ci;
           State_Monad.update (\<lambda>s. s\<lparr>tc_containers := gput c ci (tc_containers s)\<rparr>);
           State_Monad.return None }) }) ?Q"
    by (intro valid_bind[OF valid_modc] calls_only_intros valid_bind[OF obedient_interfaces[OF assms(1)]])
  from validD[OF this modc_refl] assms(4,5)
  have "?Q (fst (run_state (StartContainerCapture host c n pid) s)) (snd (run_state (StartContainerCapture host c n pid) s))"
    by (simp add: StartContainerCapture_def)
  then obtain m where "fst (run_state (StartContainerCapture host c n pid) s) = None"
      "modc (after_start c n pid x m i q s) (snd (run_state (StartContainerCapture host c n pid) s))"
    by (elim conjE exE)
  then show ?thesis
    by (intro exI[of _ m] exI[of _ "snd (run_state (StartContainerCapture host c n pid) s)"]) (simp add: prod_eq_iff)
qed


section \<open>Stopping a capture\<close>

lemma run_each_command:
  "run_state (each (\<lambda>x. executeCommand host (f x)) xs) s = ((), s\<lparr>tc_calls := tc_calls s @ map (\<lambda>x. Sh (f x)) xs\<rparr>)"
  by (induction xs arbitrary: s) (simp_all add: executeCommand_def syscall_def)

definition unplug :: "VethPairInfo \<Rightarrow> call list" where
  "unplug vp =
     [Sh (''tc qdisc del dev '' @ vp_internalName vp @ '' ingress''),
      Sh (''tc qdisc del dev '' @ vp_externalName vp @ '' ingress''), Sh (''ip link del '' @ vp_internalName vp)]"

lemma run_each_cleanup:
  "run_state (each (\<lambda>(_, vp). cleanupVethPair host vp) vs) s =
     ((), s\<lparr>tc_calls := tc_calls s @ concat (map (\<lambda>p. unplug (snd p)) vs)\<rparr>)"
  by (induction vs arbitrary: s)
     (simp_all add: case_prod_unfold cleanupVethPair_def delQDisc_def executeCommand_def syscall_def unplug_def)

lemma run_each_release:
  "run_state (each (\<lambda>(_, vp). State_Monad.update (release_pair vp)) vs) s = ((), fold (\<lambda>p. release_pair (snd p)) vs s)"
  by (induction vs arbitrary: s) (simp_all add: case_prod_unfold)

lemma release_frame [simp]:
  "tc_calls (release_pair vp s) = tc_calls s" "tc_containers (release_pair vp s) = tc_containers s"
  "tc_bridgeReady (release_pair vp s) = tc_bridgeReady s"
  by (simp_all add: release_pair_def release_port_def Let_def split: option.split)

lemma fold_release_frame [simp]:
  "tc_calls (fold (\<lambda>p. release_pair (snd p)) vs s) = tc_calls s"
  "tc_containers (fold (\<lambda>p. release_pair (snd p)) vs s) = tc_containers s"
  "tc_bridgeReady (fold (\<lambda>p. release_pair (snd p)) vs s) = tc_bridgeReady s"
  by (induction vs arbitrary: s) simp_all

lemma run_Stop:
  assumes "gget (tc_containers s) c = Some ci"
  shows "run_state (StopContainerCapture host c) s =
    (None, (fold (\<lambda>p. release_pair (snd p)) (ti_vethPairs ci)
       (s\<lparr>tc_calls := tc_calls s @ map (\<lambda>r. Sh (Replace1 r ''add'' ''del'')) (ti_tcRules ci) @
            concat (map (\<lambda>p. unplug (snd p)) (ti_vethPairs ci))\<rparr>))
       \<lparr>tc_containers := gdel c (tc_containers s)\<rparr>)"
  using assms by (simp add: StopContainerCapture_def run_each_command run_each_cleanup run_each_release)

lemma set_show_int: "c \<in> set (show_int i) \<Longrightarrow> is_digit c \<or> c = CHR ''-''"
  by (auto simp: show_int_def dec_digits_digits split: if_splits)

lemma Replace1_add:
  assumes "CHR ''a'' \<notin> set pre"
  shows "Replace1 (pre @ ''add'' @ rest) ''add'' ''del'' = pre @ ''del'' @ rest"
proof -
  have "Index (pre @ ''add'' @ rest) ''add'' = Some (length pre)"
    using Index_skip[OF refl assms, of "''add'' @ rest" "''dd''"] Index_prefix[of "''add''" rest] by simp
  then show ?thesis
    by (simp add: Replace1_def)
qed

lemma nsenter_no_a: "CHR ''a'' \<notin> set (nsenter pid)"
  using set_show_int[of "CHR ''a''" pid] by (auto simp: nsenter_def is_digit_def)

lemma undo_filter:
  assumes "pre = '''' \<or> pre = nsenter pid"
  shows "Replace1 (pre @ ''tc filter add'' @ rest) ''add'' ''del'' = pre @ ''tc filter del'' @ rest"
proof -
  have "CHR ''a'' \<notin> set (pre @ ''tc filter '')"
    using assms nsenter_no_a[of pid] by auto
  from Replace1_add[OF this, of rest] show ?thesis
    by simp
qed

lemma rule_shape:
  assumes "r \<in> set (allRules pid vp q)"
  shows "\<exists>pre rest. (pre = '''' \<or> pre = nsenter pid) \<and> r = pre @ ''tc filter add'' @ rest"
proof -
  have m: "\<exists>rest. mirror_filter d p t = ''tc filter add'' @ rest" for d p t
    by (simp add: mirror_filter_def)
  have d: "\<exists>rest. drop_filter p n = ''tc filter add'' @ rest" for p n
    by (simp add: drop_filter_def)
  from assms m d show ?thesis
    unfolding allRules_def by (auto simp del: append_Cons)
qed


section \<open>What a capture does not change\<close>

text \<open>
  A predicate that survives further calls and any change to the numbers in use survives the loop over the
  interfaces of a container.
\<close>

definition lasting :: "(TCState \<Rightarrow> bool) \<Rightarrow> bool" where
  "lasting P \<longleftrightarrow> (\<forall>s. P s \<longrightarrow> (\<forall>cs. P (s\<lparr>tc_calls := tc_calls s @ cs\<rparr>)) \<and> (\<forall>p. P (s\<lparr>tc_prefs := p\<rparr>)) \<and>
     (\<forall>pm. P (s\<lparr>tc_portMap := pm\<rparr>)))"

lemma lasting_calls: "lasting P \<Longrightarrow> calls_only m \<Longrightarrow> valid P m (\<lambda>_. P)"
  by (erule valid_io_rel) (auto simp: extends_def lasting_def)

lemma lasting_numbers:
  assumes "lasting P"
  shows "valid P getAvailableIndex (\<lambda>_. P)" "valid P (getAvailablePref i) (\<lambda>_. P)"
    "valid P (State_Monad.update (\<lambda>s. s\<lparr>tc_portMap := f s\<rparr>)) (\<lambda>_. P)"
  using assms
  by (auto simp: valid_def getAvailableIndex_def getAvailablePref_def use_pref_def lasting_def Let_def split: option.split)

lemma lasting_capture:
  assumes "lasting P"
  shows "valid P (createVethPair host pid x) (\<lambda>_. P)" "valid P (setupTCRules host vp ci) (\<lambda>_. P)"
    "valid P (capture_ifaces host xs ci) (\<lambda>_. P)"
proof -
  note calls = lasting_calls[OF assms] and numbers = lasting_numbers[OF assms]
  show pair: "valid P (createVethPair host pid x) (\<lambda>_. P)" for pid x
    unfolding createVethPair_def Let_def
    by (intro valid_bind[OF calls] valid_bind[OF numbers(1)] valid_case_sum valid_case_option calls_only_intros valid_return)
  show rules: "valid P (setupTCRules host vp ci) (\<lambda>_. P)" for vp ci
    unfolding setupTCRules_def
    by (intro valid_bind[OF calls] valid_bind[OF numbers(2)] valid_bind[OF numbers(3)] valid_if calls_only_intros valid_return)
  show "valid P (capture_ifaces host xs ci) (\<lambda>_. P)"
  proof (induction xs arbitrary: ci)
    case (Cons x xs)
    show ?case
      unfolding capture_ifaces.simps
      by (intro valid_if Cons.IH valid_bind[OF pair] valid_case_sum valid_bind[OF rules])
  qed (simp add: valid_return)
qed

definition logged :: "call \<Rightarrow> TCState \<Rightarrow> bool" where
  "logged c s \<longleftrightarrow> c \<in> set (tc_calls s)"

definition framed :: "(string, TCContainerInfo) gomap \<Rightarrow> bool \<Rightarrow> TCState \<Rightarrow> bool" where
  "framed C b s \<longleftrightarrow> tc_containers s = C \<and> tc_bridgeReady s = b"

lemma lasting_logged: "lasting (logged c)"
  by (simp add: lasting_def logged_def)

lemma lasting_framed: "lasting (framed C b)"
  by (simp add: lasting_def framed_def)

text \<open>
  Whatever the host answers, a start can add an entry for its own container and nothing else; it does when the bridge is ready
  and the interfaces of the container can be listed.
\<close>

definition lists_interfaces :: "host \<Rightarrow> bool" where
  "lists_interfaces host \<longleftrightarrow> (\<forall>h pid. \<exists>out. host h (ShOutput (nsenter pid @ ''ip link show'')) = Inr out)"

lemma getContainerInterfaces_listed:
  assumes "lists_interfaces host" and "lasting P"
  shows "valid P (getContainerInterfaces host pid) (\<lambda>r t. (\<exists>ys. r = Inr ys) \<and> P t)"
proof (rule validI)
  fix t
  assume t: "P t"
  obtain out where "host (tc_calls t) (ShOutput (nsenter pid @ ''ip link show'')) = Inr out"
    using assms(1) unfolding lists_interfaces_def by blast
  with t assms(2) show "(\<exists>ys. fst (run_state (getContainerInterfaces host pid) t) = Inr ys) \<and>
      P (snd (run_state (getContainerInterfaces host pid) t))"
    by (auto simp: getContainerInterfaces_def syscall_def lasting_def)
qed

lemma Start_frame:
  fixes s :: TCState and host c n pid
  defines "t \<equiv> snd (run_state (StartContainerCapture host c n pid) s)"
  shows "tc_bridgeReady t = tc_bridgeReady s"
    and "d \<noteq> c \<Longrightarrow> gget (tc_containers t) d = gget (tc_containers s) d"
    and "gget (tc_containers s) c \<noteq> None \<or> \<not> tc_bridgeReady s \<Longrightarrow> t = s"
    and "lists_interfaces host \<Longrightarrow> tc_bridgeReady s \<Longrightarrow> gget (tc_containers t) c \<noteq> None"
proof -
  let ?C = "tc_containers s" and ?b = "tc_bridgeReady s"
  let ?capture = "\<lambda>ys. do {
      ci \<leftarrow> capture_ifaces host ys \<lparr>ti_id = c, ti_name = n, ti_pid = pid, ti_vethPairs = [], ti_tcRules = []\<rparr>;
      State_Monad.update (\<lambda>s. s\<lparr>tc_containers := gput c ci (tc_containers s)\<rparr>);
      State_Monad.return None }"
  let ?rest = "\<lambda>r. case r of Inl err \<Rightarrow> State_Monad.return (Some (''failed to get container interfaces: '' @ err))
      | Inr ys \<Rightarrow> ?capture ys"
  let ?start = "do { cleanupContainerInterfaces host pid; r \<leftarrow> getContainerInterfaces host pid; ?rest r }"
  let ?new = "\<lambda>u. tc_bridgeReady u = ?b \<and> (\<exists>ci. tc_containers u = gput c ci ?C)"
  note calls = lasting_calls[OF lasting_framed[of ?C ?b]]
  have s: "framed ?C ?b s"
    by (simp add: framed_def)
  show same: "gget ?C c \<noteq> None \<or> \<not> ?b \<Longrightarrow> t = s"
    by (auto simp: t_def StartContainerCapture_def)
  have start: "?b \<Longrightarrow> gget ?C c = None \<Longrightarrow> t = snd (run_state ?start s)"
    by (simp add: t_def StartContainerCapture_def)
  have put: "valid (framed ?C ?b) (?capture ys) (\<lambda>_. ?new)" for ys
    by (intro valid_bind[OF lasting_capture(3)[OF lasting_framed]] valid_bind[OF valid_update valid_return])
       (auto simp: framed_def)
  have "valid (framed ?C ?b) ?start (\<lambda>_ u. framed ?C ?b u \<or> ?new u)"
    by (intro valid_bind[OF calls] calls_only_intros valid_case_sum valid_return valid_post[OF put]) simp_all
  from validD[OF this s] same start s have "framed ?C ?b t \<or> ?new t"
    by (cases "?b \<and> gget ?C c = None") auto
  then show "tc_bridgeReady t = ?b" and "d \<noteq> c \<Longrightarrow> gget (tc_containers t) d = gget ?C d"
    by (auto simp: framed_def)
  have listed: "valid (\<lambda>u. (\<exists>ys. r = Inr ys) \<and> framed ?C ?b u) (?rest r) (\<lambda>_. ?new)" for r
    by (rule valid_fact) (use put in auto)
  show "gget (tc_containers t) c \<noteq> None" if "lists_interfaces host" "?b"
  proof -
    have "valid (framed ?C ?b) ?start (\<lambda>_. ?new)"
      by (intro valid_bind[OF calls] calls_only_intros
          valid_bind[OF getContainerInterfaces_listed[OF that(1) lasting_framed] listed])
    from validD[OF this s] have "gget ?C c = None \<Longrightarrow> ?new t"
      by (simp only: start[OF that(2)])
    with same that(2) show ?thesis
      by (cases "gget ?C c") auto
  qed
qed

lemma Stop_frame:
  fixes s :: TCState and host c
  defines "t \<equiv> snd (run_state (StopContainerCapture host c) s)"
  shows "tc_bridgeReady t = tc_bridgeReady s" and "gget (tc_containers t) = (gget (tc_containers s))(c := None)"
proof -
  have "tc_bridgeReady t = tc_bridgeReady s \<and> gget (tc_containers t) = (gget (tc_containers s))(c := None)"
  proof (cases "gget (tc_containers s) c")
    case None
    then show ?thesis
      by (auto simp: t_def StopContainerCapture_def)
  next
    case (Some ci)
    then show ?thesis
      by (simp add: t_def run_Stop fun_eq_iff)
  qed
  then show "tc_bridgeReady t = tc_bridgeReady s" and "gget (tc_containers t) = (gget (tc_containers s))(c := None)"
    by blast+
qed

section \<open>Sequences of captures\<close>

lemma NewTC_obedient:
  assumes "obedient host x"
  shows "modc ((tc_empty h)\<lparr>tc_bridgeReady := True\<rparr>) (NewTCTrafficCapture host h)"
proof -
  let ?e = "tc_empty h"
  have ok: "valid (modc ?e) (syscall host (LinkAdd NV_BRIDGE_NAME)) (\<lambda>r t. (\<exists>out. r = Inr out) \<and> modc ?e t)"
    "valid (modc ?e) (syscall host (LinkSetUp NV_BRIDGE_NAME)) (\<lambda>r t. (\<exists>out. r = Inr out) \<and> modc ?e t)"
    using assms by (auto simp: valid_def syscall_def modc_def obedient_def)
  have up: "valid (modc ?e) (State_Monad.update (\<lambda>s. s\<lparr>tc_bridgeReady := True\<rparr>)) (\<lambda>_. modc (?e\<lparr>tc_bridgeReady := True\<rparr>))"
    by (rule valid_update) (simp add: modc_def)
  have "valid (modc ?e) (do { addQDisc host NV_BRIDGE_NAME; disableOffload host NV_BRIDGE_NAME;
      State_Monad.update (\<lambda>s. s\<lparr>tc_bridgeReady := True\<rparr>); State_Monad.return (None :: string option) })
      (\<lambda>_. modc (?e\<lparr>tc_bridgeReady := True\<rparr>))"
    by (rule valid_bind[OF valid_modc], intro calls_only_intros, rule valid_bind[OF valid_modc], intro calls_only_intros,
        rule valid_bind[OF up], rule valid_return)
  then have step: "valid (\<lambda>t. (\<exists>out. r = Inr out) \<and> modc ?e t)
      (case r of
         Inl err \<Rightarrow> State_Monad.return (Some (msg @ err))
       | Inr _ \<Rightarrow> do { addQDisc host NV_BRIDGE_NAME; disableOffload host NV_BRIDGE_NAME;
           State_Monad.update (\<lambda>s. s\<lparr>tc_bridgeReady := True\<rparr>); State_Monad.return None })
      (\<lambda>_. modc (?e\<lparr>tc_bridgeReady := True\<rparr>))" for r :: "string + string" and msg
    by (intro valid_fact) auto
  have step': "valid (\<lambda>t. (\<exists>out. r = Inr out) \<and> modc ?e t)
      (case r of Inl err \<Rightarrow> State_Monad.return (Some (msg @ err)) | Inr _ \<Rightarrow> m) (\<lambda>_. modc (?e\<lparr>tc_bridgeReady := True\<rparr>))"
    if "valid (modc ?e) m (\<lambda>_. modc (?e\<lparr>tc_bridgeReady := True\<rparr>))" for r :: "string + string" and msg m
    using that by (intro valid_fact) auto
  have "valid (modc ?e) (initNVBridge host) (\<lambda>_. modc (?e\<lparr>tc_bridgeReady := True\<rparr>))"
    unfolding initNVBridge_def
    by (rule valid_bind[OF valid_modc], intro calls_only_intros, rule valid_bind[OF valid_modc], intro calls_only_intros,
        rule valid_bind[OF ok(1)], rule step', rule valid_bind[OF ok(2)], rule step)
  from validD[OF this modc_refl] show ?thesis
    by (simp add: NewTCTrafficCapture_def)
qed

lemma reach_start: "reach (\<lambda>s. \<exists>h. s = NewTCTrafficCapture host h) (tc_step host) s \<Longrightarrow>
    run_state (StartContainerCapture host c n pid) s = (r, t) \<Longrightarrow>
    reach (\<lambda>s. \<exists>h. s = NewTCTrafficCapture host h) (tc_step host) t"
  using reach_step[where step = "tc_step host", OF _ t_start[of host s c n pid]] by simp

lemma reach_stop: "reach (\<lambda>s. \<exists>h. s = NewTCTrafficCapture host h) (tc_step host) s \<Longrightarrow>
    run_state (StopContainerCapture host c) s = (r, t) \<Longrightarrow>
    reach (\<lambda>s. \<exists>h. s = NewTCTrafficCapture host h) (tc_step host) t"
  using reach_step[where step = "tc_step host", OF _ t_stop[of host s c]] by simp

lemmas free_simps = free_from_cases TC_PREF_MAX_def gbool_def

text \<open>Two containers that have an interface of the same name.\<close>

definition two_captured :: "host \<Rightarrow> string \<Rightarrow> string \<Rightarrow> string \<Rightarrow> TCState \<Rightarrow> bool" where
  "two_captured host x a b s \<longleftrightarrow>
     reach (\<lambda>s. \<exists>h. s = NewTCTrafficCapture host h) (tc_step host) s \<and>
     (\<exists>m m'. modc (after_start b b 2 x m' 3 4 (after_start a a 1 x m 1 2 ((tc_empty [])\<lparr>tc_bridgeReady := True\<rparr>))) s)"

lemma two_captured:
  assumes "obedient host x" and "a \<noteq> b"
  shows "\<exists>s. two_captured host x a b s"
proof -
  let ?r = "reach (\<lambda>s. \<exists>h. s = NewTCTrafficCapture host h) (tc_step host)"
  let ?s0 = "NewTCTrafficCapture host []"
  have r0: "?r ?s0"
    by (rule reach_init) blast
  have m0: "tc_prefs ?s0 = []" "tc_containers ?s0 = []" "tc_portMap ?s0 = []" "tc_bridgeReady ?s0"
    using NewTC_obedient[OF assms(1), of "[]"] by (simp_all add: modc_def tc_empty_def)
  obtain m t where t: "run_state (StartContainerCapture host a a 1) ?s0 = (None, t)" "modc (after_start a a 1 x m 1 2 ?s0) t"
    using StartContainerCapture_obedient[OF assms(1), of ?s0 1 2 a a 1] m0 by (auto simp: free_simps)
  then have m1: "tc_prefs t = [(1, True), (2, True)]" "tc_containers t = [(a, captured a a 1 x m 1 2)]"
      "tc_portMap t = port_entry x 1 2 []" "tc_bridgeReady t"
    using m0 by (simp_all add: modc_def after_start_def)
  obtain m' u where u: "run_state (StartContainerCapture host b b 2) t = (None, u)" "modc (after_start b b 2 x m' 3 4 t) u"
    using StartContainerCapture_obedient[OF assms(1), of t 3 4 b b 2] m1 assms(2) by (auto simp: free_simps)
  have "modc (after_start b b 2 x m' 3 4 (after_start a a 1 x m 1 2 ((tc_empty [])\<lparr>tc_bridgeReady := True\<rparr>))) u"
    using u(2) m1 by (simp add: modc_def after_start_def tc_empty_def)
  with reach_start[OF reach_start[OF r0 t(1)] u(1)] show ?thesis
    unfolding two_captured_def by blast
qed


text \<open>A concrete host: one interface per container, every command succeeds.\<close>

definition host0 :: host where
  "host0 h c =
     (case c of
        ShOutput cmd \<Rightarrow>
          if HasSuffix cmd ''ip link show'' then Inr ''2: eth0@if3: <UP> mtu 1500''
          else if HasSuffix cmd ''/address'' then Inr ''02:42:ac:11:00:02''
          else Inr ''''
      | LinkShow \<Rightarrow> Inr ''7: nv-in-eth0@if2: <UP> mtu 1500''
      | LinkByName _ \<Rightarrow> Inl ''Link not found''
      | _ \<Rightarrow> Inr '''')"

lemma obedient_host0: "obedient host0 ''eth0''"
proof -
  have s: "HasSuffix (nsenter pid @ ''ip link show'') ''ip link show''"
    "HasSuffix (nsenter pid @ ''cat /sys/class/net/'' @ ''eth0'' @ ''/address'') ''/address''"
    "\<not> HasSuffix (nsenter pid @ ''cat /sys/class/net/'' @ ''eth0'' @ ''/address'') ''ip link show''" for pid
    by (simp_all add: HasSuffix_def HasPrefix_def)
  have "filter (\<lambda>y. y \<noteq> ''lo'') (parse_ifaces ''2: eth0@if3: <UP> mtu 1500'') = [''eth0'']"
    by code_simp
  moreover have "\<exists>m. parse_mac (TrimSpace ''02:42:ac:11:00:02'') = Inr m"
    by (intro exI[of _ "[2, 66, 172, 17, 0, 2]"]) code_simp
  ultimately show ?thesis
    using s by (auto simp: obedient_def host0_def simp del: append_Cons)
qed

section \<open>Properties\<close>

text \<open>
  C8. No two captured interfaces share an index.  Whatever the host answers and in whatever order
  captures are started and stopped, the non-zero index of a captured interface is below 65536 and in
  use, and no other interface, of the same or of another container, has the same index or the same
  generated MAC address.
\<close>

theorem tc_index_unique:
  assumes "reach (\<lambda>s. \<exists>h. s = NewTCTrafficCapture host h) (tc_step host) s"
    and "gget (tc_containers s) c = Some ci" and "gget (ti_vethPairs ci) x = Some vp" and "vp_index vp \<noteq> 0"
    and "gget (tc_containers s) c' = Some ci'" and "gget (ti_vethPairs ci') x' = Some vp'"
  shows "vp_index vp < 65536 \<and> gbool (tc_prefs s) (vp_index vp) \<and>
    (vp_index vp' = vp_index vp \<or> vp_nvMAC vp' = vp_nvMAC vp \<longrightarrow> c' = c \<and> x' = x)"
proof -
  let ?C = "tc_containers s"
  have inv: "tc_inv s"
    using assms(1) by (rule tc_sys.reach_inv)
  then have wf: "gwf ?C" and ok: "pairs_ok (ti_vethPairs ci)" "pairs_ok (ti_vethPairs ci')"
    and own: "owned_ok (tc_prefs s) (owned ?C)"
    using assms(2,5) by (auto simp: tc_inv_def alloc_ok_def)
  note entry = owned_entry[OF wf assms(2) ok(1) assms(3)]
  have i: "vp_index vp < TC_PREF_MAX" "gbool (tc_prefs s) (vp_index vp)" "count (owned ?C) (vp_index vp) = 1"
    using own entry assms(4) by (auto simp: owned_ok_def)
  have i': "vp_index vp' < TC_PREF_MAX"
    using own owned_entry[OF wf assms(5) ok(2) assms(6)] by (cases "vp_index vp' = 0") (auto simp: owned_ok_def TC_PREF_MAX_def)
  have "c' = c \<and> x' = x" if eq: "vp_index vp' = vp_index vp"
  proof (rule ccontr)
    assume ne: "\<not> (c' = c \<and> x' = x)"
    have "vp_index vp' \<in># indices (gdel x (ti_vethPairs ci)) + owned (gdel c ?C)"
    proof (cases "c' = c")
      case True
      with ne assms(2,5,6) ok(1) show ?thesis
        by (auto simp: pairs_ok_def intro!: entry_mem[of _ x'])
    next
      case False
      then have "gget (gdel c ?C) c' = Some ci'"
        using assms(5) by simp
      from owned_entry[OF _ this ok(2) assms(6)] wf show ?thesis
        by simp
    qed
    with entry i(3) eq show False
      by (simp add: not_in_iff[symmetric])
  qed
  moreover have "vp_index vp' = vp_index vp" if "vp_nvMAC vp' = vp_nvMAC vp"
    using that ok assms(3,6) i(1) i' nv_mac_inject[of "vp_index vp'" "vp_index vp"] by (simp add: pairs_ok_def pair_ok_def)
  ultimately show ?thesis
    using i by (auto simp: TC_PREF_MAX_def)
qed

theorem tc_index_unique_witness:
  "\<exists>(s :: TCState) ca cb va vb. gget (tc_containers s) ''a'' = Some ca \<and> gget (ti_vethPairs ca) ''eth0'' = Some va \<and>
     gget (tc_containers s) ''b'' = Some cb \<and> gget (ti_vethPairs cb) ''eth0'' = Some vb \<and>
     vp_index va < 65536 \<and> vp_nvMAC va \<noteq> vp_nvMAC vb"
proof -
  obtain s m m' where r: "reach (\<lambda>s. \<exists>h. s = NewTCTrafficCapture host0 h) (tc_step host0) s"
      and s: "modc (after_start ''b'' ''b'' 2 ''eth0'' m' 3 4 (after_start ''a'' ''a'' 1 ''eth0'' m 1 2 ((tc_empty [])\<lparr>tc_bridgeReady := True\<rparr>))) s"
    using two_captured[OF obedient_host0, of "''a''" "''b''"] unfolding two_captured_def by auto
  let ?a = "captured ''a'' ''a'' 1 ''eth0'' m 1 2" and ?b = "captured ''b'' ''b'' 2 ''eth0'' m' 3 4"
  have ab: "gget (tc_containers s) ''a'' = Some ?a" "gget (tc_containers s) ''b'' = Some ?b"
    using s by (simp_all add: modc_def after_start_def tc_empty_def)
  have v: "gget (ti_vethPairs ?a) ''eth0'' = Some (new_pair ''eth0'' m 1)" "gget (ti_vethPairs ?b) ''eth0'' = Some (new_pair ''eth0'' m' 3)"
    by (simp_all add: captured_def)
  have "vp_index (new_pair ''eth0'' m 1) \<noteq> 0"
    by (simp add: new_pair_def)
  from tc_index_unique[OF r ab(1) v(1) this ab(2) v(2)]
  have "vp_index (new_pair ''eth0'' m 1) < 65536" "vp_nvMAC (new_pair ''eth0'' m 1) \<noteq> vp_nvMAC (new_pair ''eth0'' m' 3)"
    by auto
  with ab v show ?thesis
    by blast
qed



text \<open>
  C25. What stopping a capture undoes.  Stopping a captured container succeeds, removes it and no other
  container, and issues exactly these commands: the recorded rules in order, each with its verb replaced, and for
  every veth pair the removal of the two queueing disciplines and of the pair.  For the rules that a
  capture installs the replacement turns the verb \<open>add\<close> of the filter command, and nothing else, into \<open>del\<close>.
\<close>

theorem capture_stop:
  assumes "gget (tc_containers s) c = Some ci"
  shows "(let (r, t) = run_state (StopContainerCapture host c) s
    in r = None \<and> gget (tc_containers t) = (gget (tc_containers s))(c := None) \<and>
       tc_calls t = tc_calls s @ map (\<lambda>r. Sh (Replace1 r ''add'' ''del'')) (ti_tcRules ci) @
         concat (map (\<lambda>p. [Sh (''tc qdisc del dev '' @ vp_internalName (snd p) @ '' ingress''),
                           Sh (''tc qdisc del dev '' @ vp_externalName (snd p) @ '' ingress''),
                           Sh (''ip link del '' @ vp_internalName (snd p))]) (ti_vethPairs ci))) \<and>
    (\<forall>r \<in> set (allRules pid vp q). \<exists>pre rest. (pre = '''' \<or> pre = nsenter pid) \<and>
       r = pre @ ''tc filter add'' @ rest \<and> Replace1 r ''add'' ''del'' = pre @ ''tc filter del'' @ rest)"
proof -
  have "\<exists>pre rest. (pre = '''' \<or> pre = nsenter pid) \<and>
       r = pre @ ''tc filter add'' @ rest \<and> Replace1 r ''add'' ''del'' = pre @ ''tc filter del'' @ rest"
    if "r \<in> set (allRules pid vp q)" for r
    using rule_shape[OF that] undo_filter by blast
  then show ?thesis
    by (simp add: run_Stop[OF assms] unplug_def fun_eq_iff del: append_Cons)
qed

theorem capture_stop_witness:
  "\<exists>s. gget (tc_containers s) ''a'' \<noteq> None \<and>
     gget (tc_containers (snd (run_state (StopContainerCapture host0 ''a'') s))) ''a'' = None"
proof -
  obtain s where "two_captured host0 ''eth0'' ''a'' ''b'' s"
    using two_captured[OF obedient_host0, of "''a''" "''b''"] by auto
  then obtain ci where ci: "gget (tc_containers s) ''a'' = Some ci"
    by (auto simp: two_captured_def modc_def after_start_def)
  from capture_stop[OF this] ci show ?thesis
    by (intro exI[of _ s]) (simp add: Let_def case_prod_unfold)
qed




lemma each_command_mem:
  "x \<in> set xs \<Longrightarrow> P x \<Longrightarrow>
   Sh (f x) \<in> set (tc_calls (snd (run_state
     (each (\<lambda>n. if P n then map_state (\<lambda>_. ()) (executeCommand host (f n)) else State_Monad.return ()) xs) s)))"
proof (induction xs arbitrary: s)
  case (Cons y ys)
  have mono: "set (tc_calls t) \<subseteq> set (tc_calls (snd (run_state
      (each (\<lambda>n. if P n then map_state (\<lambda>_. ()) (executeCommand host (f n)) else State_Monad.return ()) ys) t)))" for t
  proof (induction ys arbitrary: t)
    case (Cons z zs)
    show ?case
      using Cons[of t] Cons[of "t\<lparr>tc_calls := tc_calls t @ [Sh (f z)]\<rparr>"]
      by (simp add: executeCommand_def syscall_def)
  qed simp
  show ?case
    using Cons mono by (fastforce simp: executeCommand_def syscall_def)
qed simp

lemma cleanup_deletes:
  assumes "\<forall>h. \<exists>out. host h (ShOutput (nsenter pid @ ''ip link show'')) = Inr out"
    and "\<forall>h. \<exists>out. host h LinkShow = Inr out \<and> n \<in> set (nv_lines out)" and "n \<noteq> NV_BRIDGE_NAME"
  shows "Sh (''ip link del '' @ n) \<in> set (tc_calls (snd (run_state (cleanupContainerInterfaces host pid) s)))"
proof -
  let ?s1 = "s\<lparr>tc_calls := tc_calls s @ [ShOutput (nsenter pid @ ''ip link show'')]\<rparr>"
  obtain out where out: "host (tc_calls s) (ShOutput (nsenter pid @ ''ip link show'')) = Inr out"
    using assms(1) by blast
  let ?s2 = "snd (run_state (each (\<lambda>n. executeCommand host (nsenter pid @ ''ip link del '' @ n)) (nv_lines out)) ?s1)"
  let ?k = "each (\<lambda>n. if n \<noteq> NV_BRIDGE_NAME then map_state (\<lambda>_. ()) (executeCommand host (''ip link del '' @ n))
      else State_Monad.return ())"
  obtain out2 where out2: "host (tc_calls ?s2) LinkShow = Inr out2" "n \<in> set (nv_lines out2)"
    using assms(2) by blast
  have "Sh (''ip link del '' @ n) \<in>
      set (tc_calls (snd (run_state (?k (nv_lines out2)) (?s2\<lparr>tc_calls := tc_calls ?s2 @ [LinkShow]\<rparr>))))"
    by (rule each_command_mem[OF out2(2)]) (rule assms(3))
  also have "run_state (?k (nv_lines out2)) (?s2\<lparr>tc_calls := tc_calls ?s2 @ [LinkShow]\<rparr>) =
      run_state (cleanupContainerInterfaces host pid) s"
    by (simp only: cleanupContainerInterfaces_def syscall_def State_Monad.bind_def State_Monad.get_def State_Monad.set_def State_Monad.return_def
        state.sel run_state_update out out2(1) sum.case prod.case case_prod_unfold fst_conv snd_conv)
  finally show ?thesis .
qed



text \<open>
  Shutting the capture down.  The shutdown of the traffic capture ends if and only if no container is
  captured; with a captured container it waits for the lock that it holds itself.  When it ends, it
  reports no error and the bridge counts as not ready.
\<close>

lemma Cleanup_terminates_iff:
  "(Cleanup host s \<noteq> None \<longleftrightarrow> tc_containers s = []) \<and>
   (case Cleanup host s of None \<Rightarrow> True | Some (r, t) \<Rightarrow> r = None \<and> \<not> tc_bridgeReady t)"
  by (cases "tc_containers s")
     (auto simp: Cleanup_def with_mutex_def cleanup_bridge_state_def split: prod.split sum.split)

end
