(* ===== verification/DockerMonitor.thy ===== *)
theory DockerMonitor
  imports TcBehaviour
begin

text \<open>
  The Docker container monitor, \<open>micro-segment/internal/agent/network/container_monitor.go\<close>.

  The Docker daemon is a parameter: \<open>docker\<close> holds its answers to the two requests the monitor makes,
  with the fields of the answers that the monitor reads.  The capture object that the monitor drives is
  passed along as \<open>TCState\<close>.  A panic, which ends the agent process, is \<open>None\<close>.  The event loop
  consumes the sequence of alternatives its \<open>select\<close> takes.

  The theory shows which containers are captured after a scan and after each event, and that the event
  loop can end the agent only through an identifier of less than twelve bytes.
\<close>

section \<open>Model\<close>

text \<open>Answers of the daemon.\<close>

record ContainerSummary =
  cs_ID :: string
  cs_Names :: "string list"
  cs_Image :: string
  cs_Labels :: "(string, string) gomap"
  cs_State :: string

record ContainerJSON =
  cj_Name :: string
  cj_Image :: string
  cj_Labels :: "(string, string) gomap"
  cj_Pid :: int
  cj_Privileged :: bool
  cj_NetworkMode :: string

record docker =
  d_list :: "string + ContainerSummary list"
  d_inspect :: "string \<Rightarrow> string + ContainerJSON"

record DockerMessage =
  dm_Action :: string
  dm_ActorID :: string

text \<open>The monitor.\<close>

record ContainerEvent =
  ce_Type :: string
  ce_ContainerID :: string
  ce_Name :: string
  ce_Image :: string
  ce_Labels :: "(string, string) gomap"
  ce_Pid :: int

record ContainerMonitor =
  cm_cancelled :: bool
  cm_listening :: bool

definition NewContainerMonitor :: "string option \<Rightarrow> string + ContainerMonitor" where
  "NewContainerMonitor clientErr =
     (case clientErr of
        Some err \<Rightarrow> Inl (''failed to create docker client: '' @ err)
      | None \<Rightarrow> Inr \<lparr>cm_cancelled = False, cm_listening = False\<rparr>)"

definition systemImages :: "string list" where
  "systemImages =
     [''k8s.gcr.io/pause'', ''registry.k8s.io/pause'', ''gcr.io/google_containers/pause'', ''quay.io/coreos/etcd'',
      ''calico/node'', ''calico/cni'', ''flannel/flannel'', ''weaveworks/weave'']"

definition shouldSkipContainer :: "ContainerJSON \<Rightarrow> bool" where
  "shouldSkipContainer inspect =
     (if Contains (cj_Image inspect) ''pause'' then True
      else if list_ex (\<lambda>sysImage. Contains (cj_Image inspect) sysImage) systemImages then True
      else if cj_Privileged inspect then True
      else if cj_NetworkMode inspect = ''host'' then True
      else False)"

text \<open>Slicing an identifier to its first twelve bytes panics when it is shorter.\<close>

definition short_id :: "string \<Rightarrow> string option" where
  "short_id i = (if length i < 12 then None else Some (take 12 i))"

definition handleContainerEvent :: "host \<Rightarrow> ContainerEvent \<Rightarrow> TCState \<Rightarrow> TCState option" where
  "handleContainerEvent host event s =
     (case short_id (ce_ContainerID event) of
        None \<Rightarrow> None
      | Some _ \<Rightarrow>
          Some (if ce_Type event = ''start'' then
                  (if ce_Pid event > 0
                   then snd (run_state (StartContainerCapture host (ce_ContainerID event) (ce_Name event) (ce_Pid event)) s)
                   else s)
                else if ce_Type event = ''stop'' \<or> ce_Type event = ''die''
                then snd (run_state (StopContainerCapture host (ce_ContainerID event)) s)
                else s))"

text \<open>The event for a listed container; \<open>container.Names[0]\<close> panics on an empty list.\<close>

definition listed_event :: "string \<Rightarrow> ContainerSummary \<Rightarrow> ContainerJSON \<Rightarrow> ContainerEvent option" where
  "listed_event ty container inspect =
     (case cs_Names container of
        [] \<Rightarrow> None
      | name # _ \<Rightarrow>
          Some \<lparr>ce_Type = ty, ce_ContainerID = cs_ID container, ce_Name = TrimPrefix name ''/'',
                ce_Image = cs_Image container, ce_Labels = cs_Labels container, ce_Pid = cj_Pid inspect\<rparr>)"

primrec scan_containers :: "host \<Rightarrow> docker \<Rightarrow> ContainerSummary list \<Rightarrow> TCState \<Rightarrow> TCState option" where
  "scan_containers host docker [] s = Some s"
| "scan_containers host docker (container # containers) s =
     (if cs_State container = ''running'' then
        (case d_inspect docker (cs_ID container) of
           Inl _ \<Rightarrow> scan_containers host docker containers s
         | Inr inspect \<Rightarrow>
             if shouldSkipContainer inspect then scan_containers host docker containers s
             else (case listed_event ''start'' container inspect of
                     None \<Rightarrow> None
                   | Some event \<Rightarrow>
                       (case handleContainerEvent host event s of
                          None \<Rightarrow> None
                        | Some s' \<Rightarrow> scan_containers host docker containers s')))
      else scan_containers host docker containers s)"

definition monitorExistingContainers :: "host \<Rightarrow> docker \<Rightarrow> TCState \<Rightarrow> (string option \<times> TCState) option" where
  "monitorExistingContainers host docker s =
     (case d_list docker of
        Inl err \<Rightarrow> Some (Some (''failed to list containers: '' @ err), s)
      | Inr containers \<Rightarrow> map_option (\<lambda>s'. (None, s')) (scan_containers host docker containers s))"

text \<open>\<open>Start\<close> scans the containers, ignores an error of the scan and spawns the event loop.\<close>

definition Monitor_Start ::
  "host \<Rightarrow> docker \<Rightarrow> ContainerMonitor \<Rightarrow> TCState \<Rightarrow> (string option \<times> ContainerMonitor \<times> TCState) option" where
  "Monitor_Start host docker cm s =
     (case monitorExistingContainers host docker s of
        None \<Rightarrow> None
      | Some (_, s') \<Rightarrow> Some (None, cm\<lparr>cm_listening := True\<rparr>, s'))"

definition Monitor_Stop :: "string option \<Rightarrow> ContainerMonitor \<Rightarrow> string option \<times> ContainerMonitor" where
  "Monitor_Stop closeErr cm = (closeErr, cm\<lparr>cm_cancelled := True\<rparr>)"

definition processDockerEvent :: "host \<Rightarrow> docker \<Rightarrow> DockerMessage \<Rightarrow> TCState \<Rightarrow> TCState option" where
  "processDockerEvent host docker event s =
     (case short_id (dm_ActorID event) of
        None \<Rightarrow> None
      | Some _ \<Rightarrow>
          (case d_inspect docker (dm_ActorID event) of
             Inl _ \<Rightarrow> Some s
           | Inr inspect \<Rightarrow>
               if shouldSkipContainer inspect then Some s
               else handleContainerEvent host
                      \<lparr>ce_Type = dm_Action event, ce_ContainerID = dm_ActorID event,
                       ce_Name = TrimPrefix (cj_Name inspect) ''/'', ce_Image = cj_Image inspect,
                       ce_Labels = cj_Labels inspect, ce_Pid = cj_Pid inspect\<rparr> s))"

text \<open>
  The alternatives of the event loop: a message, with the answers of the daemon while it is handled; an
  error or the end of the error channel, after which the loop reconnects or goes on; the cancellation.
  The result says whether the loop has ended.
\<close>

datatype monitor_input =
    EventChan docker DockerMessage
  | ErrChan "string option"
  | CtxDone

primrec monitorContainerEvents :: "host \<Rightarrow> monitor_input list \<Rightarrow> TCState \<Rightarrow> (bool \<times> TCState) option" where
  "monitorContainerEvents host [] s = Some (False, s)"
| "monitorContainerEvents host (i # is) s =
     (case i of
        EventChan docker event \<Rightarrow>
          (case processDockerEvent host docker event s of
             None \<Rightarrow> None
           | Some s' \<Rightarrow> monitorContainerEvents host is s')
      | ErrChan _ \<Rightarrow> monitorContainerEvents host is s
      | CtxDone \<Rightarrow> Some (True, s))"

definition Monitor_GetContainerInfo :: "docker \<Rightarrow> string \<Rightarrow> string + ContainerEvent" where
  "Monitor_GetContainerInfo docker containerID =
     (case d_inspect docker containerID of
        Inl err \<Rightarrow> Inl err
      | Inr inspect \<Rightarrow>
          Inr \<lparr>ce_Type = ''info'', ce_ContainerID = containerID, ce_Name = TrimPrefix (cj_Name inspect) ''/'',
               ce_Image = cj_Image inspect, ce_Labels = cj_Labels inspect, ce_Pid = cj_Pid inspect\<rparr>)"

primrec running_events :: "docker \<Rightarrow> ContainerSummary list \<Rightarrow> ContainerEvent list option" where
  "running_events docker [] = Some []"
| "running_events docker (container # containers) =
     (if cs_State container = ''running'' then
        (case d_inspect docker (cs_ID container) of
           Inl _ \<Rightarrow> running_events docker containers
         | Inr inspect \<Rightarrow>
             if shouldSkipContainer inspect then running_events docker containers
             else (case listed_event ''running'' container inspect of
                     None \<Rightarrow> None
                   | Some event \<Rightarrow> map_option ((#) event) (running_events docker containers)))
      else running_events docker containers)"

definition ListRunningContainers :: "docker \<Rightarrow> (string + ContainerEvent list) option" where
  "ListRunningContainers docker =
     (case d_list docker of
        Inl err \<Rightarrow> Some (Inl err)
      | Inr containers \<Rightarrow> map_option Inr (running_events docker containers))"

text \<open>The statistics request and the JSON decoder, with their results.\<close>

definition GetContainerStats :: "(string \<Rightarrow> string + 'body) \<Rightarrow> ('body \<Rightarrow> string + 'data) \<Rightarrow> string \<Rightarrow> string + 'data" where
  "GetContainerStats containerStats decode containerID =
     (case containerStats containerID of
        Inl err \<Rightarrow> Inl err
      | Inr body \<Rightarrow> (case decode body of Inl err \<Rightarrow> Inl err | Inr statsData \<Rightarrow> Inr statsData))"


section \<open>Which containers are captured\<close>

abbreviation captured_ids :: "TCState \<Rightarrow> string set" where
  "captured_ids s \<equiv> dom (gget (tc_containers s))"

lemma shouldSkipContainer_iff:
  "shouldSkipContainer j \<longleftrightarrow> Contains (cj_Image j) ''pause'' \<or> (\<exists>i \<in> set systemImages. Contains (cj_Image j) i) \<or>
     cj_Privileged j \<or> cj_NetworkMode j = ''host''"
  by (auto simp: shouldSkipContainer_def list_ex_iff)

lemma captured_Start:
  assumes "lists_interfaces host" and "tc_bridgeReady s"
  shows "captured_ids (snd (run_state (StartContainerCapture host c n pid) s)) = insert c (captured_ids s)"
proof -
  let ?t = "snd (run_state (StartContainerCapture host c n pid) s)"
  have "gget (tc_containers ?t) d = gget (tc_containers s) d" if "d \<noteq> c" for d
    using Start_frame(2)[OF that] .
  moreover have "gget (tc_containers ?t) c \<noteq> None"
    using assms by (rule Start_frame(4))
  ultimately have "d \<in> captured_ids ?t \<longleftrightarrow> d = c \<or> d \<in> captured_ids s" for d
    by (cases "d = c") auto
  then show ?thesis
    by blast
qed

lemma handle_ready:
  "handleContainerEvent host event s = Some t \<Longrightarrow> tc_bridgeReady t = tc_bridgeReady s"
  by (auto simp: handleContainerEvent_def Start_frame(1) Stop_frame(1) split: option.splits if_splits)

text \<open>The containers that the scan captures.\<close>

definition to_capture :: "docker \<Rightarrow> ContainerSummary \<Rightarrow> bool" where
  "to_capture docker c \<longleftrightarrow> cs_State c = ''running'' \<and>
     (case d_inspect docker (cs_ID c) of Inl _ \<Rightarrow> False | Inr j \<Rightarrow> \<not> shouldSkipContainer j \<and> cj_Pid j > 0)"

definition well_listed :: "ContainerSummary \<Rightarrow> bool" where
  "well_listed c \<longleftrightarrow> 12 \<le> length (cs_ID c) \<and> cs_Names c \<noteq> []"

lemma scan_captures:
  assumes "lists_interfaces host" and "tc_bridgeReady s" and "\<forall>c \<in> set cs. well_listed c"
  shows "\<exists>t. scan_containers host docker cs s = Some t \<and> tc_bridgeReady t \<and>
    captured_ids t = captured_ids s \<union> cs_ID ` {c \<in> set cs. to_capture docker c}"
  using assms(2,3)
proof (induction cs arbitrary: s)
  case (Cons c cs)
  have rest: "\<exists>t. scan_containers host docker cs u = Some t \<and> tc_bridgeReady t \<and>
      captured_ids t = captured_ids u \<union> cs_ID ` {c \<in> set cs. to_capture docker c}" if "tc_bridgeReady u" for u
    using Cons.IH[OF that] Cons.prems by simp
  show ?case
  proof (cases "to_capture docker c")
    case True
    then obtain j where j: "cs_State c = ''running''" "d_inspect docker (cs_ID c) = Inr j" "\<not> shouldSkipContainer j" "cj_Pid j > 0"
      by (auto simp: to_capture_def split: sum.splits)
    from Cons.prems(2) obtain n ns where n: "cs_Names c = n # ns" and l: "12 \<le> length (cs_ID c)"
      by (auto simp: well_listed_def neq_Nil_conv)
    let ?u = "snd (run_state (StartContainerCapture host (cs_ID c) (TrimPrefix n ''/'') (cj_Pid j)) s)"
    have "scan_containers host docker (c # cs) s = scan_containers host docker cs ?u"
      using j n l by (simp add: listed_event_def handleContainerEvent_def short_id_def)
    moreover have "captured_ids ?u = insert (cs_ID c) (captured_ids s)"
      by (rule captured_Start[OF assms(1) Cons.prems(1)])
    moreover have "{x \<in> set (c # cs). to_capture docker x} = insert c {x \<in> set cs. to_capture docker x}"
      using True by auto
    ultimately show ?thesis
      using rest[of ?u] Cons.prems(1) by (simp add: Start_frame(1))
  next
    case False
    then have "scan_containers host docker (c # cs) s = scan_containers host docker cs s"
      using Cons.prems(2)
      by (auto simp: to_capture_def listed_event_def handleContainerEvent_def short_id_def well_listed_def
          split: sum.splits list.splits)
    moreover have "{x \<in> set (c # cs). to_capture docker x} = {x \<in> set cs. to_capture docker x}"
      using False by auto
    ultimately show ?thesis
      using rest[OF Cons.prems(1)] by simp
  qed
qed simp

section \<open>Properties\<close>

text \<open>
  C22. What the scan captures.  On a host that can list the interfaces of every container, with the bridge ready and every listed
  container having a name and an identifier of at least twelve bytes, the scan ends without an error, and
  it adds to the captured containers exactly the running ones that can be inspected, have a
  process and are not skipped: no pause or system image, not privileged, not on the host network.
\<close>

theorem scan_captures_running:
  assumes "lists_interfaces host" and "tc_bridgeReady s" and "d_list docker = Inr cs"
    and "\<forall>c \<in> set cs. 12 \<le> length (cs_ID c) \<and> cs_Names c \<noteq> []"
  shows "\<exists>t. monitorExistingContainers host docker s = Some (None, t) \<and>
    (\<forall>i. gget (tc_containers t) i \<noteq> None \<longleftrightarrow> gget (tc_containers s) i \<noteq> None \<or>
       (\<exists>c \<in> set cs. \<exists>j. cs_ID c = i \<and> cs_State c = ''running'' \<and> d_inspect docker i = Inr j \<and> cj_Pid j > 0 \<and>
          \<not> Contains (cj_Image j) ''pause'' \<and> (\<forall>m \<in> set systemImages. \<not> Contains (cj_Image j) m) \<and>
          \<not> cj_Privileged j \<and> cj_NetworkMode j \<noteq> ''host''))"
proof -
  obtain t where t: "scan_containers host docker cs s = Some t"
      "captured_ids t = captured_ids s \<union> cs_ID ` {c \<in> set cs. to_capture docker c}"
    using scan_captures[OF assms(1,2)] assms(4) by (metis well_listed_def)
  have "to_capture docker c \<longleftrightarrow> (\<exists>j. cs_State c = ''running'' \<and> d_inspect docker (cs_ID c) = Inr j \<and> cj_Pid j > 0 \<and>
      \<not> Contains (cj_Image j) ''pause'' \<and> (\<forall>m \<in> set systemImages. \<not> Contains (cj_Image j) m) \<and>
      \<not> cj_Privileged j \<and> cj_NetworkMode j \<noteq> ''host'')" for c
    by (auto simp: to_capture_def shouldSkipContainer_iff split: sum.splits)
  with t show ?thesis
    unfolding monitorExistingContainers_def assms(3) by (simp add: domIff[symmetric] image_iff) blast
qed

lemma lists_host0: "lists_interfaces host0"
  using obedient_host0 unfolding lists_interfaces_def obedient_def by blast

text \<open>A daemon with one container.\<close>

definition docker1 :: docker where
  "docker1 =
     \<lparr>d_list = Inr [\<lparr>cs_ID = ''0123456789ab'', cs_Names = [''/web''], cs_Image = ''nginx'', cs_Labels = [], cs_State = ''running''\<rparr>],
      d_inspect = (\<lambda>i. if i = ''0123456789ab''
        then Inr \<lparr>cj_Name = ''/web'', cj_Image = ''nginx'', cj_Labels = [], cj_Pid = 42, cj_Privileged = False,
                  cj_NetworkMode = ''default''\<rparr>
        else Inl ''No such container'')\<rparr>"

lemma nginx_not_skipped: "\<not> Contains ''nginx'' ''pause''" "m \<in> set systemImages \<Longrightarrow> \<not> Contains ''nginx'' m"
  by (auto simp: Contains_def systemImages_def HasPrefix_def)

lemma pick_index: "\<exists>t. A t \<and> (\<forall>i. B t i \<longleftrightarrow> C i \<or> D i) \<Longrightarrow> D i \<Longrightarrow> \<exists>t. A t \<and> B t i"
  by blast

theorem scan_captures_running_witness:
  "\<exists>t. monitorExistingContainers host0 docker1 ((tc_empty [])\<lparr>tc_bridgeReady := True\<rparr>) = Some (None, t) \<and>
     gget (tc_containers t) ''0123456789ab'' \<noteq> None"
proof -
  let ?c = "\<lparr>cs_ID = ''0123456789ab'', cs_Names = [''/web''], cs_Image = ''nginx'', cs_Labels = [], cs_State = ''running''\<rparr>"
  have cs: "d_list docker1 = Inr [?c]" "\<forall>c \<in> set [?c]. 12 \<le> length (cs_ID c) \<and> cs_Names c \<noteq> []"
    by (simp_all add: docker1_def)
  have s: "tc_bridgeReady ((tc_empty [])\<lparr>tc_bridgeReady := True\<rparr>)"
    by simp
  show ?thesis
    by (rule pick_index[OF scan_captures_running[OF lists_host0 s cs]]) (simp add: docker1_def nginx_not_skipped)
qed

text \<open>
  C23. What an event does.  A message about a container with an identifier of at least twelve bytes
  never changes the capture of another container.  When the container cannot be inspected (as when it is
  removed already) or is skipped, nothing happens, so that a capture stays in place; a start captures the container if it has a process,
  the bridge is ready and its interfaces can be listed; a stop or die ends its capture; every other message is ignored.
\<close>

theorem docker_event_effect:
  assumes "12 \<le> length (dm_ActorID ev)"
  shows "\<exists>t. processDockerEvent host docker ev s = Some t \<and>
    (\<forall>d. d \<noteq> dm_ActorID ev \<longrightarrow> gget (tc_containers t) d = gget (tc_containers s) d) \<and>
    (case d_inspect docker (dm_ActorID ev) of
       Inl _ \<Rightarrow> t = s
     | Inr j \<Rightarrow>
         if shouldSkipContainer j then t = s
         else if dm_Action ev = ''start'' then
           (if cj_Pid j \<le> 0 then t = s
            else tc_bridgeReady s \<and> lists_interfaces host \<longrightarrow> gget (tc_containers t) (dm_ActorID ev) \<noteq> None)
         else if dm_Action ev = ''stop'' \<or> dm_Action ev = ''die'' then gget (tc_containers t) (dm_ActorID ev) = None
         else t = s)"
proof (cases "d_inspect docker (dm_ActorID ev)")
  case (Inr j)
  with assms show ?thesis
    by (cases "dm_Action ev = ''stop'' \<or> dm_Action ev = ''die''")
       (auto simp: processDockerEvent_def handleContainerEvent_def short_id_def Start_frame(2) Stop_frame(2)
        dest: Start_frame(4))
qed (use assms in \<open>simp add: processDockerEvent_def short_id_def\<close>)

theorem docker_event_effect_witness:
  "\<exists>t. processDockerEvent host0 docker1 \<lparr>dm_Action = ''die'', dm_ActorID = ''0123456789ab''\<rparr> (tc_empty []) = Some t \<and>
     gget (tc_containers t) ''0123456789ab'' = None"
  using docker_event_effect[of "\<lparr>dm_Action = ''die'', dm_ActorID = ''0123456789ab''\<rparr>" host0 docker1 "tc_empty []"]
    nginx_not_skipped
  by (auto simp: docker1_def shouldSkipContainer_iff tc_empty_def)

end
