(* ===== verification/NetManager.thy ===== *)
theory NetManager
  imports DockerMonitor
begin

text \<open>
  The network manager, \<open>micro-segment/internal/agent/network/manager.go\<close>, which owns the traffic capture
  and the container monitor.

  The state of the capture is part of the manager's.  The result of an operation is \<open>None\<close> when it does
  not return: it panics or waits for ever.  The time is an argument.  The operations on the manager's own fields
  hold its mutex; the goroutine of the statistics is the step \<open>stats_tick\<close>.

  The theory shows when stopping the manager returns, what is captured while it runs and after it
  has been stopped, and that its statistics count the captured containers.
\<close>

section \<open>Model\<close>

record NetworkStats =
  ns_CapturedContainers :: nat
  ns_ActiveRules :: nat
  ns_LastUpdate :: time
  ns_TotalPackets :: u64
  ns_TotalBytes :: u64

record Manager =
  mg_tcCapture :: TCState
  mg_containerMonitor :: ContainerMonitor
  mg_running :: bool
  mg_stats :: NetworkStats

definition NewManager :: "host \<Rightarrow> call list \<Rightarrow> string option \<Rightarrow> time \<Rightarrow> string + Manager" where
  "NewManager host h clientErr now =
     (let tcCapture = NewTCTrafficCapture host h
      in case NewContainerMonitor clientErr of
           Inl err \<Rightarrow> Inl (''failed to create container monitor: '' @ err)
         | Inr containerMonitor \<Rightarrow>
             Inr \<lparr>mg_tcCapture = tcCapture, mg_containerMonitor = containerMonitor, mg_running = False,
                  mg_stats = \<lparr>ns_CapturedContainers = 0, ns_ActiveRules = 0, ns_LastUpdate = now,
                              ns_TotalPackets = 0, ns_TotalBytes = 0\<rparr>\<rparr>)"

definition Manager_Start :: "host \<Rightarrow> docker \<Rightarrow> Manager \<Rightarrow> (string option \<times> Manager) option" where
  "Manager_Start host docker m =
     (if mg_running m then Some (Some ''network manager is already running'', m)
      else case Monitor_Start host docker (mg_containerMonitor m) (mg_tcCapture m) of
             None \<Rightarrow> None
           | Some (Some err, cm, tc) \<Rightarrow>
               Some (Some (''failed to start container monitor: '' @ err), m\<lparr>mg_containerMonitor := cm, mg_tcCapture := tc\<rparr>)
           | Some (None, cm, tc) \<Rightarrow>
               Some (None, m\<lparr>mg_containerMonitor := cm, mg_tcCapture := tc, mg_running := True\<rparr>))"

definition Manager_Stop :: "host \<Rightarrow> string option \<Rightarrow> Manager \<Rightarrow> (string option \<times> Manager) option" where
  "Manager_Stop host closeErr m =
     (if \<not> mg_running m then Some (None, m)
      else (let (_, cm) = Monitor_Stop closeErr (mg_containerMonitor m)
            in case Cleanup host (mg_tcCapture m) of
                 None \<Rightarrow> None
               | Some (_, tc) \<Rightarrow>
                   Some (None, m\<lparr>mg_containerMonitor := cm, mg_tcCapture := tc, mg_running := False\<rparr>)))"

definition IsRunning :: "Manager \<Rightarrow> bool" where
  "IsRunning m = mg_running m"

definition SetDPConnected :: "bool \<Rightarrow> Manager \<Rightarrow> Manager" where
  "SetDPConnected connected m = m"

definition updateStats :: "time \<Rightarrow> Manager \<Rightarrow> Manager option" where
  "updateStats now m =
     (case GetCapturedContainers (mg_tcCapture m) of
        None \<Rightarrow> None
      | Some capturedContainers \<Rightarrow>
          Some (m\<lparr>mg_stats := (mg_stats m)\<lparr>ns_CapturedContainers := length capturedContainers, ns_LastUpdate := now\<rparr>\<rparr>))"

definition Manager_GetStats :: "time \<Rightarrow> Manager \<Rightarrow> (NetworkStats \<times> Manager) option" where
  "Manager_GetStats now m = map_option (\<lambda>m'. (mg_stats m', m')) (updateStats now m)"

definition Manager_GetCapturedContainers :: "Manager \<Rightarrow> string list option" where
  "Manager_GetCapturedContainers m = GetCapturedContainers (mg_tcCapture m)"

definition GetRunningContainers :: "docker \<Rightarrow> (string + ContainerEvent list) option" where
  "GetRunningContainers docker = ListRunningContainers docker"

definition Manager_GetContainerInfo :: "docker \<Rightarrow> string \<Rightarrow> string + ContainerEvent" where
  "Manager_GetContainerInfo docker containerID = Monitor_GetContainerInfo docker containerID"

definition ForceStartCapture :: "host \<Rightarrow> docker \<Rightarrow> string \<Rightarrow> Manager \<Rightarrow> string option \<times> Manager" where
  "ForceStartCapture host docker containerID m =
     (case Monitor_GetContainerInfo docker containerID of
        Inl err \<Rightarrow> (Some (''failed to get container info: '' @ err), m)
      | Inr containerInfo \<Rightarrow>
          if ce_Pid containerInfo \<le> 0 then (Some (''container '' @ containerID @ '' has no valid PID''), m)
          else (let (r, tc) = run_state (StartContainerCapture host containerID (ce_Name containerInfo) (ce_Pid containerInfo))
                                (mg_tcCapture m)
                in (r, m\<lparr>mg_tcCapture := tc\<rparr>)))"

definition ForceStopCapture :: "host \<Rightarrow> string \<Rightarrow> Manager \<Rightarrow> string option \<times> Manager" where
  "ForceStopCapture host containerID m =
     (let (r, tc) = run_state (StopContainerCapture host containerID) (mg_tcCapture m) in (r, m\<lparr>mg_tcCapture := tc\<rparr>))"

text \<open>One tick of \<open>statsUpdateLoop\<close>; the first component says whether the loop goes on.\<close>

definition stats_tick :: "time \<Rightarrow> Manager \<Rightarrow> (bool \<times> Manager) option" where
  "stats_tick now m = (if \<not> IsRunning m then Some (False, m) else map_option (\<lambda>m'. (True, m')) (updateStats now m))"

datatype info =
    InfoContainers "ContainerEvent list"
  | InfoCaptured "string list"
  | InfoStats NetworkStats
  | InfoTime time
  | InfoString string
  | InfoBool bool

definition GetNetworkTopology :: "docker \<Rightarrow> time \<Rightarrow> Manager \<Rightarrow> ((string + (string \<times> info) list) \<times> Manager) option" where
  "GetNetworkTopology docker now m =
     (case GetRunningContainers docker of
        None \<Rightarrow> None
      | Some (Inl err) \<Rightarrow> Some (Inl err, m)
      | Some (Inr containers) \<Rightarrow>
          (case Manager_GetCapturedContainers m of
             None \<Rightarrow> None
           | Some names \<Rightarrow>
               (case Manager_GetStats now m of
                  None \<Rightarrow> None
                | Some (stats, m') \<Rightarrow>
                    Some (Inr [(''containers'', InfoContainers containers), (''captured'', InfoCaptured names),
                               (''stats'', InfoStats stats), (''timestamp'', InfoTime now),
                               (''method'', InfoString ''traffic_control'')], m'))))"

definition ValidateSetup :: "host \<Rightarrow> docker \<Rightarrow> Manager \<Rightarrow> (string option \<times> Manager) option" where
  "ValidateSetup host docker m =
     (let (r1, s1) = run_state (executeCommand host ''tc -Version'') (mg_tcCapture m)
      in case r1 of
           Some err \<Rightarrow> Some (Some (''tc command not available: '' @ err), m\<lparr>mg_tcCapture := s1\<rparr>)
         | None \<Rightarrow>
             (let (r2, s2) = run_state (executeCommand host ''ip -Version'') s1
              in case r2 of
                   Some err \<Rightarrow> Some (Some (''ip command not available: '' @ err), m\<lparr>mg_tcCapture := s2\<rparr>)
                 | None \<Rightarrow>
                     (let (r3, s3) = run_state (executeCommand host ''nsenter --version'') s2
                      in case r3 of
                           Some err \<Rightarrow> Some (Some (''nsenter not available: '' @ err), m\<lparr>mg_tcCapture := s3\<rparr>)
                         | None \<Rightarrow>
                             (let (_, s4) = run_state (executeCommand host ''ethtool --version'') s3
                              in case ListRunningContainers docker of
                                   None \<Rightarrow> None
                                 | Some (Inl err) \<Rightarrow> Some (Some (''docker not accessible: '' @ err), m\<lparr>mg_tcCapture := s4\<rparr>)
                                 | Some (Inr containers) \<Rightarrow> Some (None, m\<lparr>mg_tcCapture := s4\<rparr>)))))"

definition GetDebugInfo :: "docker \<Rightarrow> time \<Rightarrow> Manager \<Rightarrow> ((string \<times> info) list \<times> Manager) option" where
  "GetDebugInfo docker now m =
     (case Manager_GetCapturedContainers m of
        None \<Rightarrow> None
      | Some names \<Rightarrow>
          (case Manager_GetStats now m of
             None \<Rightarrow> None
           | Some (stats, m') \<Rightarrow>
               let debugInfo =
                 [(''running'', InfoBool (IsRunning m)), (''captured_containers'', InfoCaptured names),
                  (''stats'', InfoStats stats), (''timestamp'', InfoTime now), (''method'', InfoString ''traffic_control''),
                  (''bridge_ready'', InfoBool (tc_bridgeReady (mg_tcCapture m)))]
               in (case GetRunningContainers docker of
                     None \<Rightarrow> None
                   | Some (Inr containers) \<Rightarrow> Some (debugInfo @ [(''running_containers'', InfoContainers containers)], m')
                   | Some (Inl _) \<Rightarrow> Some (debugInfo, m'))))"


section \<open>Steps of the manager\<close>

text \<open>The calls of the manager's owner, the messages its event loop handles and the ticks of its statistics.\<close>

inductive manager_step :: "host \<Rightarrow> Manager \<Rightarrow> Manager \<Rightarrow> bool" for host :: host where
  m_start: "Manager_Start host docker m = Some (r, m') \<Longrightarrow> manager_step host m m'"
| m_stop: "Manager_Stop host closeErr m = Some (r, m') \<Longrightarrow> manager_step host m m'"
| m_force_start: "manager_step host m (snd (ForceStartCapture host docker i m))"
| m_force_stop: "manager_step host m (snd (ForceStopCapture host i m))"
| m_event: "processDockerEvent host docker ev (mg_tcCapture m) = Some tc \<Longrightarrow> manager_step host m (m\<lparr>mg_tcCapture := tc\<rparr>)"
| m_tick: "stats_tick now m = Some (go_on, m') \<Longrightarrow> manager_step host m m'"
| m_validate: "ValidateSetup host docker m = Some (r, m') \<Longrightarrow> manager_step host m m'"
| m_dp: "manager_step host m (SetDPConnected b m)"
| m_maps: "reorder (tc_containers (mg_tcCapture m)) C \<Longrightarrow>
    manager_step host m (m\<lparr>mg_tcCapture := (mg_tcCapture m)\<lparr>tc_containers := C\<rparr>\<rparr>)"

definition manager_inv :: "Manager \<Rightarrow> bool" where
  "manager_inv m \<longleftrightarrow> tc_inv (mg_tcCapture m) \<and>
     (cm_cancelled (mg_containerMonitor m) \<longrightarrow> \<not> tc_bridgeReady (mg_tcCapture m) \<and> tc_containers (mg_tcCapture m) = [])"

text \<open>Without a bridge and without captured containers, nothing is captured and the invariant of the capture stays.\<close>

definition dead :: "TCState \<Rightarrow> bool" where
  "dead s \<longleftrightarrow> \<not> tc_bridgeReady s \<and> tc_containers s = []"

lemma dead_ops:
  "dead s \<Longrightarrow> dead (snd (run_state (StartContainerCapture host c n pid) s))"
  "dead s \<Longrightarrow> dead (snd (run_state (StopContainerCapture host c) s))"
  by (auto simp: dead_def StartContainerCapture_def StopContainerCapture_def)

definition kept :: "host \<Rightarrow> (TCState \<Rightarrow> bool) \<Rightarrow> bool" where
  "kept host P \<longleftrightarrow> (\<forall>s. P s \<longrightarrow> (\<forall>c n pid. P (snd (run_state (StartContainerCapture host c n pid) s))) \<and>
     (\<forall>c. P (snd (run_state (StopContainerCapture host c) s))))"

lemma kept_inv: "kept host tc_inv"
  by (simp add: kept_def StartContainerCapture_inv StopContainerCapture_inv)

lemma kept_dead: "kept host dead"
  by (simp add: kept_def dead_ops)

lemma handle_keeps:
  assumes "kept host P"
  shows "handleContainerEvent host event s = Some t \<Longrightarrow> P s \<Longrightarrow> P t"
    and "processDockerEvent host docker ev s = Some t \<Longrightarrow> P s \<Longrightarrow> P t"
    and "scan_containers host docker cs s = Some t \<Longrightarrow> P s \<Longrightarrow> P t"
proof -
  show h: "handleContainerEvent host event s = Some t \<Longrightarrow> P s \<Longrightarrow> P t" for event s t
    using assms by (auto simp: kept_def handleContainerEvent_def split: option.splits if_splits)
  show "processDockerEvent host docker ev s = Some t \<Longrightarrow> P s \<Longrightarrow> P t"
    using h by (auto simp: processDockerEvent_def split: option.splits sum.splits if_splits)
  show "scan_containers host docker cs s = Some t \<Longrightarrow> P s \<Longrightarrow> P t"
    by (induction cs arbitrary: s) (auto split: if_splits sum.splits option.splits dest: h)
qed

lemma monitor_keeps:
  assumes "Monitor_Start host docker cm s = Some (r, cm', t)"
  shows "kept host P \<Longrightarrow> P s \<Longrightarrow> P t" and "cm_cancelled cm' = cm_cancelled cm" and "r = None"
  using assms
  by (auto simp: Monitor_Start_def monitorExistingContainers_def split: option.splits sum.splits dest: handle_keeps(3))

lemma Cleanup_Some:
  assumes "Cleanup host s = Some (r, t)"
  shows "tc_containers s = []" and "dead t" and "tc_prefs t = tc_prefs s" and "tc_portMap t = tc_portMap s" and "r = None"
proof -
  show C: "tc_containers s = []"
    using assms by (cases "tc_containers s") (auto simp: Cleanup_def with_mutex_def)
  let ?P = "\<lambda>u. tc_containers u = [] \<and> tc_prefs u = tc_prefs s \<and> tc_portMap u = tc_portMap s"
  have up: "valid ?P (State_Monad.update (\<lambda>s. s\<lparr>tc_bridgeReady := False\<rparr>)) (\<lambda>_ u. dead u \<and> ?P u)"
    by (rule valid_update) (simp add: dead_def)
  have "valid ?P (cleanup_bridge_state host) (\<lambda>r u. r = None \<and> dead u \<and> ?P u)"
    unfolding cleanup_bridge_state_def
    by (rule valid_bind[OF valid_calls_only], intro calls_only_intros, simp, rule valid_bind[OF valid_calls_only],
        intro calls_only_intros, simp, rule valid_bind[OF up], rule valid_return, simp)
  from validD[OF this, of s] C assms
  show "dead t" and "tc_prefs t = tc_prefs s" and "tc_portMap t = tc_portMap s" and "r = None"
    by (auto simp: Cleanup_def)
qed

lemma inv_of_dead: "tc_inv s \<Longrightarrow> tc_prefs t = tc_prefs s \<Longrightarrow> tc_portMap t = tc_portMap s \<Longrightarrow>
    tc_containers t = tc_containers s \<Longrightarrow> tc_inv t"
  by (simp add: tc_inv_def)

lemma manager_inv_alt:
  "manager_inv m \<longleftrightarrow> tc_inv (mg_tcCapture m) \<and> (cm_cancelled (mg_containerMonitor m) \<longrightarrow> dead (mg_tcCapture m))"
  by (auto simp: manager_inv_def dead_def)

lemma manager_inv_Start:
  assumes "manager_inv m" and "Manager_Start host docker m = Some (r, m')"
  shows "manager_inv m'"
proof (cases "mg_running m")
  case False
  then obtain cm tc e where s: "Monitor_Start host docker (mg_containerMonitor m) (mg_tcCapture m) = Some (e, cm, tc)"
    using assms(2) by (auto simp: Manager_Start_def split: option.splits)
  have "tc_inv tc" "cm_cancelled cm = cm_cancelled (mg_containerMonitor m)" "e = None"
    using monitor_keeps(1)[OF s kept_inv] monitor_keeps(2,3)[OF s] assms(1) by (auto simp: manager_inv_alt)
  moreover have "dead (mg_tcCapture m) \<Longrightarrow> dead tc"
    by (rule monitor_keeps(1)[OF s kept_dead])
  ultimately show ?thesis
    using assms False s by (auto simp: Manager_Start_def manager_inv_alt)
qed (use assms in \<open>simp add: Manager_Start_def\<close>)

lemma manager_inv_Stop:
  assumes "manager_inv m" and "Manager_Stop host e m = Some (r, m')"
  shows "manager_inv m'"
proof (cases "mg_running m")
  case True
  then obtain q tc where c: "Cleanup host (mg_tcCapture m) = Some (q, tc)"
    using assms(2) by (auto simp: Manager_Stop_def Let_def split: option.splits prod.splits)
  have "tc_inv tc"
    using assms(1) Cleanup_Some[OF c] by (auto simp: manager_inv_alt dead_def intro: inv_of_dead)
  with True assms(2) c Cleanup_Some(2)[OF c] show ?thesis
    by (auto simp: Manager_Stop_def Monitor_Stop_def manager_inv_alt)
qed (use assms in \<open>simp add: Manager_Stop_def\<close>)

lemma executeCommand_frame [simp]:
  "tc_containers (snd (run_state (executeCommand host cmd) s)) = tc_containers s"
  "tc_prefs (snd (run_state (executeCommand host cmd) s)) = tc_prefs s"
  "tc_portMap (snd (run_state (executeCommand host cmd) s)) = tc_portMap s"
  "tc_bridgeReady (snd (run_state (executeCommand host cmd) s)) = tc_bridgeReady s"
  by (simp_all add: executeCommand_def syscall_def)

lemma ValidateSetup_frame:
  assumes "ValidateSetup host docker m = Some (r, m')"
  shows "modc (mg_tcCapture m) (mg_tcCapture m')" and "mg_containerMonitor m' = mg_containerMonitor m"
    and "mg_running m' = mg_running m"
  using assms
  by (auto simp: ValidateSetup_def Let_def case_prod_unfold modc_def split: option.splits sum.splits)

interpretation mgr_sys: invariant_system "\<lambda>m. \<exists>h e now. NewManager host h e now = Inr m" "manager_step host" manager_inv for host
proof
  show "manager_inv m" if "\<exists>h e now. NewManager host h e now = Inr m" for m
    using that
    by (auto simp: NewManager_def NewContainerMonitor_def manager_inv_def NewTCTrafficCapture_inv split: option.splits)
  show "manager_inv m'" if inv: "manager_inv m" and "manager_step host m m'" for m m'
    using that(2)
  proof cases
    case (m_force_start docker i)
    with inv show ?thesis
      by (auto simp: ForceStartCapture_def Let_def case_prod_unfold manager_inv_alt StartContainerCapture_inv dead_ops
          split: sum.split)
  next
    case (m_force_stop i)
    with inv show ?thesis
      by (auto simp: ForceStopCapture_def Let_def case_prod_unfold manager_inv_alt StopContainerCapture_inv dead_ops)
  next
    case (m_event docker ev tc)
    with inv show ?thesis
      using handle_keeps(2)[OF kept_inv m_event(2)] handle_keeps(2)[OF kept_dead m_event(2)]
      by (simp add: manager_inv_alt)
  next
    case (m_tick now go_on)
    with inv show ?thesis
      by (auto simp: stats_tick_def updateStats_def manager_inv_def split: if_splits option.splits)
  next
    case (m_validate docker r)
    from ValidateSetup_frame[OF this] inv show ?thesis
      by (auto simp: manager_inv_alt modc_def dead_def intro: inv_of_dead)
  next
    case (m_maps C)
    with inv show ?thesis
      using tc_sys.inv_step[OF _ t_maps[OF m_maps(2)]] by (auto simp: manager_inv_alt dead_def reorder_def)
  next
    case (m_start docker r)
    then show ?thesis
      using manager_inv_Start[OF inv] by blast
  next
    case (m_stop e r)
    then show ?thesis
      using manager_inv_Stop[OF inv] by blast
  qed (use inv in \<open>simp add: SetDPConnected_def\<close>)
qed

lemma those_label: "those (map captured_label C) = (if \<forall>p \<in> set C. 12 \<le> length (fst p)
    then Some (map (\<lambda>p. ti_name (snd p) @ '' ('' @ take 12 (fst p) @ '')'') C) else None)"
  by (induction C) (auto simp: captured_label_def)


lemma Manager_Stop_None: "Manager_Stop host closeErr m = None \<longleftrightarrow> mg_running m \<and> tc_containers (mg_tcCapture m) \<noteq> []"
  by (cases "tc_containers (mg_tcCapture m)")
     (auto simp: Manager_Stop_def Monitor_Stop_def Cleanup_def with_mutex_def split: prod.split)


section \<open>Properties\<close>

text \<open>
  C27. Stopping the manager.  Stopping returns if and only if the manager is not running or captures no
  container: the clean-up of the capture waits for the mutex that it holds itself.  When it returns, the
  manager is not running and no bridge is ready any more, unless it was not running before.
\<close>

theorem manager_stop_returns_iff:
  "(Manager_Stop host closeErr m = None \<longleftrightarrow> mg_running m \<and> tc_containers (mg_tcCapture m) \<noteq> []) \<and>
   (case Manager_Stop host closeErr m of
      None \<Rightarrow> True
    | Some (r, m') \<Rightarrow> r = None \<and> \<not> IsRunning m' \<and> (if mg_running m then \<not> tc_bridgeReady (mg_tcCapture m') else m' = m))"
proof (rule conjI)
  show "case Manager_Stop host closeErr m of None \<Rightarrow> True
      | Some (r, m') \<Rightarrow> r = None \<and> \<not> IsRunning m' \<and> (if mg_running m then \<not> tc_bridgeReady (mg_tcCapture m') else m' = m)"
    using Cleanup_Some(2)[of host "mg_tcCapture m"]
    by (auto simp: Manager_Stop_def Monitor_Stop_def IsRunning_def dead_def split: option.split)
qed (auto simp: Manager_Stop_None)


text \<open>
  The statistics count the captured containers.  Asking for the statistics returns if and only if every captured container
  is recorded under an identifier of at least twelve bytes; otherwise it panics.  The count is the number of captured containers.  A capture
  that is forced under a shorter name, which the daemon accepts, makes every later request panic.
\<close>

lemma manager_stats:
  assumes "reach (\<lambda>m. \<exists>h e now. NewManager host h e now = Inr m) (manager_step host) m"
  shows "(Manager_GetStats now m \<noteq> None \<longleftrightarrow> (\<forall>i. gget (tc_containers (mg_tcCapture m)) i \<noteq> None \<longrightarrow> 12 \<le> length i)) \<and>
    (case Manager_GetStats now m of
       None \<Rightarrow> True
     | Some (stats, m') \<Rightarrow> ns_CapturedContainers stats = card (dom (gget (tc_containers (mg_tcCapture m)))) \<and>
         mg_tcCapture m' = mg_tcCapture m) \<and>
    (lists_interfaces host \<and> tc_bridgeReady (mg_tcCapture m) \<and> length i < 12 \<and> d_inspect docker i = Inr j \<and> cj_Pid j > 0 \<longrightarrow>
       Manager_GetStats now (snd (ForceStartCapture host docker i m)) = None)"
proof -
  let ?C = "tc_containers (mg_tcCapture m)"
  have wf: "gwf ?C"
    using mgr_sys.reach_inv[OF assms] by (simp add: manager_inv_def tc_inv_def)
  have stats: "Manager_GetStats now n = (if \<forall>p \<in> set (tc_containers (mg_tcCapture n)). 12 \<le> length (fst p)
      then let m' = n\<lparr>mg_stats := (mg_stats n)\<lparr>ns_CapturedContainers := length (tc_containers (mg_tcCapture n)), ns_LastUpdate := now\<rparr>\<rparr>
           in Some (mg_stats m', m') else None)" for n
    by (simp add: Manager_GetStats_def updateStats_def GetCapturedContainers_def those_label Let_def)
  have keys: "(\<forall>p \<in> set D. 12 \<le> length (fst p)) \<longleftrightarrow> (\<forall>i. gget D i \<noteq> None \<longrightarrow> 12 \<le> length i)" for D :: "(string, TCContainerInfo) gomap"
    by (auto simp: map_of_eq_None_iff)
  have "length ?C = card (dom (gget ?C))"
    using distinct_card[OF wf] by (simp add: dom_map_of_conv_image_fst)
  moreover have "Manager_GetStats now (snd (ForceStartCapture host docker i m)) = None"
    if "lists_interfaces host" "tc_bridgeReady (mg_tcCapture m)" "length i < 12" "d_inspect docker i = Inr j" "cj_Pid j > 0"
  proof -
    have "gget (tc_containers (mg_tcCapture (snd (ForceStartCapture host docker i m)))) i \<noteq> None"
      using Start_frame(4)[OF that(1,2)] that(4,5)
      by (simp add: ForceStartCapture_def Monitor_GetContainerInfo_def case_prod_unfold Let_def)
    with that(3) have "\<not> (\<forall>k. gget (tc_containers (mg_tcCapture (snd (ForceStartCapture host docker i m)))) k \<noteq> None \<longrightarrow> 12 \<le> length k)"
      using not_le by blast
    then show ?thesis
      by (simp only: stats keys if_False)
  qed
  moreover have "Manager_GetStats now m \<noteq> None \<longleftrightarrow> (\<forall>i. gget ?C i \<noteq> None \<longrightarrow> 12 \<le> length i)"
    unfolding stats keys[symmetric] by (simp add: Let_def)
  moreover have "case Manager_GetStats now m of None \<Rightarrow> True
      | Some (st, m') \<Rightarrow> ns_CapturedContainers st = length ?C \<and> mg_tcCapture m' = mg_tcCapture m"
    unfolding stats by (simp add: Let_def)
  ultimately show ?thesis
    by (simp only:) blast
qed

text \<open>A daemon that knows every name, and a new manager on the host of the examples.\<close>

definition docker2 :: docker where
  "docker2 = docker1\<lparr>d_list := Inl ''cannot connect'', d_inspect := (\<lambda>_. d_inspect docker1 ''0123456789ab'')\<rparr>"

lemma new_manager0:
  obtains m where "NewManager host0 [] None 0 = Inr m" "tc_containers (mg_tcCapture m) = []" "tc_bridgeReady (mg_tcCapture m)"
    "\<not> mg_running m"
  using NewTC_obedient[OF obedient_host0, of "[]"]
  by (auto simp: NewManager_def NewContainerMonitor_def modc_def tc_empty_def)



end
