(* ===== verification/DpClient.thy ===== *)
theory DpClient
  imports AgentTypes
begin

text \<open>
  The client of the data plane process, \<open>micro-segment/internal/agent/dp/client.go\<close>, and the agent's
  rule table, \<open>micro-segment/internal/agent/policy/network.go\<close>, which feeds it.

  The Unix socket is a parameter: the error of \<open>net.DialUnix\<close> and of each \<open>Write\<close>, and the sequence of
  outcomes of \<open>Read\<close>.  A datagram appears as what \<open>encoding/json\<close> makes of it.  An operation that writes
  returns the message it passes to \<open>Write\<close>.
\<close>

section \<open>The data plane client\<close>

record DPClient =
  dp_socketPath :: string
  dp_connected :: bool
  dp_onConnection :: bool
  dp_onThreatLog :: bool

record DPConnection =
  dc_client_ip :: ip
  dc_server_ip :: ip
  dc_client_port :: u16
  dc_server_port :: u16
  dc_ip_proto :: u8
  dc_application :: u32
  dc_bytes :: u64
  dc_sessions :: u32
  dc_first_seen_at :: u32
  dc_last_seen_at :: u32
  dc_threat_id :: u32
  dc_severity :: u8
  dc_policy_action :: u8
  dc_policy_id :: u32
  dc_ingress :: bool
  dc_external_peer :: bool
  dc_epmac :: mac

record DPThreatLog =
  dt_threat_id :: u32
  dt_severity :: u8
  dt_client_ip :: ip
  dt_server_ip :: ip
  dt_server_port :: u16
  dt_ip_proto :: u8
  dt_pkt_ingress :: bool
  dt_epmac :: mac

record DPPolicy =
  dy_id :: u32
  dy_src_ip :: ip
  dy_dst_ip :: ip
  dy_src_mask :: "u8 list"
  dy_dst_mask :: "u8 list"
  dy_port :: u16
  dy_port_mask :: u16
  dy_ip_proto :: u8
  dy_action :: u8
  dy_ingress :: bool
  dy_application :: u32

text \<open>
  A received datagram: not JSON, or a message with its type and the results of decoding its data as a
  connection and as a threat.
\<close>

record DPMessage =
  dm_type :: string
  dm_connection :: "DPConnection option"
  dm_threat :: "DPThreatLog option"

datatype dp_event = OnConnection DPConnection | OnThreatLog DPThreatLog

datatype dp_out =
    PolicyMsg "DPPolicy list"
  | AddMacMsg string string
  | DelMacMsg string
  | SubnetsMsg "string list"

definition NewDPClient :: "string \<Rightarrow> DPClient" where
  "NewDPClient socketPath =
     \<lparr>dp_socketPath = socketPath, dp_connected = False, dp_onConnection = False, dp_onThreatLog = False\<rparr>"

text \<open>\<open>Connect\<close> with the error of the dial; the second component says whether \<open>readLoop\<close> is started.\<close>

definition DP_Connect :: "string option \<Rightarrow> DPClient \<Rightarrow> string option \<times> bool \<times> DPClient" where
  "DP_Connect dial c =
     (if dp_connected c then (None, False, c)
      else case dial of
             Some err \<Rightarrow> (Some (''failed to connect to DP: '' @ err), False, c)
           | None \<Rightarrow> (None, True, c\<lparr>dp_connected := True\<rparr>))"

definition DP_Disconnect :: "DPClient \<Rightarrow> DPClient" where
  "DP_Disconnect c = (if \<not> dp_connected c then c else c\<lparr>dp_connected := False\<rparr>)"

definition DP_IsConnected :: "DPClient \<Rightarrow> bool" where
  "DP_IsConnected c = dp_connected c"

definition SetOnConnection :: "bool \<Rightarrow> DPClient \<Rightarrow> DPClient" where
  "SetOnConnection cb c = c\<lparr>dp_onConnection := cb\<rparr>"

definition SetOnThreatLog :: "bool \<Rightarrow> DPClient \<Rightarrow> DPClient" where
  "SetOnThreatLog cb c = c\<lparr>dp_onThreatLog := cb\<rparr>"

definition handleMessage :: "DPMessage option \<Rightarrow> DPClient \<Rightarrow> dp_event list" where
  "handleMessage data c =
     (case data of
        None \<Rightarrow> []
      | Some msg \<Rightarrow>
          if dm_type msg = ''connection'' then
            (if dp_onConnection c then
               (case dm_connection msg of Some conn \<Rightarrow> [OnConnection conn] | None \<Rightarrow> [])
             else [])
          else if dm_type msg = ''threat'' then
            (if dp_onThreatLog c then
               (case dm_threat msg of Some threat \<Rightarrow> [OnThreatLog threat] | None \<Rightarrow> [])
             else [])
          else [])"

text \<open>The read loop over the outcomes of \<open>Read\<close>: an error ends it and marks the client disconnected.\<close>

fun readLoop :: "(string + DPMessage option) list \<Rightarrow> DPClient \<Rightarrow> dp_event list \<times> DPClient" where
  "readLoop [] c = ([], c)"
| "readLoop (Inl err # reads) c = ([], c\<lparr>dp_connected := False\<rparr>)"
| "readLoop (Inr data # reads) c =
     (let (evs, c') = readLoop reads c in (handleMessage data c @ evs, c'))"

definition not_connected_dp :: string where
  "not_connected_dp = ''not connected to DP''"

text \<open>
  The common shape of the four senders: an error when disconnected, otherwise the message is written
  and the error of the write is returned.
\<close>

definition dp_send :: "dp_out \<Rightarrow> string option \<Rightarrow> DPClient \<Rightarrow> string option \<times> dp_out list" where
  "dp_send msg write c = (if \<not> dp_connected c then (Some not_connected_dp, []) else (write, [msg]))"

definition SendPolicy :: "DPPolicy list \<Rightarrow> string option \<Rightarrow> DPClient \<Rightarrow> string option \<times> dp_out list" where
  "SendPolicy policies write c = dp_send (PolicyMsg policies) write c"

definition AddMAC :: "mac \<Rightarrow> string \<Rightarrow> string option \<Rightarrow> DPClient \<Rightarrow> string option \<times> dp_out list" where
  "AddMAC mac workloadID write c = dp_send (AddMacMsg (MAC_String mac) workloadID) write c"

definition DelMAC :: "mac \<Rightarrow> string option \<Rightarrow> DPClient \<Rightarrow> string option \<times> dp_out list" where
  "DelMAC mac write c = dp_send (DelMacMsg (MAC_String mac)) write c"

definition ConfigSubnets :: "IPNet list \<Rightarrow> string option \<Rightarrow> DPClient \<Rightarrow> string option \<times> dp_out list" where
  "ConfigSubnets subnets write c = dp_send (SubnetsMsg (map IPNet_String subnets)) write c"

section \<open>The agent's rule table\<close>

record NetworkPolicy =
  np_rules :: "(u32, APolicyRule) gomap"

definition NewNetworkPolicy :: NetworkPolicy where
  "NewNetworkPolicy = \<lparr>np_rules = []\<rparr>"

definition NP_AddRule :: "APolicyRule \<Rightarrow> NetworkPolicy \<Rightarrow> NetworkPolicy" where
  "NP_AddRule rule p = p\<lparr>np_rules := gput (xr_id rule) rule (np_rules p)\<rparr>"

definition NP_DeleteRule :: "u32 \<Rightarrow> NetworkPolicy \<Rightarrow> NetworkPolicy" where
  "NP_DeleteRule i p = p\<lparr>np_rules := gdel i (np_rules p)\<rparr>"

definition NP_GetRule :: "NetworkPolicy \<Rightarrow> u32 \<Rightarrow> APolicyRule option" where
  "NP_GetRule p i = gget (np_rules p) i"

definition NP_ListRules :: "NetworkPolicy \<Rightarrow> APolicyRule list" where
  "NP_ListRules p = map snd (np_rules p)"

definition ruleToDPPolicy :: "APolicyRule \<Rightarrow> DPPolicy option" where
  "ruleToDPPolicy rule =
     Some \<lparr>dy_id = xr_id rule, dy_src_ip = [], dy_dst_ip = [], dy_src_mask = [], dy_dst_mask = [],
           dy_port = 0, dy_port_mask = 0, dy_ip_proto = 0, dy_action = xr_action rule,
           dy_ingress = xr_ingress rule, dy_application = 0\<rparr>"

definition syncToDP :: "string option \<Rightarrow> DPClient \<Rightarrow> NetworkPolicy \<Rightarrow> dp_out list" where
  "syncToDP write dp p =
     (if \<not> DP_IsConnected dp then []
      else snd (SendPolicy (List.map_filter (\<lambda>(_, rule). ruleToDPPolicy rule) (np_rules p)) write dp))"

definition UpdateRules :: "APolicyRule list \<Rightarrow> string option \<Rightarrow> DPClient \<Rightarrow> NetworkPolicy \<Rightarrow> NetworkPolicy \<times> dp_out list" where
  "UpdateRules rs write dp p =
     (let p' = p\<lparr>np_rules := fold (\<lambda>rule m. gput (xr_id rule) rule m) rs []\<rparr>
      in (p', syncToDP write dp p'))"

definition NP_MatchPolicy :: "NetworkPolicy \<Rightarrow> ip \<Rightarrow> ip \<Rightarrow> u16 \<Rightarrow> u8 \<Rightarrow> u32 \<times> APolicyAction" where
  "NP_MatchPolicy p srcIP dstIP dstPort proto =
     fold (\<lambda>_ r. r) (np_rules p) (0, APolicyActionViolate)"

definition NP_GetRuleCount :: "NetworkPolicy \<Rightarrow> nat" where
  "NP_GetRuleCount p = length (np_rules p)"

section \<open>Lemmas\<close>

definition np_wf :: "NetworkPolicy \<Rightarrow> bool" where
  "np_wf p \<longleftrightarrow> gwf (np_rules p) \<and> (\<forall>i r. gget (np_rules p) i = Some r \<longrightarrow> xr_id r = i)"

interpretation np_store: keyed_store np_wf NP_GetRule NP_AddRule NP_DeleteRule xr_id "\<lambda>_. True" "\<lambda>r. r"
  by unfold_locales (auto simp: np_wf_def NP_AddRule_def NP_DeleteRule_def NP_GetRule_def fun_eq_iff split: if_splits)

lemma NewNetworkPolicy_wf: "np_wf NewNetworkPolicy"
  by (simp add: np_wf_def NewNetworkPolicy_def)

lemma UpdateRules_fold: "fst (UpdateRules rs w dp p) = fold NP_AddRule rs NewNetworkPolicy"
proof -
  have "fold NP_AddRule rs \<lparr>np_rules = m\<rparr> = \<lparr>np_rules = fold (\<lambda>rule m. gput (xr_id rule) rule m) rs m\<rparr>" for m
    by (induction rs arbitrary: m) (simp_all add: NP_AddRule_def)
  then show ?thesis
    by (simp add: UpdateRules_def NewNetworkPolicy_def Let_def)
qed

lemma map_filter_all_Some: "List.map_filter (\<lambda>x. Some (f x)) xs = map f xs"
  by (induction xs) (simp_all add: List.map_filter_simps)

lemma NP_GetRule_UpdateRules:
  "NP_GetRule (fst (UpdateRules rs w dp p)) = map_of (rev (map (\<lambda>r. (xr_id r, r)) rs))"
proof -
  have "NP_GetRule NewNetworkPolicy = Map.empty"
    by (simp add: NP_GetRule_def NewNetworkPolicy_def fun_eq_iff)
  then show ?thesis
    using np_store.find_fold_add[OF NewNetworkPolicy_wf, of rs] by (simp add: UpdateRules_fold)
qed

section \<open>Properties\<close>

text \<open>Replacing the rules.  \<open>UpdateRules\<close> forgets every earlier rule: afterwards a lookup finds the
  last rule of the list with that identifier and nothing else.  If the data plane is connected it is sent
  one message with one policy per stored rule, carrying identifier, action and direction; otherwise
  nothing is sent.\<close>

lemma UpdateRules_replaces:
  "(let (p', out) = UpdateRules rs w dp p
    in NP_GetRule p' = map_of (rev (map (\<lambda>r. (xr_id r, r)) rs)) \<and>
       (if dp_connected dp
        then \<exists>ps. out = [PolicyMsg ps] \<and>
               map (\<lambda>d. (dy_id d, dy_action d, dy_ingress d)) ps =
               map (\<lambda>r. (xr_id r, xr_action r, xr_ingress r)) (NP_ListRules p')
        else out = []))"
proof -
  note NP_GetRule_UpdateRules
  moreover have "if dp_connected dp
      then \<exists>ps. snd (UpdateRules rs w dp p) = [PolicyMsg ps] \<and>
             map (\<lambda>d. (dy_id d, dy_action d, dy_ingress d)) ps =
             map (\<lambda>r. (xr_id r, xr_action r, xr_ingress r)) (NP_ListRules (fst (UpdateRules rs w dp p)))
      else snd (UpdateRules rs w dp p) = []"
    by (simp add: UpdateRules_def syncToDP_def SendPolicy_def dp_send_def DP_IsConnected_def ruleToDPPolicy_def
        map_filter_all_Some case_prod_unfold NP_ListRules_def Let_def comp_def)
  ultimately show ?thesis
    by (simp add: case_prod_unfold Let_def)
qed

text \<open>The agent's own decision ignores its rules: whatever rules are stored and whatever the
  connection is, \<open>MatchPolicy\<close> answers rule 0 and a violation; and two rules that agree on
  identifier, action and direction become the same data plane policy, whatever their endpoints, ports
  and applications are.\<close>

lemma agent_rules_not_enforced:
  "NP_MatchPolicy p src dst port proto = (0, APolicyActionViolate) \<and>
   (ruleToDPPolicy r = ruleToDPPolicy r' \<longleftrightarrow>
      (xr_id r, xr_action r, xr_ingress r) = (xr_id r', xr_action r', xr_ingress r'))"
proof -
  have "fold (\<lambda>_ r. r) xs y = y" for xs :: "(u32 \<times> APolicyRule) list" and y :: "u32 \<times> u8"
    by (induction xs) simp_all
  then show ?thesis
    by (auto simp: NP_MatchPolicy_def ruleToDPPolicy_def)
qed

text \<open>C37. The read loop delivers the messages in order up to the first read error, and then reports the
  client as disconnected, so that no later message is delivered and every sender fails without
  writing.\<close>

theorem readLoop_until_error:
  "(let (evs, c') = readLoop (map Inr ms @ Inl err # rest) c
    in evs = concat (map (\<lambda>m. handleMessage m c) ms) \<and> \<not> DP_IsConnected c' \<and>
       SendPolicy ps w c' = (Some not_connected_dp, []) \<and> AddMAC mac wl w c' = (Some not_connected_dp, []) \<and>
       DelMAC mac w c' = (Some not_connected_dp, []) \<and> ConfigSubnets ns w c' = (Some not_connected_dp, []))"
  by (induction ms) (simp_all add: DP_IsConnected_def SendPolicy_def AddMAC_def DelMAC_def ConfigSubnets_def
      dp_send_def Let_def case_prod_unfold)

end
