(* ===== verification/AgentEngine.thy ===== *)
theory AgentEngine
  imports Aggregator DpClient GrpcClient
begin

text \<open>
  The agent engine, \<open>micro-segment/internal/agent/engine/engine.go\<close>, which connects the data plane
  client, the aggregator, the rule table and the controller client.

  The controller is the state \<open>'w\<close> behind the remote calls of \<open>GrpcClient\<close>.  The two callbacks of the
  aggregator are the engine's \<open>onConnections\<close> and \<open>onThreatLogs\<close>; one tick of the aggregator's timer
  is \<open>tick\<close>.  The fields \<open>host\<close> and \<open>agentInfo\<close> are never assigned in the source and are left out, as
  is the untyped \<open>NetworkManager\<close> of the configuration, which nothing reads.
\<close>

section \<open>Model\<close>

record Config =
  cf_agentID :: string
  cf_hostID :: string
  cf_hostName :: string
  cf_dpSocketPath :: string
  cf_grpcAddr :: string

record AgentEngine =
  en_config :: Config
  en_aggregator :: Aggregator
  en_dpClient :: DPClient
  en_grpcClient :: Client
  en_policy :: NetworkPolicy
  en_workloads :: "(string, AWorkload) gomap"
  en_hostIPs :: "(string, bool) gomap"
  en_subnets :: "(string, Subnet) gomap"
  en_defaultPolicyMode :: APolicyMode
  en_running :: bool
  en_stopped :: bool

definition Eng_NewEngine :: "Config \<Rightarrow> AgentEngine" where
  "Eng_NewEngine config =
     \<lparr>en_config = config,
      en_aggregator = SetOnThreatLogs True (SetOnConnections True (NewAggregator (cf_agentID config) (cf_hostID config))),
      en_dpClient = NewDPClient (cf_dpSocketPath config),
      en_grpcClient = NewClient (cf_grpcAddr config) (cf_agentID config) (cf_hostID config) (cf_hostName config) ''0.1.0'',
      en_policy = NewNetworkPolicy,
      en_workloads = [], en_hostIPs = [], en_subnets = [], en_defaultPolicyMode = APolicyModeMonitor,
      en_running = False, en_stopped = False\<rparr>"

text \<open>\<open>Start\<close>, with the errors of the two dials; it returns no error.\<close>

definition Eng_Start ::
  "('w, pbAgentInfo, pbRegisterResponse) rpc \<Rightarrow> string option \<Rightarrow> string option \<Rightarrow> 'w \<Rightarrow> AgentEngine \<Rightarrow> 'w \<times> AgentEngine" where
  "Eng_Start register dpDial grpcDial w e =
     (let (_, _, dp1) = DP_Connect dpDial (en_dpClient e);
          dp2 = SetOnThreatLog True (SetOnConnection True dp1);
          (err, cl1) = Client_Connect grpcDial (en_grpcClient e);
          (w', cl2) = (case err of
                         Some _ \<Rightarrow> (w, cl1)
                       | None \<Rightarrow> (let (_, w1, c1) = Client_Register register w cl1 in (w1, c1)))
      in (w', e\<lparr>en_dpClient := dp2, en_grpcClient := cl2, en_aggregator := Aggregator_Start (en_aggregator e), en_running := True\<rparr>))"

text \<open>\<open>Stop\<close>; closing one of the stop channels a second time panics.\<close>

definition Eng_Stop :: "AgentEngine \<Rightarrow> AgentEngine option" where
  "Eng_Stop e =
     (if en_stopped e then None
      else case Aggregator_Stop (en_aggregator e) of
             None \<Rightarrow> None
           | Some agg \<Rightarrow>
               (case Client_Disconnect (en_grpcClient e) of
                  None \<Rightarrow> None
                | Some cl \<Rightarrow>
                    Some (e\<lparr>en_running := False, en_stopped := True, en_aggregator := agg,
                            en_dpClient := DP_Disconnect (en_dpClient e), en_grpcClient := cl\<rparr>)))"

definition onConnections ::
  "('w, pbConnectionReport, pbReportResponse) rpc \<Rightarrow> AConnection list \<Rightarrow> 'w \<Rightarrow> AgentEngine \<Rightarrow> 'w" where
  "onConnections call conns w e =
     (if Client_IsConnected (en_grpcClient e) then snd (Client_ReportConnections call conns w (en_grpcClient e)) else w)"

definition onThreatLogs ::
  "('w, pbThreatReport, pbReportResponse) rpc \<Rightarrow> AThreatLog list \<Rightarrow> 'w \<Rightarrow> AgentEngine \<Rightarrow> 'w" where
  "onThreatLogs call logs w e =
     (if Client_IsConnected (en_grpcClient e) then snd (Client_ReportThreats call logs w (en_grpcClient e)) else w)"

definition dp_to_agent :: "DPConnection \<Rightarrow> AConnection" where
  "dp_to_agent conn =
     \<lparr>xc_agent_id = '''', xc_host_id = '''', xc_client_wl = '''', xc_server_wl = '''',
      xc_client_ip = dc_client_ip conn, xc_server_ip = dc_server_ip conn,
      xc_client_port = dc_client_port conn, xc_server_port = dc_server_port conn,
      xc_ip_proto = dc_ip_proto conn, xc_application = dc_application conn,
      xc_bytes = dc_bytes conn, xc_sessions = dc_sessions conn, xc_violates = 0,
      xc_first_seen_at = dc_first_seen_at conn, xc_last_seen_at = dc_last_seen_at conn,
      xc_threat_id = dc_threat_id conn, xc_severity = dc_severity conn,
      xc_policy_action = dc_policy_action conn, xc_policy_id = dc_policy_id conn,
      xc_ingress = dc_ingress conn, xc_external_peer = dc_external_peer conn, xc_local_peer = False,
      xc_scope = '''', xc_network = ''''\<rparr>"

definition onDPConnection :: "DPConnection \<Rightarrow> AgentEngine \<Rightarrow> AgentEngine" where
  "onDPConnection conn e =
     e\<lparr>en_aggregator := AddConnection \<lparr>cd_epmac = dc_epmac conn, cd_conn = dp_to_agent conn\<rparr> (en_aggregator e)\<rparr>"

definition severityToString :: "u8 \<Rightarrow> string" where
  "severityToString severity =
     (if severity = 1 then ''Low'' else if severity = 2 then ''Medium''
      else if severity = 3 then ''High'' else if severity = 4 then ''Critical'' else ''Info'')"

definition onDPThreatLog :: "time \<Rightarrow> DPThreatLog \<Rightarrow> AgentEngine \<Rightarrow> AgentEngine" where
  "onDPThreatLog now threat e =
     (let agentThreat =
        \<lparr>xt_id = '''', xt_threat_id = dt_threat_id threat, xt_threat_name = '''',
         xt_severity = severityToString (dt_severity threat), xt_client_wl = '''', xt_server_wl = '''',
         xt_client_ip = dt_client_ip threat, xt_server_ip = dt_server_ip threat,
         xt_server_port = dt_server_port threat, xt_ip_proto = dt_ip_proto threat,
         xt_pkt_ingress = dt_pkt_ingress threat, xt_local_peer = False, xt_host_id = '''', xt_host_name = '''',
         xt_agent_id = '''', xt_agent_name = '''', xt_workload_id = '''', xt_workload_name = '''',
         xt_reported_at = now\<rparr>
      in e\<lparr>en_aggregator := AddThreatLog (dt_epmac threat) agentThreat (en_aggregator e)\<rparr>)"

text \<open>Delivery of a data plane event, and one tick of the aggregator with its callbacks.\<close>

definition deliver :: "time \<Rightarrow> dp_event \<Rightarrow> AgentEngine \<Rightarrow> AgentEngine" where
  "deliver now ev e =
     (case ev of OnConnection conn \<Rightarrow> onDPConnection conn e | OnThreatLog threat \<Rightarrow> onDPThreatLog now threat e)"

definition tick ::
  "('w, pbThreatReport, pbReportResponse) rpc \<Rightarrow> ('w, pbConnectionReport, pbReportResponse) rpc \<Rightarrow>
   'w \<Rightarrow> AgentEngine \<Rightarrow> 'w \<times> AgentEngine" where
  "tick tcall ccall w e =
     (let (threats, conns, agg) = flush (en_aggregator e);
          w1 = (case threats of Some logs \<Rightarrow> onThreatLogs tcall logs w e | None \<Rightarrow> w);
          w2 = (case conns of Some cs \<Rightarrow> onConnections ccall cs w1 e | None \<Rightarrow> w1)
      in (w2, e\<lparr>en_aggregator := agg\<rparr>))"

definition Eng_AddWorkload :: "AWorkload \<Rightarrow> AgentEngine \<Rightarrow> AgentEngine" where
  "Eng_AddWorkload wl e = e\<lparr>en_workloads := gput (xw_id wl) wl (en_workloads e)\<rparr>"

definition Eng_RemoveWorkload :: "string \<Rightarrow> AgentEngine \<Rightarrow> AgentEngine" where
  "Eng_RemoveWorkload i e =
     (case gget (en_workloads e) i of
        Some wl \<Rightarrow> e\<lparr>en_workloads := gdel i (en_workloads e)\<rparr>
      | None \<Rightarrow> e)"

definition Eng_GetWorkload :: "AgentEngine \<Rightarrow> string \<Rightarrow> AWorkload option" where
  "Eng_GetWorkload e i = gget (en_workloads e) i"

definition Eng_ListWorkloads :: "AgentEngine \<Rightarrow> AWorkload list" where
  "Eng_ListWorkloads e = map snd (en_workloads e)"

definition UpdatePolicies :: "APolicyRule list \<Rightarrow> string option \<Rightarrow> AgentEngine \<Rightarrow> AgentEngine \<times> dp_out list" where
  "UpdatePolicies rs write e =
     (let (p, out) = UpdateRules rs write (en_dpClient e) (en_policy e) in (e\<lparr>en_policy := p\<rparr>, out))"

definition SetDefaultPolicyMode :: "APolicyMode \<Rightarrow> AgentEngine \<Rightarrow> AgentEngine" where
  "SetDefaultPolicyMode mode e = e\<lparr>en_defaultPolicyMode := mode\<rparr>"

definition GetDefaultPolicyMode :: "AgentEngine \<Rightarrow> APolicyMode" where
  "GetDefaultPolicyMode e = en_defaultPolicyMode e"

definition IsLocalIP :: "AgentEngine \<Rightarrow> ip \<Rightarrow> bool" where
  "IsLocalIP e a = gbool (en_hostIPs e) (IP_String a)"

definition IsInternalIP :: "AgentEngine \<Rightarrow> ip \<Rightarrow> bool" where
  "IsInternalIP e a =
     (if IsLoopback a then True
      else list_ex (\<lambda>(_, subnet). IPNet_Contains (sn_subnet subnet) a) (en_subnets e))"

definition UpdateSubnets ::
  "(string, Subnet) gomap \<Rightarrow> string option \<Rightarrow> AgentEngine \<Rightarrow> AgentEngine \<times> dp_out list" where
  "UpdateSubnets subnets write e =
     (e\<lparr>en_subnets := subnets\<rparr>,
      snd (ConfigSubnets (map (\<lambda>(_, subnet). sn_subnet subnet) subnets) write (en_dpClient e)))"

datatype stat = StatInt nat | StatBool bool | StatString string

definition Eng_GetStats :: "AgentEngine \<Rightarrow> (string \<times> stat) list" where
  "Eng_GetStats e =
     [(''workloads'', StatInt (length (en_workloads e))),
      (''policies'', StatInt (NP_GetRuleCount (en_policy e))),
      (''connections'', StatInt (GetConnectionCount (en_aggregator e))),
      (''max_connections'', StatInt GetMaxConnections),
      (''dp_connected'', StatBool (DP_IsConnected (en_dpClient e))),
      (''default_mode'', StatString (en_defaultPolicyMode e))]"

section \<open>Workloads of the engine\<close>

definition eng_wf :: "AgentEngine \<Rightarrow> bool" where
  "eng_wf e \<longleftrightarrow> gwf (en_workloads e) \<and> (\<forall>i w. gget (en_workloads e) i = Some w \<longrightarrow> xw_id w = i)"

interpretation eng_store: keyed_store eng_wf Eng_GetWorkload Eng_AddWorkload Eng_RemoveWorkload xw_id "\<lambda>_. True" "\<lambda>w. w"
  by unfold_locales
     (auto simp: eng_wf_def Eng_AddWorkload_def Eng_RemoveWorkload_def Eng_GetWorkload_def fun_eq_iff
       split: if_splits option.splits)

section \<open>Steps of the agent\<close>

text \<open>
  The steps of a running agent together with the far side \<open>'w\<close> of its remote calls: data plane events,
  timer ticks, start and stop, and the calls on the engine.
\<close>

inductive agent_step ::
  "('w, pbAgentInfo, pbRegisterResponse) rpc \<Rightarrow> ('w, pbThreatReport, pbReportResponse) rpc \<Rightarrow>
   ('w, pbConnectionReport, pbReportResponse) rpc \<Rightarrow>
   'w \<times> AgentEngine \<Rightarrow> 'w \<times> AgentEngine \<Rightarrow> bool"
  for rcall :: "('w, pbAgentInfo, pbRegisterResponse) rpc"
    and tcall :: "('w, pbThreatReport, pbReportResponse) rpc"
    and ccall :: "('w, pbConnectionReport, pbReportResponse) rpc" where
  a_deliver: "agent_step rcall tcall ccall (w, e) (w, deliver now ev e)"
| a_tick: "agent_step rcall tcall ccall (w, e) (tick tcall ccall w e)"
| a_add_wl: "agent_step rcall tcall ccall (w, e) (w, Eng_AddWorkload wl e)"
| a_del_wl: "agent_step rcall tcall ccall (w, e) (w, Eng_RemoveWorkload i e)"
| a_policies: "agent_step rcall tcall ccall (w, e) (w, fst (UpdatePolicies rs wr e))"
| a_mode: "agent_step rcall tcall ccall (w, e) (w, SetDefaultPolicyMode m e)"
| a_subnets: "agent_step rcall tcall ccall (w, e) (w, fst (UpdateSubnets sn wr e))"
| a_start: "agent_step rcall tcall ccall (w, e) (Eng_Start rcall dpDial grpcDial w e)"
| a_stop: "Eng_Stop e = Some e' \<Longrightarrow> agent_step rcall tcall ccall (w, e) (w, e')"
| a_maps: "reorder (connectionMap (en_aggregator e)) m \<Longrightarrow>
    agent_step rcall tcall ccall (w, e) (w, e\<lparr>en_aggregator := (en_aggregator e)\<lparr>connectionMap := m\<rparr>\<rparr>)"

text \<open>Every connection the aggregator holds has empty workload names.\<close>

definition nameless :: "AConnection \<Rightarrow> bool" where
  "nameless c \<longleftrightarrow> xc_client_wl c = '''' \<and> xc_server_wl c = ''''"

definition map_nameless :: "(string, AConnection) gomap \<Rightarrow> bool" where
  "map_nameless m \<longleftrightarrow> gwf m \<and> (\<forall>k c. gget m k = Some c \<longrightarrow> nameless c)"

definition agg_nameless :: "Aggregator \<Rightarrow> bool" where
  "agg_nameless a \<longleftrightarrow> map_nameless (connectionMap a) \<and> (\<forall>d \<in> set (connsCache a). nameless (cd_conn d))"

lemma nameless_merge: "nameless e \<Longrightarrow> nameless (merge_entry e c)"
  by (simp add: nameless_def merge_entry_def Let_def)

lemma nameless_update: "map_nameless m \<Longrightarrow> nameless c \<Longrightarrow> map_nameless (updateConnectionMap c m)"
  by (auto simp: map_nameless_def updateConnectionMap_def Let_def nameless_merge split: option.splits)

lemma nameless_fold: "map_nameless m \<Longrightarrow> \<forall>c \<in> set cs. nameless c \<Longrightarrow> map_nameless (fold updateConnectionMap cs m)"
  by (induction cs arbitrary: m) (simp_all add: nameless_update)

lemma nameless_set: "map_nameless m \<longleftrightarrow> gwf m \<and> (\<forall>p \<in> set m. nameless (snd p))"
  unfolding map_nameless_def by (rule conj_cong[OF refl]) (auto simp: gget_iff_mem)

lemma nameless_drop: "map_nameless m \<Longrightarrow> map_nameless (drop n m)"
  unfolding nameless_set by (auto simp flip: drop_map dest: in_set_dropD)

lemma nameless_flush:
  assumes "agg_nameless a"
  shows "agg_nameless (snd (snd (flush a)))" and "\<forall>c \<in> set (reported (fst (snd (flush a)))). nameless c"
proof -
  let ?m = "fold updateConnectionMap (map (stamp a) (connsCache a)) (connectionMap a)"
  have m: "map_nameless ?m"
    using assms by (intro nameless_fold) (simp_all add: agg_nameless_def stamp_def nameless_def)
  then have wf: "gwf ?m"
    by (simp add: map_nameless_def)
  show "agg_nameless (snd (snd (flush a)))"
    using nameless_drop[OF m] wf by (simp add: snd_flush putConnections_eq agg_nameless_def)
  show "\<forall>c \<in> set (reported (fst (snd (flush a)))). nameless c"
    using m wf by (auto simp: snd_flush putConnections_eq reported_def nameless_set dest: in_set_takeD)
qed

lemma agg_nameless_ops:
  "agg_nameless a \<Longrightarrow> nameless (cd_conn d) \<Longrightarrow> agg_nameless (AddConnection d a)"
  "agg_nameless a \<Longrightarrow> agg_nameless (AddThreatLog m t a)"
  "agg_nameless (SetOnThreatLogs True (SetOnConnections True (NewAggregator i h)))"
  by (auto simp: agg_nameless_def AddConnection_def AddThreatLog_def SetOnThreatLogs_def SetOnConnections_def
      NewAggregator_def map_nameless_def)

lemma reorder_nameless: "map_nameless m \<Longrightarrow> reorder m m' \<Longrightarrow> map_nameless m'"
  unfolding nameless_set reorder_def by (metis mset_eq_imp_distinct_iff mset_eq_setD mset_map)

definition agent_inv :: "'w \<times> AgentEngine \<Rightarrow> bool" where
  "agent_inv s \<longleftrightarrow> agg_nameless (en_aggregator (snd s)) \<and> en_hostIPs (snd s) = [] \<and> eng_wf (snd s)"

lemma agent_inv_new: "agent_inv (w, Eng_NewEngine cfg)"
  by (simp add: agent_inv_def Eng_NewEngine_def agg_nameless_ops eng_wf_def)

interpretation agent_sys: invariant_system "\<lambda>s. \<exists>w cfg. s = (w, Eng_NewEngine cfg)" "agent_step rcall tcall ccall" agent_inv
  for rcall :: "('w, pbAgentInfo, pbRegisterResponse) rpc" and tcall :: "('w, pbThreatReport, pbReportResponse) rpc" and ccall
proof
  show "agent_inv t" if inv: "agent_inv s" and "agent_step rcall tcall ccall s t" for s t :: "'w \<times> AgentEngine"
    using that(2)
  proof cases
    case (a_deliver w e now ev)
    with inv show ?thesis
      by (cases ev) (simp_all add: agent_inv_def deliver_def onDPConnection_def onDPThreatLog_def Let_def
          agg_nameless_ops nameless_def dp_to_agent_def eng_wf_def)
  next
    case (a_tick w e)
    with inv nameless_flush(1)[of "en_aggregator e"] show ?thesis
      by (simp add: agent_inv_def tick_def Let_def case_prod_unfold eng_wf_def)
  next
    case (a_add_wl w e wl)
    with inv eng_store.inv_add[of e wl] show ?thesis
      by (simp add: agent_inv_def Eng_AddWorkload_def)
  next
    case (a_del_wl w e i)
    with inv eng_store.inv_remove[of e i] show ?thesis
      by (simp add: agent_inv_def Eng_RemoveWorkload_def split: option.splits)
  next
    case (a_start w e dpDial grpcDial)
    with inv show ?thesis
      by (simp add: agent_inv_def Eng_Start_def Let_def case_prod_unfold Aggregator_Start_def agg_nameless_def eng_wf_def
          split: option.split)
  next
    case (a_stop e e' w)
    with inv show ?thesis
      by (auto simp: agent_inv_def Eng_Stop_def Aggregator_Stop_def agg_nameless_def eng_wf_def
          split: if_splits option.splits)
  next
    case (a_maps e m w)
    then have "map_nameless (connectionMap (en_aggregator e)) \<Longrightarrow> map_nameless m"
      by (blast intro: reorder_nameless)
    with a_maps inv show ?thesis
      by (simp add: agent_inv_def agg_nameless_def eng_wf_def)
  qed (use inv in \<open>simp_all add: agent_inv_def eng_wf_def UpdatePolicies_def SetDefaultPolicyMode_def UpdateSubnets_def
      Let_def case_prod_unfold\<close>)
qed (auto simp: agent_inv_new)

section \<open>Properties\<close>

text \<open>Internal addresses.  An address counts as internal exactly when it is a loopback address or lies
  in one of the configured subnets, in whatever order the subnet map is visited; the host's own
  addresses are never recorded, so in every reachable engine no address counts as local.\<close>

lemma address_classes:
  assumes "reach (\<lambda>s. \<exists>w cfg. s = (w, Eng_NewEngine cfg)) (agent_step rcall tcall ccall) (w, e)" and "gwf (en_subnets e)"
  shows "(IsInternalIP e a \<longleftrightarrow>
      IsLoopback a \<or> (\<exists>k sn. gget (en_subnets e) k = Some sn \<and> IPNet_Contains (sn_subnet sn) a)) \<and>
    \<not> IsLocalIP e a"
proof -
  have "en_hostIPs e = []"
    using agent_sys.reach_inv[OF assms(1)] by (simp add: agent_inv_def)
  with assms(2) show ?thesis
    by (auto simp: IsInternalIP_def IsLocalIP_def gbool_def list_ex_iff gget_iff_mem)
qed

definition cfg0 :: Config where
  "cfg0 = \<lparr>cf_agentID = ''a1'', cf_hostID = ''h1'', cf_hostName = ''node'', cf_dpSocketPath = ''/var/run/dp.sock'',
     cf_grpcAddr = ''localhost:18400''\<rparr>"

definition subnet0 :: Subnet where
  "subnet0 = \<lparr>sn_subnet = \<lparr>net_ip = [10, 0, 0, 0], net_mask = [255, 0, 0, 0]\<rparr>, sn_scope = ''local''\<rparr>"

lemmas agent_reach_step = reach_step[where step = "agent_step rcall tcall ccall" for rcall tcall ccall]


text \<open>The agent never names the workloads of a connection: in every reachable state, the next tick
  reports only connections whose client and server workload are the empty string, and every data
  plane field of a connection reaches the aggregator unchanged.\<close>

lemma agent_reports_nameless:
  assumes "reach (\<lambda>s. \<exists>w cfg. s = (w, Eng_NewEngine cfg)) (agent_step rcall tcall ccall) (w, e)"
    and "flush (en_aggregator e) = (threats, conns, agg)"
  shows "(\<forall>c \<in> set (reported conns). xc_client_wl c = '''' \<and> xc_server_wl c = '''') \<and>
    (\<exists>d. connsCache (en_aggregator (onDPConnection x e)) = connsCache (en_aggregator e) @ [d] \<and>
       (xc_client_ip (cd_conn d), xc_server_ip (cd_conn d), xc_server_port (cd_conn d), xc_bytes (cd_conn d), xc_policy_action (cd_conn d)) =
       (dc_client_ip x, dc_server_ip x, dc_server_port x, dc_bytes x, dc_policy_action x))"
proof -
  have "agg_nameless (en_aggregator e)"
    using agent_sys.reach_inv[OF assms(1)] by (simp add: agent_inv_def)
  from nameless_flush(2)[OF this] assms(2) show ?thesis
    by (simp add: nameless_def onDPConnection_def AddConnection_def dp_to_agent_def)
qed

definition dconn0 :: DPConnection where
  "dconn0 = \<lparr>dc_client_ip = [10, 0, 0, 1], dc_server_ip = [10, 0, 0, 2], dc_client_port = 40000, dc_server_port = 80,
     dc_ip_proto = 6, dc_application = 0, dc_bytes = 100, dc_sessions = 1, dc_first_seen_at = 0, dc_last_seen_at = 0,
     dc_threat_id = 0, dc_severity = 0, dc_policy_action = 1, dc_policy_id = 7, dc_ingress = True,
     dc_external_peer = False, dc_epmac = []\<rparr>"

lemma reach_dconn0:
  "reach (\<lambda>s. \<exists>w cfg. s = (w, Eng_NewEngine cfg)) (agent_step rcall tcall ccall) (w, onDPConnection dconn0 (Eng_NewEngine cfg0))"
proof -
  have "reach (\<lambda>s. \<exists>w cfg. s = (w, Eng_NewEngine cfg)) (agent_step rcall tcall ccall) (w, Eng_NewEngine cfg0)"
    by (rule reach_init) blast
  moreover have "agent_step rcall tcall ccall (w, Eng_NewEngine cfg0) (w, deliver 0 (OnConnection dconn0) (Eng_NewEngine cfg0))"
    by (rule a_deliver)
  ultimately show ?thesis
    using agent_reach_step by (fastforce simp: deliver_def)
qed


end
