(* ===== verification/AgentProcess.thy ===== *)
theory AgentProcess
  imports NetManager AgentEngine
begin

text \<open>
  The agent process, \<open>micro-segment/cmd/agent/main.go\<close>: it creates, validates and starts the network manager, creates and
  starts the engine, waits for a signal and stops the two in this order.  Command line and logging are left out;
  the flag \<open>enable-capture\<close> and the configuration are arguments, and so are the answers of the daemon at
  each stage.  \<open>None\<close> is a panic or a call that never returns, \<open>Inl\<close> the exit of the process with an error.
\<close>

section \<open>Model\<close>

record AgentProcess =
  ap_networkManager :: "Manager option"
  ap_engine :: AgentEngine

text \<open>The network manager that the process keeps; a failed validation or start disables the capture.\<close>

definition init_manager ::
  "host \<Rightarrow> call list \<Rightarrow> string option \<Rightarrow> docker \<Rightarrow> docker \<Rightarrow> time \<Rightarrow> bool \<Rightarrow> (string + Manager option) option" where
  "init_manager host h clientErr docker docker' now enableCapture =
     (if \<not> enableCapture then Some (Inr None)
      else case NewManager host h clientErr now of
             Inl err \<Rightarrow> Some (Inl err)
           | Inr m \<Rightarrow>
               (case ValidateSetup host docker m of
                  None \<Rightarrow> None
                | Some (Some _, _) \<Rightarrow> Some (Inr None)
                | Some (None, m1) \<Rightarrow>
                    (case Manager_Start host docker' m1 of
                       None \<Rightarrow> None
                     | Some (Some _, _) \<Rightarrow> Some (Inr None)
                     | Some (None, m2) \<Rightarrow> Some (Inr (Some m2)))))"

definition agent_main ::
  "host \<Rightarrow> call list \<Rightarrow> string option \<Rightarrow> docker \<Rightarrow> docker \<Rightarrow> time \<Rightarrow> bool \<Rightarrow> Config \<Rightarrow>
   ('w, pbAgentInfo, pbRegisterResponse) rpc \<Rightarrow> string option \<Rightarrow> string option \<Rightarrow> 'w \<Rightarrow> (string + ('w \<times> AgentProcess)) option" where
  "agent_main host h clientErr docker docker' now enableCapture config register dpDial grpcDial w =
     (case init_manager host h clientErr docker docker' now enableCapture of
        None \<Rightarrow> None
      | Some (Inl err) \<Rightarrow> Some (Inl err)
      | Some (Inr networkManager) \<Rightarrow>
          (let (w', eng) = Eng_Start register dpDial grpcDial w (Eng_NewEngine config)
           in Some (Inr (w', \<lparr>ap_networkManager = networkManager, ap_engine = eng\<rparr>))))"

definition agent_shutdown :: "host \<Rightarrow> string option \<Rightarrow> AgentProcess \<Rightarrow> AgentProcess option" where
  "agent_shutdown host closeErr p =
     (case (case ap_networkManager p of
              None \<Rightarrow> Some None
            | Some m \<Rightarrow> map_option (\<lambda>(_, m'). Some m') (Manager_Stop host closeErr m)) of
        None \<Rightarrow> None
      | Some networkManager \<Rightarrow>
          map_option (\<lambda>eng. \<lparr>ap_networkManager = networkManager, ap_engine = eng\<rparr>) (Eng_Stop (ap_engine p)))"

text \<open>\<open>data[:len(data)-1]\<close> drops the line break of the file and panics on an empty file.\<close>

definition getHostID :: "string option \<Rightarrow> string \<Rightarrow> string option" where
  "getHostID machineID uuid =
     (case machineID of
        Some data \<Rightarrow> if data = '''' then None else Some (butlast data)
      | None \<Rightarrow> Some uuid)"


section \<open>Start and shutdown\<close>

lemma running_events_Some: "\<forall>c \<in> set cs. well_listed c \<Longrightarrow> \<exists>es. running_events docker cs = Some es"
  by (induction cs) (auto simp: well_listed_def listed_event_def split: sum.split list.split)

lemma obedient_lists: "obedient host x \<Longrightarrow> lists_interfaces host"
  unfolding obedient_def lists_interfaces_def by blast

lemma obedient_executeCommand:
  assumes "obedient host x"
  shows "fst (run_state (executeCommand host cmd) s) = None"
  using validD[OF obedient_command[OF assms, of s cmd] modc_refl] by simp

lemma ValidateSetup_obedient:
  assumes "obedient host x" and "d_list docker = Inr cs" and "\<forall>c \<in> set cs. well_listed c"
  shows "\<exists>m'. ValidateSetup host docker m = Some (None, m')"
proof -
  obtain es where "running_events docker cs = Some es"
    using running_events_Some[OF assms(3)] by blast
  then have "ListRunningContainers docker = Some (Inr es)"
    by (simp add: ListRunningContainers_def assms(2))
  then show ?thesis
    by (simp add: ValidateSetup_def case_prod_unfold Let_def obedient_executeCommand[OF assms(1)])
qed

text \<open>After the start of the process the captured containers are those that the scan selects.\<close>

lemma init_manager_obedient:
  assumes "obedient host x" and "d_list docker = Inr cs" and "\<forall>c \<in> set cs. well_listed c"
    and "d_list docker' = Inr cs'" and "\<forall>c \<in> set cs'. well_listed c"
  shows "\<exists>m. init_manager host h None docker docker' now True = Some (Inr (Some m)) \<and> mg_running m \<and>
    dom (gget (tc_containers (mg_tcCapture m))) = cs_ID ` {c \<in> set cs'. to_capture docker' c}"
proof -
  obtain m where m: "NewManager host h None now = Inr m" "mg_tcCapture m = NewTCTrafficCapture host h" "\<not> mg_running m"
    by (simp add: NewManager_def NewContainerMonitor_def)
  obtain m1 where m1: "ValidateSetup host docker m = Some (None, m1)"
    using ValidateSetup_obedient[OF assms(1-3)] by blast
  have tc: "tc_bridgeReady (mg_tcCapture m1)" "tc_containers (mg_tcCapture m1) = []" "\<not> mg_running m1"
    using ValidateSetup_frame[OF m1] m NewTC_obedient[OF assms(1), of h] by (auto simp: modc_def tc_empty_def)
  obtain t where t: "scan_containers host docker' cs' (mg_tcCapture m1) = Some t"
      "captured_ids t = captured_ids (mg_tcCapture m1) \<union> cs_ID ` {c \<in> set cs'. to_capture docker' c}"
    using scan_captures[OF obedient_lists[OF assms(1)] tc(1) assms(5)] by blast
  then have "\<exists>m2. Manager_Start host docker' m1 = Some (None, m2) \<and> mg_tcCapture m2 = t \<and> mg_running m2"
    using tc(3) by (simp add: Manager_Start_def Monitor_Start_def monitorExistingContainers_def assms(4))
  then show ?thesis
    using m(1) m1 t(2) tc(2) by (auto simp: init_manager_def)
qed

lemma Eng_Stop_started: "\<exists>e. Eng_Stop (snd (Eng_Start register dpDial grpcDial w (Eng_NewEngine config))) = Some e \<and> \<not> en_running e"
  by (auto simp: Eng_Stop_def Eng_Start_def Eng_NewEngine_def Aggregator_Stop_def Aggregator_Start_def Client_Disconnect_def
      Client_Connect_def Client_Register_def NewClient_def start_heartbeat_def NewAggregator_def SetOnThreatLogs_def SetOnConnections_def
      Let_def case_prod_unfold split: option.split sum.split)

section \<open>Properties\<close>


lemma pick_blocked:
  "\<exists>w p. A w p \<and> (f p \<noteq> None \<longleftrightarrow> Q) \<and> R p \<Longrightarrow> \<not> Q \<Longrightarrow> \<exists>w p. A w p \<and> f p = None"
  by auto


end
