(* ===== verification/NfqCapture.thy ===== *)
theory NfqCapture
  imports TcCapture
begin

text \<open>
  Traffic capture by iptables queues, \<open>micro-segment/internal/agent/network/traffic_capture.go\<close>, the older of the two
  capture components.  The host and the history of calls are those of \<open>TcCapture\<close>; the answer of
  \<open>net.InterfaceByName\<close>, which reads the hardware address in the namespace of the agent, is the argument \<open>byName\<close>.

  The theory shows that the rules a capture installs are never recorded with the container, so that
  stopping the capture removes none of them.
\<close>

section \<open>Model\<close>

record IfaceInfo =
  if_name :: string
  if_mac :: mac
  if_ips :: "ip list"
  if_peer :: string
  if_inHost :: bool

record ContainerNetInfo =
  ni_id :: string
  ni_name :: string
  ni_pid :: int
  ni_interfaces :: "(string, IfaceInfo) gomap"
  ni_rules :: "string list"

record TrafficCapture =
  nf_containers :: "(string, ContainerNetInfo) gomap"
  nf_nfqueueNum :: int
  nf_dpConnected :: bool

record NfqState = TrafficCapture +
  nf_calls :: "call list"

type_synonym 'a nfq = "(NfqState, 'a) state"

definition NV_INPUT_CHAIN :: string where "NV_INPUT_CHAIN = ''NV_INPUT''"
definition NV_OUTPUT_CHAIN :: string where "NV_OUTPUT_CHAIN = ''NV_OUTPUT''"
definition DEFAULT_NFQUEUE_NUM :: int where "DEFAULT_NFQUEUE_NUM = 0"

definition nfq_syscall :: "host \<Rightarrow> call \<Rightarrow> (string + string) nfq" where
  "nfq_syscall host c = do {
     s \<leftarrow> State_Monad.get;
     State_Monad.set (s\<lparr>nf_calls := nf_calls s @ [c]\<rparr>);
     State_Monad.return (host (nf_calls s) c)
   }"

definition Nfq_executeCommand :: "host \<Rightarrow> string \<Rightarrow> string option nfq" where
  "Nfq_executeCommand host command = do {
     r \<leftarrow> nfq_syscall host (Sh command);
     State_Monad.return (case r of Inl err \<Rightarrow> Some err | Inr _ \<Rightarrow> None)
   }"

definition chain_commands :: "string list" where
  "chain_commands =
     [''iptables -t filter -N '' @ NV_INPUT_CHAIN @ '' 2>/dev/null || true'',
      ''iptables -t filter -N '' @ NV_OUTPUT_CHAIN @ '' 2>/dev/null || true'',
      ''iptables -t filter -C INPUT -j '' @ NV_INPUT_CHAIN @ '' 2>/dev/null || iptables -t filter -I INPUT -j '' @ NV_INPUT_CHAIN,
      ''iptables -t filter -C OUTPUT -j '' @ NV_OUTPUT_CHAIN @ '' 2>/dev/null || iptables -t filter -I OUTPUT -j '' @ NV_OUTPUT_CHAIN,
      ''iptables -t filter -A '' @ NV_INPUT_CHAIN @ '' -j RETURN 2>/dev/null || true'',
      ''iptables -t filter -A '' @ NV_OUTPUT_CHAIN @ '' -j RETURN 2>/dev/null || true'']"

definition initIptablesChains :: "host \<Rightarrow> string option nfq" where
  "initIptablesChains host = do {
     each (\<lambda>cmd. Nfq_executeCommand host cmd) chain_commands;
     State_Monad.return None
   }"

definition NewTrafficCapture :: "host \<Rightarrow> call list \<Rightarrow> NfqState" where
  "NewTrafficCapture host h =
     snd (run_state (initIptablesChains host)
       \<lparr>nf_containers = [], nf_nfqueueNum = DEFAULT_NFQUEUE_NUM, nf_dpConnected = False, nf_calls = h\<rparr>)"

definition Nfq_getInterfaceMAC :: "(string \<Rightarrow> string + mac) \<Rightarrow> string \<Rightarrow> string + mac" where
  "Nfq_getInterfaceMAC byName ifaceName = byName ifaceName"

definition parseNetworkInterfaces :: "(string \<Rightarrow> string + mac) \<Rightarrow> string \<Rightarrow> IfaceInfo list" where
  "parseNetworkInterfaces byName output =
     List.map_filter
       (\<lambda>line. let line = TrimSpace line; parts = Split line '': ''
               in if Contains line '': '' \<and> \<not> HasPrefix line '' '' \<and> 2 \<le> length parts
                  then (let ifaceName = hd (Split (parts ! 1) ''@'')
                        in Some \<lparr>if_name = ifaceName,
                                 if_mac = (case Nfq_getInterfaceMAC byName ifaceName of Inr mac \<Rightarrow> mac | Inl _ \<Rightarrow> []),
                                 if_ips = [], if_peer = '''', if_inHost = False\<rparr>)
                  else None)
       (Split output ''\<newline>'')"

definition ips_of_lines :: "string list \<Rightarrow> ip list" where
  "ips_of_lines ls =
     List.map_filter
       (\<lambda>line. let line = TrimSpace line; parts = Fields line
               in if HasPrefix line ''inet '' \<and> 2 \<le> length parts
                  then (let ip = ParseIP (hd (Split (parts ! 1) ''/'')) in if ip \<noteq> [] then Some ip else None)
                  else None) ls"

definition getInterfaceIPs :: "host \<Rightarrow> int \<Rightarrow> string \<Rightarrow> (string + ip list) nfq" where
  "getInterfaceIPs host pid ifaceName = do {
     r \<leftarrow> nfq_syscall host (ShOutput (nsenter pid @ ''ip addr show '' @ ifaceName));
     State_Monad.return (case r of Inl err \<Rightarrow> Inl err | Inr output \<Rightarrow> Inr (ips_of_lines (Split output ''\<newline>'')))
   }"

primrec collect_interfaces :: "host \<Rightarrow> IfaceInfo list \<Rightarrow> ContainerNetInfo \<Rightarrow> ContainerNetInfo nfq" where
  "collect_interfaces host [] netInfo = State_Monad.return netInfo"
| "collect_interfaces host (iface # ifaces) netInfo =
     (if if_name iface = ''lo'' then collect_interfaces host ifaces netInfo
      else do {
        r \<leftarrow> getInterfaceIPs host (ni_pid netInfo) (if_name iface);
        collect_interfaces host ifaces
          (netInfo\<lparr>ni_interfaces := gput (if_name iface)
             (iface\<lparr>if_ips := (case r of Inl _ \<Rightarrow> [] | Inr ips \<Rightarrow> ips)\<rparr>) (ni_interfaces netInfo)\<rparr>)
      })"

definition getContainerNetworkInfo ::
  "host \<Rightarrow> (string \<Rightarrow> string + mac) \<Rightarrow> string \<Rightarrow> string \<Rightarrow> int \<Rightarrow> (string + ContainerNetInfo) nfq" where
  "getContainerNetworkInfo host byName containerID containerName pid = do {
     r \<leftarrow> nfq_syscall host (ShOutput (nsenter pid @ ''ip link show''));
     (case r of
        Inl err \<Rightarrow> State_Monad.return (Inl (''failed to get container interfaces: '' @ err))
      | Inr output \<Rightarrow> do {
          netInfo \<leftarrow> collect_interfaces host (parseNetworkInterfaces byName output)
            \<lparr>ni_id = containerID, ni_name = containerName, ni_pid = pid, ni_interfaces = [], ni_rules = []\<rparr>;
          State_Monad.return (Inr netInfo)
        })
   }"

definition nfq_rules :: "int \<Rightarrow> string \<Rightarrow> int \<Rightarrow> string list" where
  "nfq_rules pid ifaceName num =
     [nsenter pid @ ''iptables -I '' @ NV_INPUT_CHAIN @ '' -i '' @ ifaceName @ '' -j NFQUEUE --queue-num '' @ show_int num @ '' --queue-bypass'',
      nsenter pid @ ''iptables -I '' @ NV_OUTPUT_CHAIN @ '' -o '' @ ifaceName @ '' -j NFQUEUE --queue-num '' @ show_int num @ '' --queue-bypass'']"

text \<open>The rule is saved with the captured container whose identifier is the name of the interface, if there is one.\<close>

definition save_rule :: "string \<Rightarrow> string \<Rightarrow> NfqState \<Rightarrow> NfqState" where
  "save_rule name rule s =
     (case gget (nf_containers s) name of
        Some netInfo \<Rightarrow> s\<lparr>nf_containers := gput name (netInfo\<lparr>ni_rules := ni_rules netInfo @ [rule]\<rparr>) (nf_containers s)\<rparr>
      | None \<Rightarrow> s)"

primrec run_rules :: "host \<Rightarrow> string \<Rightarrow> string list \<Rightarrow> string option nfq" where
  "run_rules host name [] = State_Monad.return None"
| "run_rules host name (rule # rules) = do {
     r \<leftarrow> Nfq_executeCommand host rule;
     (case r of
        Some err \<Rightarrow> State_Monad.return (Some (''failed to execute rule '' @ rule @ '': '' @ err))
      | None \<Rightarrow> do { State_Monad.update (save_rule name rule); run_rules host name rules })
   }"

definition setupNFQueueRules :: "host \<Rightarrow> string \<Rightarrow> IfaceInfo \<Rightarrow> int \<Rightarrow> string option nfq" where
  "setupNFQueueRules host ifaceName iface pid = do {
     s \<leftarrow> State_Monad.get;
     run_rules host (if_name iface) (nfq_rules pid ifaceName (nf_nfqueueNum s))
   }"

definition Nfq_StartContainerCapture ::
  "host \<Rightarrow> (string \<Rightarrow> string + mac) \<Rightarrow> string \<Rightarrow> string \<Rightarrow> int \<Rightarrow> string option nfq" where
  "Nfq_StartContainerCapture host byName containerID containerName pid = do {
     r \<leftarrow> getContainerNetworkInfo host byName containerID containerName pid;
     (case r of
        Inl err \<Rightarrow> State_Monad.return (Some (''failed to get container network info: '' @ err))
      | Inr netInfo \<Rightarrow> do {
          each (\<lambda>(ifaceName, iface). setupNFQueueRules host ifaceName iface pid) (ni_interfaces netInfo);
          State_Monad.update (\<lambda>s. s\<lparr>nf_containers := gput containerID netInfo (nf_containers s)\<rparr>);
          State_Monad.return None
        })
   }"

definition Nfq_StopContainerCapture :: "host \<Rightarrow> string \<Rightarrow> string option nfq" where
  "Nfq_StopContainerCapture host containerID = do {
     s \<leftarrow> State_Monad.get;
     (case gget (nf_containers s) containerID of
        None \<Rightarrow> State_Monad.return (Some (''container '' @ containerID @ '' not found''))
      | Some netInfo \<Rightarrow> do {
          each (\<lambda>rule. Nfq_executeCommand host (Replace1 (Replace1 rule ''-I '' ''-D '') ''-A '' ''-D '')) (ni_rules netInfo);
          State_Monad.update (\<lambda>s. s\<lparr>nf_containers := gdel containerID (nf_containers s)\<rparr>);
          State_Monad.return None
        })
   }"

definition Nfq_SetDPConnected :: "bool \<Rightarrow> NfqState \<Rightarrow> NfqState" where
  "Nfq_SetDPConnected connected s = s\<lparr>nf_dpConnected := connected\<rparr>"

text \<open>Slicing an identifier shorter than twelve bytes panics (\<open>None\<close>).\<close>

definition nfq_label :: "string \<times> ContainerNetInfo \<Rightarrow> string option" where
  "nfq_label p =
     (if length (fst p) < 12 then None else Some (ni_name (snd p) @ '' ('' @ take 12 (fst p) @ '')''))"

definition Nfq_GetCapturedContainers :: "NfqState \<Rightarrow> string list option" where
  "Nfq_GetCapturedContainers s = those (map nfq_label (nf_containers s))"

definition cleanup_commands :: "string list" where
  "cleanup_commands =
     [''iptables -t filter -D INPUT -j '' @ NV_INPUT_CHAIN @ '' 2>/dev/null || true'',
      ''iptables -t filter -D OUTPUT -j '' @ NV_OUTPUT_CHAIN @ '' 2>/dev/null || true'',
      ''iptables -t filter -F '' @ NV_INPUT_CHAIN @ '' 2>/dev/null || true'',
      ''iptables -t filter -F '' @ NV_OUTPUT_CHAIN @ '' 2>/dev/null || true'',
      ''iptables -t filter -X '' @ NV_INPUT_CHAIN @ '' 2>/dev/null || true'',
      ''iptables -t filter -X '' @ NV_OUTPUT_CHAIN @ '' 2>/dev/null || true'']"

text \<open>
  \<open>Cleanup\<close> holds the mutex while it calls \<open>StopContainerCapture\<close>, which locks it again: with a captured
  container it never returns (\<open>None\<close>).
\<close>

primrec nfq_stop_all :: "bool \<Rightarrow> host \<Rightarrow> string list \<Rightarrow> NfqState \<Rightarrow> NfqState option" where
  "nfq_stop_all held host [] s = Some s"
| "nfq_stop_all held host (i # is) s =
     (if held then None else nfq_stop_all held host is (snd (run_state (Nfq_StopContainerCapture host i) s)))"

definition Nfq_Cleanup :: "host \<Rightarrow> NfqState \<Rightarrow> (string option \<times> NfqState) option" where
  "Nfq_Cleanup host s =
     (case nfq_stop_all True host (map fst (nf_containers s)) s of
        None \<Rightarrow> None
      | Some s' \<Rightarrow> Some (None, snd (run_state (each (\<lambda>cmd. Nfq_executeCommand host cmd) cleanup_commands) s')))"


section \<open>Rules of a capture\<close>

definition nfq_logged :: "call \<Rightarrow> NfqState \<Rightarrow> bool" where
  "nfq_logged c s \<longleftrightarrow> c \<in> set (nf_calls s)"

lemma nfq_logged_command [triple]: "valid (nfq_logged c) (Nfq_executeCommand host cmd) (\<lambda>_. nfq_logged c)"
  by (auto simp: valid_def Nfq_executeCommand_def nfq_syscall_def nfq_logged_def)

lemma save_rule_frame [simp]:
  "nf_calls (save_rule n r s) = nf_calls s" "nf_nfqueueNum (save_rule n r s) = nf_nfqueueNum s"
  by (simp_all add: save_rule_def split: option.split)

lemma nfq_logged_save [triple]: "valid (nfq_logged c) (State_Monad.update (save_rule n r)) (\<lambda>_. nfq_logged c)"
  by (rule valid_update) (simp add: nfq_logged_def)

lemma nfq_logged_rules: "valid (nfq_logged c) (run_rules host n rs) (\<lambda>_. nfq_logged c)"
proof (induction rs)
  case (Cons r rs)
  show ?case
    unfolding run_rules.simps
    by (intro valid_bind[OF nfq_logged_command] valid_case_option valid_return valid_bind[OF nfq_logged_save] Cons.IH)
qed (simp add: valid_return)

text \<open>On a host on which commands succeed, every rule is issued.\<close>

definition obeys :: "host \<Rightarrow> bool" where
  "obeys host \<longleftrightarrow> (\<forall>h cmd. \<exists>out. host h (Sh cmd) = Inr out)"

lemma run_rules_issues:
  assumes "obeys host" and "r \<in> set rs"
  shows "valid P (run_rules host n rs) (\<lambda>_. nfq_logged (Sh r))"
  using assms(2)
proof (induction rs arbitrary: P)
  case (Cons q rs)
  have exec: "valid P (Nfq_executeCommand host q) (\<lambda>a s. a = None \<and> nfq_logged (Sh q) s)"
  proof (rule validI)
    fix s :: NfqState
    obtain out where "host (nf_calls s) (Sh q) = Inr out"
      using assms(1) unfolding obeys_def by blast
    then show "fst (run_state (Nfq_executeCommand host q) s) = None \<and> nfq_logged (Sh q) (snd (run_state (Nfq_executeCommand host q) s))"
      by (simp add: Nfq_executeCommand_def nfq_syscall_def nfq_logged_def)
  qed
  have rest: "valid (nfq_logged (Sh q)) (do { State_Monad.update (save_rule n q); run_rules host n rs }) (\<lambda>_. nfq_logged (Sh r))"
  proof (cases "r = q")
    case True
    then show ?thesis
      by (auto intro: valid_bind[OF nfq_logged_save] nfq_logged_rules)
  next
    case False
    then show ?thesis
      using Cons by (auto intro: valid_bind[OF nfq_logged_save])
  qed
  have "valid (\<lambda>s. a = None \<and> nfq_logged (Sh q) s)
      (case a of None \<Rightarrow> do { State_Monad.update (save_rule n q); run_rules host n rs }
       | Some err \<Rightarrow> State_Monad.return (Some (''failed to execute rule '' @ q @ '': '' @ err))) (\<lambda>_. nfq_logged (Sh r))" for a
    by (rule valid_fact) (simp add: rest)
  from valid_bind[OF exec this] show ?case
    by simp
qed simp

text \<open>What is kept besides: the queue number.\<close>

definition queue :: "int \<Rightarrow> NfqState \<Rightarrow> bool" where
  "queue k s \<longleftrightarrow> nf_nfqueueNum s = k"

lemma queue_syscall: "valid (queue k) (nfq_syscall host c) (\<lambda>_. queue k)"
  by (simp add: valid_def nfq_syscall_def queue_def)

lemma queue_rules: "valid (queue k) (run_rules host n rs) (\<lambda>_. queue k)"
proof (induction rs)
  case (Cons r rs)
  have "valid (queue k) (State_Monad.update (save_rule n r)) (\<lambda>_. queue k)"
    by (rule valid_update) (simp add: queue_def)
  then show ?case
    unfolding run_rules.simps Nfq_executeCommand_def
    by (intro valid_bind[OF valid_bind[OF queue_syscall valid_return]] valid_case_option valid_return
        valid_bind[where R = "\<lambda>_. queue k"] Cons.IH) auto
qed (simp add: valid_return)

lemma setup_issues:
  assumes "obeys host" and "r \<in> set (nfq_rules pid n k)"
  shows "valid (queue k) (setupNFQueueRules host n iface pid) (\<lambda>_ s. queue k s \<and> nfq_logged (Sh r) s)"
    and "valid (\<lambda>s. queue k s \<and> nfq_logged c s) (setupNFQueueRules host m iface pid) (\<lambda>_ s. queue k s \<and> nfq_logged c s)"
    and "valid (queue k) (setupNFQueueRules host m iface pid) (\<lambda>_. queue k)"
proof -
  have both: "valid P m (\<lambda>_ s. Q s \<and> R s)" if "valid P m (\<lambda>_. Q)" "valid P m (\<lambda>_. R)" for P Q R and m :: "'x nfq"
    using that by (simp add: valid_def)
  have pre: "valid P m Q" if "valid P' m Q" "\<And>s. P s \<Longrightarrow> P' s" for P P' Q and m :: "'x nfq"
    using that by (rule valid_pre)
  show "valid (queue k) (setupNFQueueRules host n iface pid) (\<lambda>_ s. queue k s \<and> nfq_logged (Sh r) s)"
    unfolding setupNFQueueRules_def
    by (rule valid_get)
       (rule both, rule pre[OF queue_rules], simp, rule run_rules_issues[OF assms(1)], use assms(2) in \<open>simp add: queue_def\<close>)
  show "valid (\<lambda>s. queue k s \<and> nfq_logged c s) (setupNFQueueRules host m iface pid) (\<lambda>_ s. queue k s \<and> nfq_logged c s)"
    unfolding setupNFQueueRules_def
    by (rule valid_get) (rule both, rule pre[OF queue_rules], simp, rule pre[OF nfq_logged_rules], simp)
  show "valid (queue k) (setupNFQueueRules host m iface pid) (\<lambda>_. queue k)"
    unfolding setupNFQueueRules_def
    by (rule valid_get) (rule pre[OF queue_rules], simp)
qed

lemma each_issues:
  assumes "obeys host" and "r \<in> set (nfq_rules pid x k)" and "x \<in> fst ` set js"
  shows "valid (queue k) (each (\<lambda>(n, iface). setupNFQueueRules host n iface pid) js) (\<lambda>_. nfq_logged (Sh r))"
  using assms(3)
proof (induction js)
  case (Cons p js)
  obtain n iface where p: "p = (n, iface)" by (cases p)
  note queued = setup_issues[OF assms(1,2)]
  show ?case
  proof (cases "n = x")
    case True
    have "valid (\<lambda>s. queue k s \<and> nfq_logged (Sh r) s) (each (\<lambda>(n, iface). setupNFQueueRules host n iface pid) js)
        (\<lambda>_ s. queue k s \<and> nfq_logged (Sh r) s)"
      by (rule valid_each) (simp add: case_prod_unfold queued(2))
    then have "valid (\<lambda>s. queue k s \<and> nfq_logged (Sh r) s) (each (\<lambda>(n, iface). setupNFQueueRules host n iface pid) js)
        (\<lambda>_. nfq_logged (Sh r))"
      by (rule valid_post) simp
    with queued(1)[of iface] show ?thesis
      unfolding p True each.simps prod.case by (rule valid_bind)
  next
    case False
    with Cons show ?thesis
      unfolding p each.simps prod.case by (intro valid_bind[OF queued(3)]) (auto simp: p)
  qed
qed simp

lemma collect_result:
  "valid (queue k) (collect_interfaces host js ni)
     (\<lambda>ni' s. (ni_rules ni' = ni_rules ni \<and> ni_pid ni' = ni_pid ni \<and>
        fst ` set (ni_interfaces ni') = fst ` set (ni_interfaces ni) \<union> (if_name ` set js - {''lo''})) \<and> queue k s)"
proof (induction js arbitrary: ni)
  case Nil
  show ?case
    by (simp add: valid_return)
next
  case (Cons i js)
  have ips: "valid (queue k) (getInterfaceIPs host pid n) (\<lambda>_. queue k)" for pid n
    unfolding getInterfaceIPs_def by (intro valid_bind[OF queue_syscall] valid_return)
  have keys: "fst ` set (gput n v m) = insert n (fst ` set m)" for n :: string and v :: IfaceInfo and m
    by (simp add: dom_update)
  show ?case
  proof (cases "if_name i = ''lo''")
    case True
    with Cons.IH[of ni] show ?thesis
      by simp
  next
    case False
    then show ?thesis
      unfolding collect_interfaces.simps if_not_P[OF False]
      by (intro valid_bind[OF ips] valid_post[OF Cons.IH]) (auto simp: keys)
  qed
qed

lemma map_of_map_filter: "map g (List.map_filter f xs) = List.map_filter (\<lambda>x. map_option g (f x)) xs"
  by (induction xs) (simp_all add: map_filter_simps split: option.split)

lemma interface_names: "map if_name (parseNetworkInterfaces byName out) = parse_ifaces out"
  unfolding parseNetworkInterfaces_def parse_ifaces_def line_iface_def map_of_map_filter
  by (rule arg_cong[where f = "\<lambda>f. List.map_filter f _"]) (auto simp: fun_eq_iff Let_def)

lemma info_result:
  assumes "host (nf_calls s) (ShOutput (nsenter pid @ ''ip link show'')) = Inr out"
  shows "\<exists>ni t. run_state (getContainerNetworkInfo host byName c n pid) s = (Inr ni, t) \<and> ni_rules ni = [] \<and>
    fst ` set (ni_interfaces ni) = set (parse_ifaces out) - {''lo''} \<and> queue (nf_nfqueueNum s) t"
proof -
  let ?ni = "\<lparr>ni_id = c, ni_name = n, ni_pid = pid, ni_interfaces = [], ni_rules = []\<rparr>"
  let ?s = "s\<lparr>nf_calls := nf_calls s @ [ShOutput (nsenter pid @ ''ip link show'')]\<rparr>"
  let ?is = "parseNetworkInterfaces byName out"
  obtain ni t where t: "run_state (collect_interfaces host ?is ?ni) ?s = (ni, t)"
    by fastforce
  have q: "queue (nf_nfqueueNum s) ?s"
    by (simp add: queue_def)
  have names: "if_name ` set ?is = set (parse_ifaces out)"
    by (metis interface_names set_map)
  have run: "run_state (getContainerNetworkInfo host byName c n pid) s = (Inr ni, t)"
    by (simp add: getContainerNetworkInfo_def nfq_syscall_def assms t)
  have "ni_rules ni = ni_rules ?ni \<and> fst ` set (ni_interfaces ni) = fst ` set (ni_interfaces ?ni) \<union> (if_name ` set ?is - {''lo''}) \<and>
      queue (nf_nfqueueNum s) t"
    using validD[where s = ?s, OF collect_result[of "nf_nfqueueNum s" host ?is ?ni] q] unfolding t fst_conv snd_conv
    by (elim conjE, intro conjI)
  with run show ?thesis
    by (intro exI[of _ ni] exI[of _ t]) (simp add: names)
qed

section \<open>Properties\<close>

text \<open>
  C40. The iptables rules of a capture are not removed.  When the interfaces of a container can be
  listed and commands succeed, a capture issues both queue rules for every interface but the loopback, whatever
  the state was before; the rules recorded with the container are empty, and stopping the capture right
  afterwards forgets the container without issuing a command.
\<close>

theorem nfq_rules_leak:
  assumes "\<forall>h cmd. \<exists>out. host h (Sh cmd) = Inr out" and "host (nf_calls s) (ShOutput (nsenter pid @ ''ip link show'')) = Inr out"
    and "x \<in> set (parse_ifaces out)" and "x \<noteq> ''lo''" and "r \<in> set (nfq_rules pid x (nf_nfqueueNum s))"
  shows "\<exists>t ni. run_state (Nfq_StartContainerCapture host byName c n pid) s = (None, t) \<and>
    gget (nf_containers t) c = Some ni \<and> ni_rules ni = [] \<and> Sh r \<in> set (nf_calls t) \<and>
    (\<exists>u. run_state (Nfq_StopContainerCapture host c) t = (None, u) \<and>
       gget (nf_containers u) c = None \<and> nf_calls u = nf_calls t)"
proof -
  have ob: "obeys host"
    using assms(1) by (simp add: obeys_def)
  obtain ni s1 where info: "run_state (getContainerNetworkInfo host byName c n pid) s = (Inr ni, s1)"
      and ni: "ni_rules ni = []" "fst ` set (ni_interfaces ni) = set (parse_ifaces out) - {''lo''}" "queue (nf_nfqueueNum s) s1"
    using info_result[where host = host and s = s and pid = pid, OF assms(2), of byName c n] by blast
  have x: "x \<in> fst ` set (ni_interfaces ni)"
    using ni(2) assms(3,4) by simp
  let ?s2 = "snd (run_state (each (\<lambda>(m, iface). setupNFQueueRules host m iface pid) (ni_interfaces ni)) s1)"
  have "Sh r \<in> set (nf_calls ?s2)"
    using validD[OF each_issues[OF ob assms(5) x] ni(3)] by (simp add: nfq_logged_def)
  then show ?thesis
    using ni(1) info by (simp add: Nfq_StartContainerCapture_def Nfq_StopContainerCapture_def case_prod_unfold)
qed

text \<open>A host with one interface in every container.\<close>

theorem nfq_rules_leak_witness:
  "\<exists>t u. run_state (Nfq_StartContainerCapture (\<lambda>h c. Inr ''2: eth0@if3: <UP> mtu 1500'') (\<lambda>_. Inl ''no such interface'')
        ''0123456789ab'' ''web'' 42) (NewTrafficCapture (\<lambda>h c. Inr '''') []) = (None, t) \<and>
     Sh (hd (nfq_rules 42 ''eth0'' (nf_nfqueueNum (NewTrafficCapture (\<lambda>h c. Inr '''') [])))) \<in> set (nf_calls t) \<and>
     run_state (Nfq_StopContainerCapture (\<lambda>h c. Inr ''2: eth0@if3: <UP> mtu 1500'') ''0123456789ab'') t = (None, u) \<and>
     nf_calls u = nf_calls t"
proof -
  have x: "''eth0'' \<in> set (parse_ifaces ''2: eth0@if3: <UP> mtu 1500'')"
    by code_simp
  have r: "hd (nfq_rules 42 ''eth0'' k) \<in> set (nfq_rules 42 ''eth0'' k)" for k
    by (simp add: nfq_rules_def)
  have h: "\<forall>h cmd. \<exists>out. (Inr ''2: eth0@if3: <UP> mtu 1500'' :: string + string) = Inr out"
    by blast
  show ?thesis
    using nfq_rules_leak[where host = "\<lambda>h c. Inr ''2: eth0@if3: <UP> mtu 1500''", OF h refl x _ r,
        of "\<lambda>_. Inl ''no such interface''" "''0123456789ab''" "''web''"]
    by blast
qed

end
