(* ===== verification/DpUtils.thy ===== *)
theory DpUtils
  imports Prelude
begin

text \<open>
  Helpers of the C data plane (\<open>internal/dp/utils\<close>): serial-number arithmetic on 32-bit sequence
  numbers, the hash of the lock-free tables, and accesses to C arrays.

  An access outside the bounds of an array is undefined behaviour in C.  The models return
  \<open>None\<close> for it, so that a theorem that a routine returns a value also says that every access it
  makes is in bounds.
\<close>

unbundle bit_operations_syntax

named_theorems serial_simps \<open>sequence number comparisons as integer comparisons\<close>

section \<open>C arrays\<close>

definition aget :: "'a list \<Rightarrow> int \<Rightarrow> 'a option" where
  "aget xs i = (if 0 \<le> i \<and> i < int (length xs) then Some (xs ! nat i) else None)"

definition aset :: "'a list \<Rightarrow> int \<Rightarrow> 'a \<Rightarrow> 'a list option" where
  "aset xs i v = (if 0 \<le> i \<and> i < int (length xs) then Some (xs[nat i := v]) else None)"

lemma aget_in [simp]: "0 \<le> i \<Longrightarrow> i < int (length xs) \<Longrightarrow> aget xs i = Some (xs ! nat i)"
  by (simp add: aget_def)

lemma aset_in [simp]: "0 \<le> i \<Longrightarrow> i < int (length xs) \<Longrightarrow> aset xs i v = Some (xs[nat i := v])"
  by (simp add: aset_def)

section \<open>Lists and bits\<close>

lemma find_app: "find P (xs @ ys) = (case find P xs of Some x \<Rightarrow> Some x | None \<Rightarrow> find P ys)"
  by (induction xs) auto

lemma drop_bit_zero_bits:
  fixes w :: "'a::len word"
  assumes "drop_bit n w = 0"
  shows "\<not> bit w (n + k)"
proof -
  have "bit (drop_bit n w) k = bit (0 :: 'a word) k" using assms by simp
  then show ?thesis by (simp add: bit_simps)
qed

lemma and_1_bit:
  fixes w :: "'a::len word"
  shows "w AND 1 = (if bit w 0 then 1 else 0)"
  by (rule bit_word_eqI) (auto simp: bit_simps intro: gr0I)

lemma unat_Suc_less:
  fixes s m :: "'a::len word"
  assumes "s < m"
  shows "unat (s + 1) = unat s + 1"
proof -
  have "unat s + 1 \<le> unat m" using assms by (simp add: word_less_nat_alt)
  also have "unat m < 2 ^ LENGTH('a)" by simp
  finally show ?thesis by (simp add: unat_word_ariths)
qed

section \<open>Sequence numbers (helper.h)\<close>

definition u32_distance :: "u32 \<Rightarrow> u32 \<Rightarrow> u32" where
  "u32_distance u1 u2 = u2 - u1"

definition u32_lt :: "u32 \<Rightarrow> u32 \<Rightarrow> bool" where
  "u32_lt u1 u2 \<longleftrightarrow> sint (u1 - u2) < 0"

definition u32_lte :: "u32 \<Rightarrow> u32 \<Rightarrow> bool" where
  "u32_lte u1 u2 \<longleftrightarrow> sint (u1 - u2) \<le> 0"

definition u32_gt :: "u32 \<Rightarrow> u32 \<Rightarrow> bool" where
  "u32_gt u1 u2 \<longleftrightarrow> sint (u1 - u2) > 0"

definition u32_gte :: "u32 \<Rightarrow> u32 \<Rightarrow> bool" where
  "u32_gte u1 u2 \<longleftrightarrow> sint (u1 - u2) \<ge> 0"

definition u32_between :: "u32 \<Rightarrow> u32 \<Rightarrow> u32 \<Rightarrow> bool" where
  "u32_between u u1 u2 \<longleftrightarrow> u2 - u1 > u - u1"

definition u32_overlap :: "u32 \<Rightarrow> u32 \<Rightarrow> u32 \<Rightarrow> u32 \<Rightarrow> bool" where
  "u32_overlap u1 u2 u3 u4 \<longleftrightarrow> u1 < u4 \<and> u2 > u3"

text \<open>
  The distance of a sequence number from a base.  On a window of less than half the number space
  the four comparisons order sequence numbers by that distance; outside it they are not even
  transitive.
\<close>

definition off :: "u32 \<Rightarrow> u32 \<Rightarrow> int" where
  "off b x = uint (x - b)"

lemma off_range: "0 \<le> off b x" "off b x < 2 ^ 32"
  using uint_bounded[of "x - b"] by (simp_all add: off_def)

lemma off_inject: "off b x = off b y \<longleftrightarrow> x = y"
  by (simp add: off_def word_uint_eq_iff[symmetric])

lemma off_add: "off b x + uint n < 2 ^ 32 \<Longrightarrow> off b (x + n) = off b x + uint n"
proof -
  assume "off b x + uint n < 2 ^ 32"
  moreover have "off b (x + n) = (uint (x - b) + uint n) mod 2 ^ 32"
    unfolding off_def by (subst diff_add_eq[symmetric]) (subst uint_word_ariths(1), simp)
  ultimately show ?thesis
    by (simp add: off_def)
qed

lemma sint_small:
  fixes x :: u32
  assumes "uint x < 2 ^ 31"
  shows "sint x = uint x"
  unfolding sint_uint
proof (rule signed_take_bit_int_eq_self)
  show "- (2 ^ (LENGTH(32) - Suc 0)) \<le> uint x"
    by (rule order_trans[of _ 0]) simp_all
  show "uint x < 2 ^ (LENGTH(32) - Suc 0)"
    using assms by simp
qed

lemma sint_diff_small:
  fixes x y :: u32
  assumes "uint x < 2 ^ 31" and "uint y < 2 ^ 31"
  shows "sint (x - y) = uint x - uint y"
  unfolding sint_word_ariths sint_small[OF assms(1)] sint_small[OF assms(2)]
proof (rule signed_take_bit_int_eq_self)
  have "- (2 ^ 31) \<le> a - c \<and> a - c < 2 ^ 31" if "0 \<le> a" "0 \<le> c" "a < 2 ^ 31" "c < 2 ^ 31" for a c :: int
    using that by simp
  from this[OF uint_ge_0 uint_ge_0 assms]
  show "- (2 ^ (LENGTH(32) - 1)) \<le> uint x - uint y" "uint x - uint y < 2 ^ (LENGTH(32) - 1)"
    by simp_all
qed

lemma sint_diff_window:
  assumes "off b x < 2 ^ 31" and "off b y < 2 ^ 31"
  shows "sint (x - y) = off b x - off b y"
proof -
  have "x - y = (x - b) - (y - b)" by simp
  then show ?thesis
    using sint_diff_small[of "x - b" "y - b"] assms unfolding off_def by argo
qed

lemma u32_lt_window [serial_simps]:
  "off b x < 2 ^ 31 \<Longrightarrow> off b y < 2 ^ 31 \<Longrightarrow> u32_lt x y \<longleftrightarrow> off b x < off b y"
  by (simp add: u32_lt_def sint_diff_window)

lemma u32_lte_window [serial_simps]:
  "off b x < 2 ^ 31 \<Longrightarrow> off b y < 2 ^ 31 \<Longrightarrow> u32_lte x y \<longleftrightarrow> off b x \<le> off b y"
  by (simp add: u32_lte_def sint_diff_window)

lemma u32_gt_window [serial_simps]:
  "off b x < 2 ^ 31 \<Longrightarrow> off b y < 2 ^ 31 \<Longrightarrow> u32_gt x y \<longleftrightarrow> off b y < off b x"
  by (simp add: u32_gt_def sint_diff_window)

lemma u32_gte_window [serial_simps]:
  "off b x < 2 ^ 31 \<Longrightarrow> off b y < 2 ^ 31 \<Longrightarrow> u32_gte x y \<longleftrightarrow> off b y \<le> off b x"
  by (simp add: u32_gte_def sint_diff_window)

text \<open>\<open>u32_between\<close> is the half-open interval, on the whole number space.\<close>

lemma u32_between_off: "u32_between u u1 u2 \<longleftrightarrow> off u1 u < off u1 u2"
  by (simp add: u32_between_def off_def word_less_def)

section \<open>Byte order\<close>

text \<open>
  \<open>htonl\<close> and \<open>ntohl\<close> of a little-endian host.  Addresses are kept in network byte order, as in the
  packet headers and the control messages; the code swaps them before it compares ranges.
\<close>

definition ntohl :: "u32 \<Rightarrow> u32" where
  "ntohl x = push_bit 24 (take_bit 8 x) OR push_bit 16 (take_bit 8 (drop_bit 8 x)) OR
    push_bit 8 (take_bit 8 (drop_bit 16 x)) OR take_bit 8 (drop_bit 24 x)"

definition htonl :: "u32 \<Rightarrow> u32" where
  "htonl x = ntohl x"

lemma bit_ntohl: "bit (ntohl x) n \<longleftrightarrow>
    (if n < 8 then bit x (n + 24) else if n < 16 then bit x (n + 8)
     else if n < 24 then bit x (n - 8) else n < 32 \<and> bit x (n - 24))"
  by (auto simp: ntohl_def bit_simps add.commute dest: bit_imp_le_length)

lemma ntohl_ntohl [simp]: "ntohl (ntohl x) = x"
  by (rule bit_word_eqI) (auto simp: bit_ntohl)

lemma ntohl_htonl [simp]: "ntohl (htonl x) = x" "htonl (ntohl x) = x"
  by (simp_all add: htonl_def)

lemma ntohl_inject [simp]: "ntohl x = ntohl y \<longleftrightarrow> x = y"
  by (metis ntohl_ntohl)

section \<open>The table hash (helper.h)\<close>

text \<open>\<open>sdbm_hash\<close> walks over the bytes of the key.\<close>

fun sdbm_hash_from :: "u8 list \<Rightarrow> u32 \<Rightarrow> u32" where
  "sdbm_hash_from [] hash = hash"
| "sdbm_hash_from (a # as) hash =
    sdbm_hash_from as (ucast a + push_bit 6 hash + push_bit 16 hash - hash)"

definition sdbm_hash :: "u8 list \<Rightarrow> u32" where
  "sdbm_hash bytes = sdbm_hash_from bytes 0"


section \<open>C strings (helper.c)\<close>

text \<open>
  A C string is the list of its characters before the terminating NUL.  \<open>strlcpy s n\<close> is the string
  that the destination of size \<open>n\<close> holds afterwards.
\<close>

definition lower_char :: "char \<Rightarrow> char" where
  "lower_char c = (if 65 \<le> (of_char c :: nat) \<and> (of_char c :: nat) \<le> 90 then char_of ((of_char c :: nat) + 32) else c)"

definition lower_string :: "string \<Rightarrow> string" where
  "lower_string s = map lower_char s"

text \<open>\<open>strcasecmp(a, b) == 0\<close> in the C locale.\<close>

definition strcaseeq :: "string \<Rightarrow> string \<Rightarrow> bool" where
  "strcaseeq a b \<longleftrightarrow> lower_string a = lower_string b"

definition strlcpy :: "string \<Rightarrow> nat \<Rightarrow> string" where
  "strlcpy s n = take (n - 1) s"

text \<open>\<open>str_split\<close> returns the tokens of \<open>strtok_r\<close>, which skips runs of delimiters.\<close>

function str_split :: "string \<Rightarrow> string \<Rightarrow> string list" where
  "str_split s delim = (
    let t = dropWhile (\<lambda>c. c \<in> set delim) s in
    if t = [] then []
    else takeWhile (\<lambda>c. c \<notin> set delim) t # str_split (dropWhile (\<lambda>c. c \<notin> set delim) t) delim)"
  by pat_completeness auto
termination
proof (relation "measure (\<lambda>(s, d). length s)")
  fix s delim :: string and t
  assume t: "t = dropWhile (\<lambda>c. c \<in> set delim) s" and nt: "t \<noteq> []"
  from nt obtain c u where cu: "t = c # u" by (meson list.exhaust)
  then have "c \<notin> set delim" using t hd_dropWhile[of "\<lambda>c. c \<in> set delim" s] by auto
  then have "length (dropWhile (\<lambda>c. c \<notin> set delim) t) < length t"
    by (simp add: cu le_imp_less_Suc length_dropWhile_le)
  also have "length t \<le> length s" by (simp add: t length_dropWhile_le)
  finally show "((dropWhile (\<lambda>c. c \<notin> set delim) t, delim), s, delim) \<in> measure (\<lambda>(s, d). length s)"
    by simp
qed simp

declare str_split.simps [simp del]

definition bytes_of :: "string \<Rightarrow> u8 list" where
  "bytes_of s = map of_char s"

lemma lower_char_idem [simp]: "lower_char (lower_char c) = lower_char c"
proof (cases "65 \<le> (of_char c :: nat) \<and> (of_char c :: nat) \<le> 90")
  case True
  then have "(of_char (char_of ((of_char c :: nat) + 32)) :: nat) = of_char c + 32"
    by (simp add: of_char_of)
  with True show ?thesis by (simp add: lower_char_def)
qed (auto simp: lower_char_def)

lemma lower_string_idem [simp]: "lower_string (lower_string s) = lower_string s"
  by (simp add: lower_string_def)

lemma strcaseeq_refl [simp]: "strcaseeq s s"
  by (simp add: strcaseeq_def)

lemma length_lower_string [simp]: "length (lower_string s) = length s"
  by (simp add: lower_string_def)

lemma lower_char_dot: "lower_char c = CHR ''.'' \<longleftrightarrow> c = CHR ''.''"
proof
  assume l: "lower_char c = CHR ''.''"
  show "c = CHR ''.''"
  proof (cases "65 \<le> (of_char c :: nat) \<and> (of_char c :: nat) \<le> 90")
    case True
    then have "(of_char (lower_char c) :: nat) = of_char c + 32"
      by (simp add: lower_char_def of_char_of)
    then have "(of_char c :: nat) + 32 = of_char (CHR ''.'')" unfolding l by simp
    with True show ?thesis by simp
  qed (use l in \<open>auto simp: lower_char_def\<close>)
qed (simp add: lower_char_def)

end
