(* ===== verification/DpEnv.thy ===== *)
theory DpEnv
  imports DpUtils
begin

text \<open>
  What a data plane thread knows about addresses: the internal subnets, the special addresses and the
  policy addresses, and the switches of the control channel (\<open>internal/dp/dpi/dpi_entry.c\<close>,
  \<open>internal/dp/ctrl/ctrl.c\<close>).

  The tables arrive in parts: the first message of a table carries \<open>MSG_START\<close>, the last one
  \<open>MSG_END\<close>.  The handler keeps the table under construction in a static pointer and frees the tables
  it replaces.  The model gives every allocation a name and keeps the live ones: reading or freeing one
  that is not live has no result.
\<close>

unbundle bit_operations_syntax

section \<open>Constants\<close>

definition DP_IPTYPE_NONE :: u8 where "DP_IPTYPE_NONE = 0"
definition DP_IPTYPE_TUNNELIP :: u8 where "DP_IPTYPE_TUNNELIP = 1"
definition DP_IPTYPE_SVCIP :: u8 where "DP_IPTYPE_SVCIP = 2"
definition DP_IPTYPE_HOSTIP :: u8 where "DP_IPTYPE_HOSTIP = 3"
definition DP_IPTYPE_DEVIP :: u8 where "DP_IPTYPE_DEVIP = 4"
definition DP_IPTYPE_UWLIP :: u8 where "DP_IPTYPE_UWLIP = 5"
definition DP_IPTYPE_EXTIP :: u8 where "DP_IPTYPE_EXTIP = 6"

lemmas iptype_defs = DP_IPTYPE_NONE_def DP_IPTYPE_TUNNELIP_def DP_IPTYPE_SVCIP_def DP_IPTYPE_HOSTIP_def
  DP_IPTYPE_DEVIP_def DP_IPTYPE_UWLIP_def DP_IPTYPE_EXTIP_def

definition MSG_START :: u32 where "MSG_START = 1"
definition MSG_END :: u32 where "MSG_END = 2"

section \<open>Address classes (dpi\_entry.c)\<close>

record dp_env =
  internal_subnet4 :: "(u32 \<times> u32) list option"
  specialip_subnet4 :: "(u32 \<times> u32 \<times> u8) list option"
  policy_addr :: "(u32 \<times> u32) list option"
  disable_net_policy :: bool
  detect_unmanaged_wl :: bool
  strict_group_mode :: bool
  enable_icmp_policy :: bool
  xff_enabled :: bool

text \<open>The macros \<open>IS_IN_LOOPBACK\<close> and \<open>IS_IN_LINKLOCAL\<close>, on host byte order.\<close>

definition IS_IN_LOOPBACK :: "u32 \<Rightarrow> bool" where
  "IS_IN_LOOPBACK i \<longleftrightarrow> i AND 0xff000000 = 0x7f000000"

definition IS_IN_LINKLOCAL :: "u32 \<Rightarrow> bool" where
  "IS_IN_LINKLOCAL i \<longleftrightarrow> i AND 0xffff0000 = 0xA9FE0000"

definition dpi_is_ip4_internal :: "dp_env \<Rightarrow> u32 \<Rightarrow> bool" where
  "dpi_is_ip4_internal e ip = (case internal_subnet4 e of
      None \<Rightarrow> True
    | Some subnets \<Rightarrow>
        if subnets = [] \<or> ip = htonl 0x7f000001 \<or> IS_IN_LOOPBACK (ntohl ip) then True
        else list_ex (\<lambda>(net, m). ip AND m = net) subnets)"

definition dpi_ip4_iptype :: "dp_env \<Rightarrow> u32 \<Rightarrow> u8" where
  "dpi_ip4_iptype e ip = (case specialip_subnet4 e of
      None \<Rightarrow> DP_IPTYPE_NONE
    | Some subnets \<Rightarrow>
        (case find (\<lambda>(net, m, t). ip AND m = net) subnets of
          Some (net, m, t) \<Rightarrow> t
        | None \<Rightarrow> DP_IPTYPE_NONE))"

definition dpi_is_policy_addr :: "dp_env \<Rightarrow> u32 \<Rightarrow> bool" where
  "dpi_is_policy_addr e ip = (case policy_addr e of
      None \<Rightarrow> False
    | Some addrs \<Rightarrow> list_ex (\<lambda>(a, m). ip XOR a = 0) addrs)"

section \<open>Table updates (ctrl.c)\<close>

text \<open>
  \<open>nt_static\<close> is the static pointer of the handler, \<open>nt_installed True\<close> the table of internal subnets
  (or of special addresses) and \<open>nt_installed False\<close> the policy addresses.
\<close>

record 'a net_tables =
  nt_live :: "(nat, 'a list) gomap"
  nt_next :: nat
  nt_static :: "nat option"
  nt_installed :: "bool \<Rightarrow> nat option"

definition net_alloc :: "'a list \<Rightarrow> 'a net_tables \<Rightarrow> nat \<times> 'a net_tables" where
  "net_alloc l s = (nt_next s, s\<lparr>nt_live := gput (nt_next s) l (nt_live s), nt_next := Suc (nt_next s)\<rparr>)"

definition net_free :: "nat option \<Rightarrow> 'a net_tables \<Rightarrow> 'a net_tables option" where
  "net_free p s = (case p of None \<Rightarrow> Some s
    | Some n \<Rightarrow> if gget (nt_live s) n = None then None else Some (s\<lparr>nt_live := gdel n (nt_live s)\<rparr>))"

definition cfg_net :: "bool \<Rightarrow> u32 \<Rightarrow> 'a list \<Rightarrow> 'a net_tables \<Rightarrow> (int \<times> 'a net_tables) option" where
  "cfg_net internal flag l s0 = (
    let (subnet4, s) = net_alloc l s0;
        finish = (\<lambda>new s.
          if flag AND MSG_END = 0 then Some (0, s)
          else map_option (Pair 0)
            (net_free (nt_installed s internal) (s\<lparr>nt_installed := (nt_installed s)(internal := Some new)\<rparr>))) in
    if flag AND MSG_START \<noteq> 0 then finish subnet4 (s\<lparr>nt_static := Some subnet4\<rparr>)
    else
      (case nt_static s of
        None \<Rightarrow> map_option (Pair (- 1)) (net_free (Some subnet4) s)
      | Some t \<Rightarrow>
          (case gget (nt_live s) t of
            None \<Rightarrow> None
          | Some old \<Rightarrow>
              let (tsubnet4, s) = net_alloc (old @ l) s in
              (case net_free (Some subnet4) s of None \<Rightarrow> None
              | Some s \<Rightarrow>
                  (case net_free (Some t) s of None \<Rightarrow> None
                  | Some s \<Rightarrow> finish tsubnet4 (s\<lparr>nt_static := Some tsubnet4\<rparr>))))))"

definition dp_ctrl_cfg_internal_net ::
  "u32 \<times> (u32 \<times> u32) list \<Rightarrow> bool \<Rightarrow> (u32 \<times> u32) net_tables \<Rightarrow> (int \<times> (u32 \<times> u32) net_tables) option" where
  "dp_ctrl_cfg_internal_net msg internal s = cfg_net internal (fst msg) (snd msg) s"

definition iptype_of :: "string \<Rightarrow> u8" where
  "iptype_of s = (
    if strcaseeq s ''tunnelip'' then DP_IPTYPE_TUNNELIP
    else if strcaseeq s ''svcip'' then DP_IPTYPE_SVCIP
    else if strcaseeq s ''hostip'' then DP_IPTYPE_HOSTIP
    else if strcaseeq s ''devip'' then DP_IPTYPE_DEVIP
    else if strcaseeq s ''uwlip'' then DP_IPTYPE_UWLIP
    else if strcaseeq s ''extip'' then DP_IPTYPE_EXTIP
    else DP_IPTYPE_NONE)"

definition dp_ctrl_cfg_specialip_net ::
  "u32 \<times> (u32 \<times> u32 \<times> string) list \<Rightarrow> (u32 \<times> u32 \<times> u8) net_tables \<Rightarrow> (int \<times> (u32 \<times> u32 \<times> u8) net_tables) option" where
  "dp_ctrl_cfg_specialip_net msg s = cfg_net True (fst msg) (map (\<lambda>(ip, m, t). (ip, m, iptype_of t)) (snd msg)) s"

text \<open>The switches of the control channel; a missing member of the message is false.\<close>

definition dp_ctrl_sys_conf :: "bool option \<Rightarrow> dp_env \<Rightarrow> dp_env" where
  "dp_ctrl_sys_conf b e = e\<lparr>xff_enabled := (b = Some True)\<rparr>"

definition dp_ctrl_disable_net_policy :: "bool option \<Rightarrow> dp_env \<Rightarrow> dp_env" where
  "dp_ctrl_disable_net_policy b e = e\<lparr>disable_net_policy := (b = Some True)\<rparr>"

definition dp_ctrl_detect_unmanaged_wl :: "bool option \<Rightarrow> dp_env \<Rightarrow> dp_env" where
  "dp_ctrl_detect_unmanaged_wl b e = e\<lparr>detect_unmanaged_wl := (b = Some True)\<rparr>"

definition dp_ctrl_enable_icmp_policy :: "bool option \<Rightarrow> dp_env \<Rightarrow> dp_env" where
  "dp_ctrl_enable_icmp_policy b e = e\<lparr>enable_icmp_policy := (b = Some True)\<rparr>"

definition dp_ctrl_strict_group_mode :: "bool option \<Rightarrow> dp_env \<Rightarrow> dp_env" where
  "dp_ctrl_strict_group_mode b e = e\<lparr>strict_group_mode := (b = Some True)\<rparr>"


section \<open>Updates in parts\<close>

definition nt_wf :: "'a net_tables \<Rightarrow> bool" where
  "nt_wf s \<longleftrightarrow> gwf (nt_live s) \<and> (\<forall>n\<in>dom (gget (nt_live s)). n < nt_next s) \<and>
    (\<forall>b n. nt_installed s b = Some n \<longrightarrow> n \<in> dom (gget (nt_live s))) \<and>
    (\<forall>n. nt_installed s True = Some n \<longrightarrow> nt_installed s False \<noteq> Some n)"

text \<open>What is installed: the contents of the two tables.\<close>

definition table :: "'a net_tables \<Rightarrow> bool \<Rightarrow> 'a list option" where
  "table s b = (case nt_installed s b of None \<Rightarrow> None | Some n \<Rightarrow> gget (nt_live s) n)"

definition building :: "'a net_tables \<Rightarrow> 'a list \<Rightarrow> bool" where
  "building s l \<longleftrightarrow> (\<exists>t. nt_static s = Some t \<and> gget (nt_live s) t = Some l \<and> (\<forall>b. nt_installed s b \<noteq> Some t))"

text \<open>The messages of one table after the first: all but the last one carry no flag.\<close>

fun cfg_parts :: "bool \<Rightarrow> 'a list list \<Rightarrow> 'a net_tables \<Rightarrow> (int \<times> 'a net_tables) option" where
  "cfg_parts b [] s = Some (0, s)"
| "cfg_parts b [l] s = cfg_net b MSG_END l s"
| "cfg_parts b (l # ls) s = (case cfg_net b 0 l s of None \<Rightarrow> None | Some (r, s') \<Rightarrow> cfg_parts b ls s')"

lemma nt_wf_fresh:
  assumes "nt_wf s"
  shows "nt_installed s c \<noteq> Some (nt_next s)"
  using assms unfolding nt_wf_def by (metis less_irrefl)

lemma nt_wf_live:
  assumes "nt_wf s" and "gget (nt_live s) t = Some l"
  shows "t < nt_next s"
  using assms unfolding nt_wf_def by blast

lemmas cfg_net_simps = cfg_net_def net_alloc_def net_free_def MSG_START_def MSG_END_def Let_def

lemma cfg_net_start:
  assumes "nt_wf s"
  shows "\<exists>s'. cfg_net b MSG_START l s = Some (0, s') \<and> nt_wf s' \<and> table s' = table s \<and> building s' l"
proof -
  let ?n = "nt_next s"
  let ?s = "s\<lparr>nt_live := gput ?n l (nt_live s), nt_next := Suc ?n, nt_static := Some ?n\<rparr>"
  have new: "nt_installed s c \<noteq> Some ?n" for c
    by (rule nt_wf_fresh[OF assms])
  have "cfg_net b MSG_START l s = Some (0, ?s)"
    by (simp add: cfg_net_simps)
  moreover have "nt_wf ?s"
    using assms by (auto simp: nt_wf_def dom_def less_SucI split: if_splits)
  moreover have "table ?s = table s"
    using new by (auto simp: table_def fun_eq_iff split: option.splits)
  moreover have "building ?s l"
    using new by (auto simp: building_def)
  ultimately show ?thesis by blast
qed

lemma cfg_net_start_end:
  assumes "nt_wf s"
  shows "\<exists>s'. cfg_net b (MSG_START OR MSG_END) l s = Some (0, s') \<and> nt_wf s' \<and> table s' = (table s)(b := Some l)"
proof -
  let ?n = "nt_next s"
  let ?live = "gput ?n l (nt_live s)"
  have new: "nt_installed s c \<noteq> Some ?n" for c
    by (rule nt_wf_fresh[OF assms])
  let ?live' = "case nt_installed s b of None \<Rightarrow> ?live | Some k \<Rightarrow> gdel k ?live"
  let ?s = "s\<lparr>nt_live := ?live', nt_next := Suc ?n, nt_static := Some ?n,
    nt_installed := (nt_installed s)(b := Some ?n)\<rparr>"
  have "gget (nt_live s) k \<noteq> None" if "nt_installed s b = Some k" for k
    using that assms by (auto simp: nt_wf_def dom_def)
  then have "cfg_net b (MSG_START OR MSG_END) l s = Some (0, ?s)"
    using new[of b] by (auto simp: cfg_net_simps split: option.splits)
  moreover have "nt_wf ?s"
    using assms new by (cases b) (auto simp: nt_wf_def dom_def less_SucI split: if_splits option.splits)
  moreover have "table ?s = (table s)(b := Some l)"
    using assms new by (cases b) (auto simp: table_def fun_eq_iff nt_wf_def split: option.splits)
  ultimately show ?thesis by blast
qed


lemma cfg_net_more:
  assumes "nt_wf s" and "building s l0"
  shows "\<exists>s'. cfg_net b 0 l s = Some (0, s') \<and> nt_wf s' \<and> table s' = table s \<and> building s' (l0 @ l)"
proof -
  obtain t where t: "nt_static s = Some t" "gget (nt_live s) t = Some l0" "\<And>b. nt_installed s b \<noteq> Some t"
    using assms(2) by (auto simp: building_def)
  let ?n = "nt_next s"
  have tn: "t < ?n" by (rule nt_wf_live[OF assms(1) t(2)])
  have new: "nt_installed s c \<noteq> Some ?n" "nt_installed s c \<noteq> Some (Suc ?n)" for c
    using nt_wf_fresh[OF assms(1)] assms(1) unfolding nt_wf_def by (auto, metis Suc_lessD less_irrefl)
  let ?live = "gdel t (gdel ?n (gput (Suc ?n) (l0 @ l) (gput ?n l (nt_live s))))"
  let ?s = "s\<lparr>nt_live := ?live, nt_next := Suc (Suc ?n), nt_static := Some (Suc ?n)\<rparr>"
  have "cfg_net b 0 l s = Some (0, ?s)"
    using t tn by (simp add: cfg_net_simps)
  moreover have "nt_wf ?s"
    using assms(1) t(3) new by (auto simp: nt_wf_def dom_def less_SucI split: if_splits)
  moreover have "table ?s = table s"
    using new t(3) by (auto simp: table_def fun_eq_iff split: option.splits)
  moreover have "building ?s (l0 @ l)"
    using new tn by (auto simp: building_def)
  ultimately show ?thesis by blast
qed

lemma cfg_net_last:
  assumes "nt_wf s" and "building s l0"
  shows "\<exists>s'. cfg_net b MSG_END l s = Some (0, s') \<and> nt_wf s' \<and> table s' = (table s)(b := Some (l0 @ l))"
proof -
  obtain t where t: "nt_static s = Some t" "gget (nt_live s) t = Some l0" "\<And>b. nt_installed s b \<noteq> Some t"
    using assms(2) by (auto simp: building_def)
  let ?n = "nt_next s"
  have tn: "t < ?n" by (rule nt_wf_live[OF assms(1) t(2)])
  have new: "nt_installed s c \<noteq> Some ?n" "nt_installed s c \<noteq> Some (Suc ?n)" for c
    using nt_wf_fresh[OF assms(1)] assms(1) unfolding nt_wf_def by (auto, metis Suc_lessD less_irrefl)
  let ?live = "gdel t (gdel ?n (gput (Suc ?n) (l0 @ l) (gput ?n l (nt_live s))))"
  let ?live' = "case nt_installed s b of None \<Rightarrow> ?live | Some k \<Rightarrow> gdel k ?live"
  let ?s = "s\<lparr>nt_live := ?live', nt_next := Suc (Suc ?n), nt_static := Some (Suc ?n),
    nt_installed := (nt_installed s)(b := Some (Suc ?n))\<rparr>"
  have "gget (nt_live s) k \<noteq> None" if "nt_installed s b = Some k" for k
    using that assms(1) by (auto simp: nt_wf_def dom_def)
  then have "cfg_net b MSG_END l s = Some (0, ?s)"
    using t tn new by (auto simp: cfg_net_simps split: option.splits)
  moreover have "nt_wf ?s"
    using assms(1) t(3) new tn
    by (cases b) (auto simp: nt_wf_def dom_def less_SucI split: if_splits option.splits)
  moreover have "table ?s = (table s)(b := Some (l0 @ l))"
    using new t(3) tn assms(1) by (cases b) (auto simp: table_def fun_eq_iff nt_wf_def split: option.splits)
  ultimately show ?thesis by blast
qed

lemma cfg_parts_building:
  assumes "nt_wf s" and "building s l0" and "ls \<noteq> []"
  shows "\<exists>s'. cfg_parts b ls s = Some (0, s') \<and> nt_wf s' \<and> table s' = (table s)(b := Some (l0 @ concat ls))"
  using assms
proof (induction ls arbitrary: s l0)
  case (Cons l ls)
  show ?case
  proof (cases ls)
    case Nil
    then show ?thesis using cfg_net_last[OF Cons.prems(1,2), of b l] by (simp add: fun_upd_def)
  next
    case (Cons l' ls')
    from cfg_net_more[OF Cons.prems(1,2), of b l] obtain s1 where
      s1: "cfg_net b 0 l s = Some (0, s1)" "nt_wf s1" "table s1 = table s" "building s1 (l0 @ l)"
      by blast
    from Cons.IH[OF s1(2,4)] Cons show ?thesis
      using s1 by auto
  qed
qed simp


text \<open>All messages of one table.\<close>

definition cfg_table :: "bool \<Rightarrow> 'a list \<Rightarrow> 'a list list \<Rightarrow> 'a net_tables \<Rightarrow> (int \<times> 'a net_tables) option" where
  "cfg_table b l ls s = (if ls = [] then cfg_net b (MSG_START OR MSG_END) l s
    else (case cfg_net b MSG_START l s of None \<Rightarrow> None | Some (r, s') \<Rightarrow> cfg_parts b ls s'))"

text \<open>
  C33. A table of subnets that reaches the data plane in any number of messages is installed as a whole when the last one
  arrives, with its parts in the order of the messages.  Every message is accepted and frees nothing twice, the
  installed tables are live afterwards, and the table of the other kind is the one it was.
\<close>

theorem cfg_table_installs:
  assumes "nt_wf s"
  shows "\<exists>s'. cfg_table b l ls s = Some (0, s') \<and> nt_wf s' \<and> table s' = (table s)(b := Some (l @ concat ls))"
proof (cases "ls = []")
  case True
  then show ?thesis using cfg_net_start_end[OF assms, of b l] by (simp add: cfg_table_def)
next
  case False
  from cfg_net_start[OF assms, of b l] obtain s1 where
    s1: "cfg_net b MSG_START l s = Some (0, s1)" "nt_wf s1" "table s1 = table s" "building s1 l"
    by blast
  from cfg_parts_building[OF s1(2,4) False, of b] show ?thesis
    using s1 False by (simp add: cfg_table_def)
qed

definition empty_tables :: "'a net_tables" where
  "empty_tables = \<lparr>nt_live = [], nt_next = 0, nt_static = None, nt_installed = \<lambda>_. None\<rparr>"

theorem cfg_table_installs_witness:
  "\<exists>s'. cfg_table True [(0x0a, 0xff) :: u32 \<times> u32] [[(0x10ac, 0xf0ff)], [(0xa8c0, 0xffff)]] empty_tables = Some (0, s') \<and>
    table s' True = Some [(0x0a, 0xff), (0x10ac, 0xf0ff), (0xa8c0, 0xffff)]"
proof -
  have "nt_wf (empty_tables :: (u32 \<times> u32) net_tables)"
    by (simp add: nt_wf_def empty_tables_def)
  from cfg_table_installs[OF this, of True "[(0x0a, 0xff)]" "[[(0x10ac, 0xf0ff)], [(0xa8c0, 0xffff)]]"]
  show ?thesis by auto
qed

text \<open>
  The static pointer is not reset when a table is complete.  A further part without a start is
  appended to the installed table, which is freed although packets are matched against it, and freed a
  second time when that part carries \<open>MSG_END\<close>.
\<close>

lemma stale_part_frees_installed:
  "\<exists>s'. cfg_net True (MSG_START OR MSG_END) l empty_tables =
      Some (0, s') \<and>
    (\<exists>s''. cfg_net True 0 l' s' = Some (0, s'') \<and> nt_installed s'' True = nt_installed s' True \<and> table s'' True = None) \<and>
    cfg_net True MSG_END l' s' = None"
  by (simp add: cfg_net_simps table_def empty_tables_def)

end
