(* ===== verification/DpBitmap.thy ===== *)
theory DpBitmap
  imports DpUtils
begin

text \<open>
  The bitmap that hands out FQDN codes (\<open>internal/dp/utils/bitmap.c\<close>), as a record with the
  array of 32-bit words, and its refinement to a set of positions: \<open>bitmap_get_next_zero\<close>
  skips whole words, and finds the position a bit-by-bit search that wraps around would find.
\<close>

unbundle bit_operations_syntax

record bitmap =
  bits :: int
  words :: int
  array :: "u32 list"

definition bitmap_set :: "bitmap \<Rightarrow> int \<Rightarrow> bitmap option" where
  "bitmap_set b n = (
    let word = drop_bit 5 n; position = n AND 31 in
    case aget (array b) word of None \<Rightarrow> None
    | Some w \<Rightarrow> map_option (\<lambda>a. b\<lparr>array := a\<rparr>) (aset (array b) word (w OR push_bit (nat position) 1)))"

definition bitmap_clear :: "bitmap \<Rightarrow> int \<Rightarrow> bitmap option" where
  "bitmap_clear b n = (
    let word = drop_bit 5 n; position = n AND 31 in
    case aget (array b) word of None \<Rightarrow> None
    | Some w \<Rightarrow> map_option (\<lambda>a. b\<lparr>array := a\<rparr>) (aset (array b) word (w AND NOT (push_bit (nat position) 1))))"

definition bitmap_is_set :: "bitmap \<Rightarrow> int \<Rightarrow> u32 option" where
  "bitmap_is_set b n = (
    let word = drop_bit 5 n; position = n AND 31 in
    map_option (\<lambda>w. drop_bit (nat position) w AND 1) (aget (array b) word))"

function one_pos_loop :: "u32 \<Rightarrow> int \<Rightarrow> int" where
  "one_pos_loop w start = (
    if w > 0 then (if w AND 1 \<noteq> 0 then start else one_pos_loop (drop_bit 1 w) (start + 1)) else - 1)"
  by pat_completeness auto
termination
  by (relation "measure (\<lambda>(w, start). unat w)")
    (simp_all add: unat_drop_bit_eq drop_bit_eq_div word_less_nat_alt unat_div)

declare one_pos_loop.simps [simp del]

definition get_one_pos_from_word :: "u32 \<Rightarrow> int \<Rightarrow> int" where
  "get_one_pos_from_word w start = one_pos_loop (drop_bit (nat start) w) start"

text \<open>The two scans over whole words: \<open>i\<close> is the next word, \<open>stop\<close> the first one not visited.\<close>

function next_zero_scan :: "bitmap \<Rightarrow> int \<Rightarrow> int \<Rightarrow> int option option" where
  "next_zero_scan b i stop = (
    if i < stop then
      (case aget (array b) i of None \<Rightarrow> None
      | Some w \<Rightarrow>
          let tmp = NOT w in
          if tmp \<noteq> 0 then
            let idx = get_one_pos_from_word tmp 0; ret = idx + push_bit 5 i in
            if ret < bits b then Some (Some ret) else next_zero_scan b (i + 1) stop
          else next_zero_scan b (i + 1) stop)
    else Some None)"
  by pat_completeness auto
termination
  by (relation "measure (\<lambda>(b, i, stop). nat (stop - i))") auto

declare next_zero_scan.simps [simp del]

definition bitmap_get_next_zero :: "bitmap \<Rightarrow> int \<Rightarrow> int option" where
  "bitmap_get_next_zero b n0 = (
    let n = (if n0 < 0 \<or> n0 \<ge> bits b then 0 else n0);
        word = drop_bit 5 n; position = n AND 31 in
    case aget (array b) word of None \<Rightarrow> None
    | Some w \<Rightarrow>
        let idx = get_one_pos_from_word (NOT w) position in
        if idx \<ge> 0 \<and> idx + push_bit 5 word < bits b then Some (idx + push_bit 5 word)
        else (case next_zero_scan b (word + 1) (words b) of
            None \<Rightarrow> None
          | Some (Some ret) \<Rightarrow> Some ret
          | Some None \<Rightarrow>
              (case next_zero_scan b 0 (word + 1) of
                None \<Rightarrow> None
              | Some (Some ret) \<Rightarrow> Some ret
              | Some None \<Rightarrow> Some (- 1))))"

text \<open>\<open>bitmap_allocate\<close>; \<open>calloc1\<close> and \<open>calloc2\<close> tell whether the two allocations succeed.\<close>

definition bitmap_allocate :: "bool \<Rightarrow> bool \<Rightarrow> int \<Rightarrow> bitmap option" where
  "bitmap_allocate calloc1 calloc2 n = (
    if \<not> calloc1 then None
    else let ws = (n + 32 - 1) div 32 in
      if \<not> calloc2 then None
      else Some \<lparr>bits = n, words = ws, array = replicate (nat ws) 0\<rparr>)"

section \<open>Invariant and abstraction\<close>

definition bitmap_wf :: "bitmap \<Rightarrow> bool" where
  "bitmap_wf b \<longleftrightarrow> 0 < bits b \<and> words b = (bits b + 31) div 32 \<and> length (array b) = nat (words b)"

definition taken :: "bitmap \<Rightarrow> int \<Rightarrow> bool" where
  "taken b n \<longleftrightarrow> bit (array b ! nat (n div 32)) (nat (n mod 32))"

lemma shift5: "drop_bit 5 (n :: int) = n div 32" "push_bit 5 (n :: int) = n * 32"
  by (simp_all add: drop_bit_eq_div push_bit_eq_mult)

lemma mask5: "(n :: int) AND 31 = n mod 32"
proof -
  have "n AND mask 5 = take_bit 5 n" by (simp add: take_bit_eq_mask)
  then show ?thesis by (simp add: take_bit_eq_mod mask_eq_exp_minus_1)
qed

lemmas index_simps = shift5 mask5

lemma wf_word:
  assumes "bitmap_wf b" and "0 \<le> n" and "n < bits b"
  shows "0 \<le> n div 32" "n div 32 < words b" "n div 32 < int (length (array b))"
  using assms by (auto simp: bitmap_wf_def)


text \<open>The first position that satisfies a predicate in a range.\<close>

lemma find_upto_Some:
  assumes "lo \<le> k" "k \<le> hi" "P k" "\<And>j. lo \<le> j \<Longrightarrow> j < k \<Longrightarrow> \<not> P j"
  shows "find P [lo..hi] = Some (k :: int)"
proof -
  have s: "[lo..hi] = [lo..k - 1] @ k # [k + 1..hi]"
    using assms(1,2) by (metis upto_split3)
  have "find P [lo..k - 1] = None"
    using assms(4) by (auto simp: find_None_iff)
  then show ?thesis
    using assms(3) by (simp add: s find_app)
qed

lemma find_upto_iff:
  "find P [lo..hi] = Some k \<longleftrightarrow> lo \<le> k \<and> k \<le> hi \<and> P k \<and> (\<forall>j. lo \<le> j \<longrightarrow> j < k \<longrightarrow> \<not> P (j :: int))"
proof
  assume f: "find P [lo..hi] = Some k"
  then have "k \<in> set [lo..hi]" "P k" by (auto dest: find_SomeD)
  moreover have "\<not> P j" if "lo \<le> j" "j < k" for j
  proof -
    obtain i where i: "lo + int i = k" "\<forall>n<i. \<not> P ([lo..hi] ! n)" "k \<le> hi"
      using f by (auto simp: find_Some_iff)
    then show ?thesis
      using that i(2)[rule_format, of "nat (j - lo)"] by auto
  qed
  ultimately show "lo \<le> k \<and> k \<le> hi \<and> P k \<and> (\<forall>j. lo \<le> j \<longrightarrow> j < k \<longrightarrow> \<not> P j)"
    by auto
qed (auto intro: find_upto_Some)

lemma find_upto_None: "(\<And>j. lo \<le> j \<Longrightarrow> j \<le> hi \<Longrightarrow> \<not> P j) \<Longrightarrow> find P [lo..hi :: int] = None"
  by (auto simp: find_None_iff)

lemma one_pos_loop_spec:
  "w \<noteq> 0 \<Longrightarrow> \<exists>k. bit w k \<and> (\<forall>j<k. \<not> bit w j) \<and> one_pos_loop w s = s + int k"
proof (induction w s rule: one_pos_loop.induct)
  case (1 w s)
  have "w > 0" using 1(2) by (simp add: word_neq_0_conv)
  show ?case
  proof (cases "bit w 0")
    case True
    then have "w AND 1 \<noteq> 0"
      by (simp add: and_1_bit)
    with True \<open>w > 0\<close> show ?thesis
      by (intro exI[of _ 0]) (simp add: one_pos_loop.simps)
  next
    case False
    then have e: "w AND 1 = 0"
      by (simp add: and_1_bit)
    have "drop_bit 1 w \<noteq> 0"
    proof
      assume "drop_bit 1 w = 0"
      then have "\<not> bit w (Suc k)" for k
        using drop_bit_zero_bits[of 1 w k] by simp
      with False have "\<not> bit w k" for k
        by (cases k) auto
      then have "w = 0"
        by (intro bit_eqI) simp
      with 1(2) show False by simp
    qed
    then obtain k where k: "bit (drop_bit 1 w) k" "\<forall>j<k. \<not> bit (drop_bit 1 w) j"
      "one_pos_loop (drop_bit 1 w) (s + 1) = s + 1 + int k"
      using 1(1)[OF \<open>w > 0\<close>] e by auto
    have "\<not> bit w j" if "j < Suc k" for j
      using that False k(2) by (cases j) (auto simp: bit_simps)
    with k \<open>w > 0\<close> e show ?thesis
      by (intro exI[of _ "Suc k"]) (auto simp: one_pos_loop.simps[of w] bit_simps)
  qed
qed

lemma get_one_pos_spec:
  fixes w :: u32
  assumes "0 \<le> p"
  shows "get_one_pos_from_word w p =
    (case find (\<lambda>k. bit w (nat k)) [p..31] of Some k \<Rightarrow> k | None \<Rightarrow> - 1)"
proof (cases "drop_bit (nat p) w = 0")
  case True
  then have "\<not> bit w (nat p + k)" for k
    by (rule drop_bit_zero_bits)
  then have "\<not> bit w (nat k)" if "p \<le> k" for k
    using that assms by (metis le_add_diff_inverse nat_mono)
  then have "find (\<lambda>k. bit w (nat k)) [p..31] = None"
    by (intro find_upto_None) auto
  with True show ?thesis
    by (simp add: get_one_pos_from_word_def one_pos_loop.simps)
next
  case False
  from one_pos_loop_spec[OF this, of p] obtain k where k: "bit (drop_bit (nat p) w) k"
    "\<forall>j<k. \<not> bit (drop_bit (nat p) w) j" "one_pos_loop (drop_bit (nat p) w) p = p + int k"
    by auto
  have b: "bit w (nat p + k)" using k(1) by (simp add: bit_simps)
  then have "nat p + k < 32" using bit_imp_le_length[of w] by auto
  have "\<not> bit w (nat j)" if "p \<le> j" "j < p + int k" for j
    using k(2)[rule_format, of "nat (j - p)"] that assms
    by (simp add: bit_simps nat_add_distrib[symmetric])
  then have "find (\<lambda>k. bit w (nat k)) [p..31] = Some (p + int k)"
    using b \<open>nat p + k < 32\<close> assms
    by (intro find_upto_Some) (auto simp: nat_add_distrib)
  with k(3) show ?thesis
    by (simp add: get_one_pos_from_word_def)
qed


section \<open>The bitmap as a set of positions\<close>

text \<open>The bit-by-bit search: from the start position to the end, then from 0.\<close>

definition next_zero_ref :: "bitmap \<Rightarrow> int \<Rightarrow> int" where
  "next_zero_ref b n0 = (
    let n = (if n0 < 0 \<or> n0 \<ge> bits b then 0 else n0) in
    case find (\<lambda>m. \<not> taken b m) ([n..bits b - 1] @ [0..n - 1]) of Some m \<Rightarrow> m | None \<Rightarrow> - 1)"

text \<open>One word of the array.\<close>

lemma find_word:
  assumes "bitmap_wf b" and "0 \<le> i" and "i < words b" and "0 \<le> p" and "p < 32"
  shows "find (\<lambda>m. \<not> taken b m) [i * 32 + p..min (i * 32 + 32) (bits b) - 1] =
    (let idx = get_one_pos_from_word (NOT (array b ! nat i)) p in
     if idx \<ge> 0 \<and> idx + i * 32 < bits b then Some (idx + i * 32) else None)"
proof -
  let ?w = "array b ! nat i"
  have t: "taken b (i * 32 + k) \<longleftrightarrow> bit ?w (nat k)" if "0 \<le> k" "k < 32" for k
    using that assms(2) by (simp add: taken_def)
  have n: "bit (NOT ?w) (nat k) \<longleftrightarrow> \<not> bit ?w (nat k)" if "k < 32" for k
    using that by (auto simp: bit_simps)
  show ?thesis
  proof (cases "find (\<lambda>k. bit (NOT ?w) (nat k)) [p..31]")
    case None
    then have "bit ?w (nat k)" if "p \<le> k" "k < 32" for k
      using that n[of k] by (auto simp: find_None_iff)
    then have "find (\<lambda>m. \<not> taken b m) [i * 32 + p..min (i * 32 + 32) (bits b) - 1] = None"
      using t[of "m - i * 32" for m] assms(4) by (intro find_upto_None) auto
    with None show ?thesis
      by (simp add: get_one_pos_spec[OF assms(4)])
  next
    case (Some k)
    then have k: "p \<le> k" "k < 32" "\<not> bit ?w (nat k)" "\<And>j. p \<le> j \<Longrightarrow> j < k \<Longrightarrow> bit ?w (nat j)"
      using n by (auto simp: find_upto_iff)
    show ?thesis
    proof (cases "k + i * 32 < bits b")
      case True
      then have "find (\<lambda>m. \<not> taken b m) [i * 32 + p..min (i * 32 + 32) (bits b) - 1] = Some (i * 32 + k)"
        using k assms(4) t[of "m - i * 32" for m] t[of k] by (intro find_upto_Some) auto
      with Some True k(1) assms(4) show ?thesis
        by (simp add: get_one_pos_spec[OF assms(4)])
    next
      case False
      then have "find (\<lambda>m. \<not> taken b m) [i * 32 + p..min (i * 32 + 32) (bits b) - 1] = None"
        using k assms(4) t[of "m - i * 32" for m] by (intro find_upto_None) auto
      with Some False show ?thesis
        by (simp add: get_one_pos_spec[OF assms(4)])
    qed
  qed
qed


lemma split_upto: "lo \<le> mid \<Longrightarrow> mid \<le> hi + 1 \<Longrightarrow> [lo..hi] = [lo..mid - 1] @ [mid..hi :: int]"
  by (cases "mid = hi + 1") (auto intro: upto_split1)

text \<open>A whole scan.  The first word of a scan is visited from its first bit.\<close>

lemma scan_spec:
  assumes "bitmap_wf b" and "0 \<le> i" and "i \<le> stop" and "stop \<le> words b"
  shows "next_zero_scan b i stop = Some (find (\<lambda>m. \<not> taken b m) [i * 32..min (stop * 32) (bits b) - 1])"
  using assms(2,3)
proof (induction "nat (stop - i)" arbitrary: i)
  case 0
  then show ?case by (simp add: next_zero_scan.simps)
next
  case (Suc n)
  then have i: "i < stop" "0 \<le> i" by auto
  then have ib: "i < words b" "i < int (length (array b))" "i * 32 < bits b"
    using assms(1,4) by (auto simp: bitmap_wf_def)
  have IH: "next_zero_scan b (i + 1) stop =
      Some (find (\<lambda>m. \<not> taken b m) [(i + 1) * 32..min (stop * 32) (bits b) - 1])"
    using Suc by (intro Suc.hyps(1)) auto
  let ?mid = "min (i * 32 + 32) (bits b)"
  have tail: "[?mid..min (stop * 32) (bits b) - 1] = [(i + 1) * 32..min (stop * 32) (bits b) - 1]"
    using i by (auto simp: min_def)
  have s: "[i * 32..min (stop * 32) (bits b) - 1] =
      [i * 32..?mid - 1] @ [(i + 1) * 32..min (stop * 32) (bits b) - 1]"
    unfolding tail[symmetric] using i ib by (intro split_upto) auto
  let ?w = "array b ! nat i" and ?idx = "get_one_pos_from_word (NOT (array b ! nat i)) 0"
  have w: "find (\<lambda>m. \<not> taken b m) [i * 32..?mid - 1] =
      (if ?idx \<ge> 0 \<and> ?idx + i * 32 < bits b then Some (?idx + i * 32) else None)"
    using find_word[OF assms(1) i(2) ib(1), of 0] by (simp add: Let_def)
  have z: "?idx = - 1" if "NOT ?w = 0"
    using that by (simp add: get_one_pos_from_word_def one_pos_loop.simps)
  have nz: "0 \<le> ?idx" if "NOT ?w \<noteq> 0"
    using that one_pos_loop_spec[of "NOT ?w" 0] by (auto simp: get_one_pos_from_word_def)
  show ?case
    unfolding s find_app w
    using i ib z nz by (subst next_zero_scan.simps) (auto simp: IH index_simps Let_def)
qed


lemma get_next_zero_find:
  assumes "bitmap_wf b" and "0 \<le> n" and "n < bits b"
  shows "bitmap_get_next_zero b n = Some (case find (\<lambda>m. \<not> taken b m) ([n..bits b - 1] @ [0..n - 1]) of
      Some m \<Rightarrow> m | None \<Rightarrow> - 1)"
proof -
  let ?f = "find (\<lambda>m. \<not> taken b m)"
  let ?i = "n div 32" and ?p = "n mod 32"
  note i = wf_word[OF assms]
  have np: "?i * 32 + ?p = n" by simp
  let ?mid = "min (?i * 32 + 32) (bits b)"
  let ?idx = "get_one_pos_from_word (NOT (array b ! nat ?i)) ?p"
  have w: "?f [n..?mid - 1] = (if ?idx \<ge> 0 \<and> ?idx + ?i * 32 < bits b then Some (?idx + ?i * 32) else None)"
    using find_word[OF assms(1) i(1,2), of ?p] by (simp add: Let_def np)
  have cap: "min (words b * 32) (bits b) = bits b"
    using assms(1) by (auto simp: bitmap_wf_def)
  have s1: "next_zero_scan b (?i + 1) (words b) = Some (?f [(?i + 1) * 32..bits b - 1])"
    using scan_spec[OF assms(1), of "?i + 1" "words b"] i by (simp add: cap)
  have s2: "next_zero_scan b 0 (?i + 1) = Some (?f [0..?mid - 1])"
    using scan_spec[OF assms(1), of 0 "?i + 1"] i by (simp add: algebra_simps)
  have tail: "[?mid..bits b - 1] = [(?i + 1) * 32..bits b - 1]"
    by (auto simp: min_def)
  have nm: "n < ?mid"
    using assms(3) np pos_mod_bound[of 32 n] by linarith
  have up: "[n..bits b - 1] = [n..?mid - 1] @ [(?i + 1) * 32..bits b - 1]"
    unfolding tail[symmetric] using nm by (intro split_upto) auto
  have low: "[0..?mid - 1] = [0..n - 1] @ [n..?mid - 1]"
    using nm assms(2) by (intro split_upto) auto
  have "bitmap_get_next_zero b n = (case ?f [n..?mid - 1] of Some r \<Rightarrow> Some r | None \<Rightarrow>
      (case ?f [(?i + 1) * 32..bits b - 1] of Some r \<Rightarrow> Some r | None \<Rightarrow>
      (case ?f [0..?mid - 1] of Some r \<Rightarrow> Some r | None \<Rightarrow> Some (- 1))))"
    unfolding bitmap_get_next_zero_def w using assms(2,3) i
    by (simp add: Let_def index_simps s1 s2 split: option.split)
  then show ?thesis
    unfolding up low find_app append_assoc by (simp split: option.split)
qed

lemma taken_update:
  assumes "bitmap_wf b" and "0 \<le> n" and "n < bits b" and "0 \<le> m" and "m < bits b"
  shows "taken (b\<lparr>array := (array b)[nat (n div 32) := w]\<rparr>) m =
    (if m div 32 = n div 32 then bit w (nat (m mod 32)) else taken b m)"
  using wf_word[OF assms(1-3)] wf_word[OF assms(1,4,5)] by (auto simp: taken_def eq_nat_nat_iff)

lemma same_bit: "m div 32 = n div 32 \<Longrightarrow> nat (m mod 32) = nat (n mod 32) \<longleftrightarrow> m = (n :: int)"
  by (metis eq_nat_nat_iff mult_div_mod_eq pos_mod_sign zero_less_numeral)

lemma taken_set:
  assumes "bitmap_wf b" and "0 \<le> n" and "n < bits b"
  shows "\<exists>b'. bitmap_set b n = Some b' \<and> bitmap_wf b' \<and> bits b' = bits b \<and>
    (\<forall>m. 0 \<le> m \<longrightarrow> m < bits b \<longrightarrow> taken b' m = (m = n \<or> taken b m))"
proof -
  let ?a = "(array b)[nat (n div 32) := array b ! nat (n div 32) OR push_bit (nat (n mod 32)) 1]"
  have "bitmap_set b n = Some (b\<lparr>array := ?a\<rparr>)"
    using wf_word[OF assms] by (simp add: bitmap_set_def index_simps Let_def)
  moreover have "bitmap_wf (b\<lparr>array := ?a\<rparr>)"
    using assms(1) by (simp add: bitmap_wf_def)
  moreover have "taken (b\<lparr>array := ?a\<rparr>) m = (m = n \<or> taken b m)" if "0 \<le> m" "m < bits b" for m
    unfolding taken_update[OF assms that]
    by (auto simp: taken_def bit_simps same_bit nat_less_iff)
  ultimately show ?thesis
    by (intro exI[of _ "b\<lparr>array := ?a\<rparr>"]) simp
qed

lemma taken_clear:
  assumes "bitmap_wf b" and "0 \<le> n" and "n < bits b"
  shows "\<exists>b'. bitmap_clear b n = Some b' \<and> bitmap_wf b' \<and> bits b' = bits b \<and>
    (\<forall>m. 0 \<le> m \<longrightarrow> m < bits b \<longrightarrow> taken b' m = (m \<noteq> n \<and> taken b m))"
proof -
  let ?a = "(array b)[nat (n div 32) := array b ! nat (n div 32) AND NOT (push_bit (nat (n mod 32)) 1)]"
  have "bitmap_clear b n = Some (b\<lparr>array := ?a\<rparr>)"
    using wf_word[OF assms] by (simp add: bitmap_clear_def index_simps Let_def)
  moreover have "bitmap_wf (b\<lparr>array := ?a\<rparr>)"
    using assms(1) by (simp add: bitmap_wf_def)
  moreover have "taken (b\<lparr>array := ?a\<rparr>) m = (m \<noteq> n \<and> taken b m)" if "0 \<le> m" "m < bits b" for m
    unfolding taken_update[OF assms that]
    by (auto simp: taken_def bit_simps same_bit nat_less_iff)
  ultimately show ?thesis
    by (intro exI[of _ "b\<lparr>array := ?a\<rparr>"]) simp
qed

lemma is_set_taken:
  assumes "bitmap_wf b" and "0 \<le> n" and "n < bits b"
  shows "bitmap_is_set b n = Some (if taken b n then 1 else 0)"
  using wf_word[OF assms] by (simp add: bitmap_is_set_def index_simps taken_def and_1_bit bit_simps)

lemma allocate_wf:
  assumes "bitmap_allocate c1 c2 n = Some b" and "0 < n"
  shows "bitmap_wf b \<and> bits b = n \<and> (\<forall>m. 0 \<le> m \<longrightarrow> m < n \<longrightarrow> \<not> taken b m)"
proof -
  have b: "b = \<lparr>bits = n, words = (n + 31) div 32, array = replicate (nat ((n + 31) div 32)) 0\<rparr>"
    using assms(1) by (simp add: bitmap_allocate_def Let_def add.commute split: if_splits)
  have "nat (m div 32) < nat ((n + 31) div 32)" if "0 \<le> m" "m < n" for m
    using that by auto
  then show ?thesis
    using assms(2) by (auto simp: b bitmap_wf_def taken_def)
qed

text \<open>
  C15. The word-wise search for a free position (mask, loop over the words, wrap around to the first word)
  returns what a search bit by bit returns: the first free position from the given one, else the first free
  position below it, else -1; no read is out of bounds.
\<close>

theorem get_next_zero_equiv:
  assumes "bitmap_wf b"
  shows "bitmap_get_next_zero b n = Some (next_zero_ref b n)"
proof (cases "n < 0 \<or> n \<ge> bits b")
  case True
  then have "bitmap_get_next_zero b n = bitmap_get_next_zero b 0"
    by (auto simp: bitmap_get_next_zero_def)
  with True show ?thesis
    using get_next_zero_find[OF assms, of 0] assms by (simp add: bitmap_wf_def next_zero_ref_def Let_def)
next
  case False
  then show ?thesis
    using get_next_zero_find[OF assms, of n] by (simp add: next_zero_ref_def Let_def)
qed

theorem get_next_zero_equiv_witness:
  "bitmap_get_next_zero \<lparr>bits = 40, words = 2, array = [0xffffffff, 0xfe]\<rparr> 33 =
    Some (next_zero_ref \<lparr>bits = 40, words = 2, array = [0xffffffff, 0xfe]\<rparr> 33)"
  by (rule get_next_zero_equiv) (simp add: bitmap_wf_def)

end
