(* ===== verification/DpFqdn.thy ===== *)
theory DpFqdn
  imports DpBitmap
begin

text \<open>
  Domain names in policy rules (\<open>internal/dp/dpi/dpi_policy.c\<close>, FQDN handling).  A rule on a name is
  compiled with a code in the place of the address.  The handle keeps a record for every name, with its
  code, and the two directions of the relation between names and addresses: the records of an address and
  the addresses of a record.  DNS answers add addresses, to the record of the name itself and to the records
  of the wildcard names that cover it; a sweep deletes the records the controller has marked.

  Records are names in a store.  \<open>fq_freed\<close> holds the records that have been freed.  The lookup in the
  table of names compares the hash of the key with the hash under which the entry was added, then the
  names without regard to case.  Allocations succeed.  The tables are lists in traversal order.
\<close>

unbundle bit_operations_syntax

section \<open>State\<close>

definition MAX_FQDN_LEN :: nat where "MAX_FQDN_LEN = 256"
definition DPI_FQDN_MAX_ENTRIES :: int where "DPI_FQDN_MAX_ENTRIES = 2048"
definition DPI_FQDN_DELETE_QLEN :: nat where "DPI_FQDN_DELETE_QLEN = 32"

definition FQDN_RECORD_TO_DELETE :: u32 where "FQDN_RECORD_TO_DELETE = 1"
definition FQDN_RECORD_DELETED :: u32 where "FQDN_RECORD_DELETED = 2"
definition FQDN_RECORD_WILDCARD :: u32 where "FQDN_RECORD_WILDCARD = 4"

type_synonym rid = nat

record fqdn_record =
  fr_name :: string
  fr_code :: u32
  fr_flag :: u32
  fr_ip_cnt :: u32
  fr_updated :: bool
  fr_iplist :: "u32 list"
  fr_vh :: bool

record dpi_fqdn_hdl =
  fq_names :: "(string \<times> rid) list"
  fq_ipv4 :: "(u32, rid list) gomap"
  fq_rec :: "rid \<Rightarrow> fqdn_record"
  fq_next :: rid
  fq_freed :: "rid list"
  fq_bm :: bitmap
  fq_code_cnt :: int

definition set_rec :: "rid \<Rightarrow> (fqdn_record \<Rightarrow> fqdn_record) \<Rightarrow> dpi_fqdn_hdl \<Rightarrow> dpi_fqdn_hdl" where
  "set_rec r f h = h\<lparr>fq_rec := (fq_rec h)(r := f (fq_rec h r))\<rparr>"

definition fqdn_name_hash :: "string \<Rightarrow> u32" where
  "fqdn_name_hash k = sdbm_hash (bytes_of k)"

definition fqdn_name_match :: "dpi_fqdn_hdl \<Rightarrow> rid \<Rightarrow> string \<Rightarrow> bool" where
  "fqdn_name_match h r k = strcaseeq (fr_name (fq_rec h r)) k"

definition fqdn_name_lookup :: "dpi_fqdn_hdl \<Rightarrow> string \<Rightarrow> rid option" where
  "fqdn_name_lookup h k =
    map_option snd (find (\<lambda>(key, r). fqdn_name_hash key = fqdn_name_hash k \<and> fqdn_name_match h r k) (fq_names h))"

definition dpi_fqdn_hdl_init :: "dpi_fqdn_hdl option" where
  "dpi_fqdn_hdl_init = map_option
    (\<lambda>bm. \<lparr>fq_names = [], fq_ipv4 = [], fq_rec = \<lambda>_. \<lparr>fr_name = [], fr_code = 0, fr_flag = 0, fr_ip_cnt = 0,
        fr_updated = False, fr_iplist = [], fr_vh = False\<rparr>,
      fq_next = 0, fq_freed = [], fq_bm = bm, fq_code_cnt = 0\<rparr>)
    (bitmap_allocate True True DPI_FQDN_MAX_ENTRIES)"

section \<open>Codes\<close>

definition alloc_fqdn_code :: "dpi_fqdn_hdl \<Rightarrow> (u32 \<times> dpi_fqdn_hdl) option" where
  "alloc_fqdn_code h = (case bitmap_get_next_zero (fq_bm h) (fq_code_cnt h) of
      None \<Rightarrow> None
    | Some c \<Rightarrow>
        if c < 0 then Some (- 1, h\<lparr>fq_code_cnt := c\<rparr>)
        else map_option (\<lambda>bm. (htonl (of_int (c + 1)), h\<lparr>fq_bm := bm, fq_code_cnt := c + 1\<rparr>)) (bitmap_set (fq_bm h) c))"

definition free_fqdn_code :: "u32 \<Rightarrow> dpi_fqdn_hdl \<Rightarrow> dpi_fqdn_hdl option" where
  "free_fqdn_code code h = map_option (\<lambda>bm. h\<lparr>fq_bm := bm\<rparr>) (bitmap_clear (fq_bm h) (uint (ntohl code) - 1))"

section \<open>Names\<close>

definition is_fqdn_name_wildcard :: "string \<Rightarrow> bool" where
  "is_fqdn_name_wildcard name = (case str_split name ''.'' of [] \<Rightarrow> False | t # _ \<Rightarrow> strcaseeq t ''*'')"

text \<open>The first loop of the wildcard matching: the last dot, the final character apart.\<close>

fun last_dot :: "string \<Rightarrow> nat \<Rightarrow> nat" where
  "last_dot s 0 = 0"
| "last_dot s (Suc j) = (if s ! (Suc j) = CHR ''.'' then Suc j else last_dot s j)"

text \<open>The second loop: the wildcard names it compares, or looks up, in order.\<close>

definition wild_names :: "string \<Rightarrow> string list" where
  "wild_names dname = (
    let j = (if length dname < 2 then 0 else last_dot dname (length dname - 2)) in
    map (\<lambda>i. CHR ''*'' # drop (i + 1) dname) (filter (\<lambda>i. dname ! (i + 1) = CHR ''.'') [0..<j - 1]))"

definition match_fqdn_wildcard_name :: "string \<Rightarrow> string \<Rightarrow> bool" where
  "match_fqdn_wildcard_name vhost fqdname =
    list_ex (\<lambda>n. strcaseeq fqdname n) (wild_names (strlcpy vhost MAX_FQDN_LEN))"

section \<open>The relation of names and addresses\<close>

definition rlist_of :: "dpi_fqdn_hdl \<Rightarrow> u32 \<Rightarrow> rid list" where
  "rlist_of h ip = (case gget (fq_ipv4 h) ip of Some l \<Rightarrow> l | None \<Rightarrow> [])"

text \<open>
  \<open>config_record_ip_list\<close>, on the entry of \<open>ip\<close>, which is added to the table when it is new.  The result is
  1 when the address is new for the record.
\<close>

definition config_record_ip_list :: "u32 \<Rightarrow> rid \<Rightarrow> dpi_fqdn_hdl \<Rightarrow> int \<times> dpi_fqdn_hdl" where
  "config_record_ip_list ip r h = (
    let rl = rlist_of h ip;
        h = h\<lparr>fq_ipv4 := gput ip (if r \<in> set rl then rl else rl @ [r]) (fq_ipv4 h)\<rparr> in
    if ip \<in> set (fr_iplist (fq_rec h r)) then (0, h)
    else (1, set_rec r (\<lambda>x. x\<lparr>fr_iplist := fr_iplist x @ [ip], fr_ip_cnt := fr_ip_cnt x + 1\<rparr>) h))"

definition config_fqdn_ipv4_mapping :: "string \<Rightarrow> u32 \<Rightarrow> bool \<Rightarrow> dpi_fqdn_hdl \<Rightarrow> (u32 \<times> dpi_fqdn_hdl) option" where
  "config_fqdn_ipv4_mapping name ip vh h = (
    let add_ip = (\<lambda>r h. if ip = 0 then Some (fr_code (fq_rec h r), h)
      else (let (ret, h) = config_record_ip_list ip r h in Some (fr_code (fq_rec h r), h))) in
    case fqdn_name_lookup h name of
      None \<Rightarrow>
        (case alloc_fqdn_code h of None \<Rightarrow> None
        | Some (code, h) \<Rightarrow>
            if code = - 1 then Some (- 1, h)
            else
              let r = fq_next h; n = strlcpy name MAX_FQDN_LEN;
                  h = (set_rec r (\<lambda>_. \<lparr>fr_name = n, fr_code = code,
                      fr_flag = (if is_fqdn_name_wildcard n then FQDN_RECORD_WILDCARD else 0),
                      fr_ip_cnt = 0, fr_updated = False, fr_iplist = [], fr_vh = vh\<rparr>) h)
                      \<lparr>fq_next := Suc r, fq_names := fq_names h @ [(name, r)]\<rparr> in
              add_ip r h)
    | Some r \<Rightarrow>
        add_ip r (set_rec r (\<lambda>x. x\<lparr>fr_vh := vh,
          fr_flag := (if fr_flag x AND FQDN_RECORD_WILDCARD \<noteq> 0 then FQDN_RECORD_WILDCARD else 0)\<rparr>) h))"

fun associate_loop :: "rid \<Rightarrow> u32 list \<Rightarrow> bool \<Rightarrow> dpi_fqdn_hdl \<Rightarrow> bool \<times> dpi_fqdn_hdl" where
  "associate_loop r [] new_ip h = (new_ip, h)"
| "associate_loop r (ip # ips) new_ip h = (
    let known = gget (fq_ipv4 h) ip \<noteq> None;
        wild = fr_flag (fq_rec h r) AND FQDN_RECORD_WILDCARD \<noteq> 0;
        (ret, h) = config_record_ip_list ip r h in
    associate_loop r ips (new_ip \<or> (wild \<and> (if known then ret = 1 else True))) h)"

definition associate_ip_record :: "rid \<Rightarrow> u32 list \<Rightarrow> dpi_fqdn_hdl \<Rightarrow> dpi_fqdn_hdl" where
  "associate_ip_record r ips h = (
    let (new_ip, h) = associate_loop r ips False h in
    if new_ip then set_rec r (\<lambda>x. x\<lparr>fr_updated := True\<rparr>) h else h)"

definition associate_name :: "string \<Rightarrow> u32 list \<Rightarrow> dpi_fqdn_hdl \<Rightarrow> dpi_fqdn_hdl" where
  "associate_name name ips h = (case fqdn_name_lookup h name of
      None \<Rightarrow> h
    | Some r \<Rightarrow>
        if fr_flag (fq_rec h r) AND (FQDN_RECORD_TO_DELETE OR FQDN_RECORD_DELETED) = 0
        then associate_ip_record r ips h else h)"

definition snooped_fqdn_ipv4_mapping :: "string \<Rightarrow> u32 list \<Rightarrow> dpi_fqdn_hdl \<Rightarrow> dpi_fqdn_hdl" where
  "snooped_fqdn_ipv4_mapping name0 ips h = (
    let name = lower_string name0;
        h = associate_name name ips h in
    fold (\<lambda>n h. associate_name n ips h) (wild_names (strlcpy name MAX_FQDN_LEN)) h)"

section \<open>Deletion\<close>

definition dpi_fqdn_entry_mark_delete :: "string \<Rightarrow> dpi_fqdn_hdl \<Rightarrow> dpi_fqdn_hdl" where
  "dpi_fqdn_entry_mark_delete name h = (case fqdn_name_lookup h name of
      None \<Rightarrow> h
    | Some r \<Rightarrow> set_rec r (\<lambda>x. x\<lparr>fr_flag := fr_flag x OR FQDN_RECORD_TO_DELETE\<rparr>) h)"

text \<open>
  One walk over the names.  The arguments are the entries still to visit and the records queued so far; the
  result is whether the queue was full, the queue, the entries that stay and the handle.
\<close>

fun name_walk :: "(string \<times> rid) list \<Rightarrow> rid list \<Rightarrow> dpi_fqdn_hdl
    \<Rightarrow> bool \<times> rid list \<times> (string \<times> rid) list \<times> dpi_fqdn_hdl" where
  "name_walk [] q h = (False, q, [], h)"
| "name_walk ((key, r) # ns) q h = (
    if fr_flag (fq_rec h r) AND FQDN_RECORD_TO_DELETE \<noteq> 0 then
      if length q = DPI_FQDN_DELETE_QLEN then (True, q, (key, r) # ns, h)
      else name_walk ns (q @ [r]) (set_rec r (\<lambda>x. x\<lparr>fr_flag := fr_flag x OR FQDN_RECORD_DELETED\<rparr>) h)
    else (case name_walk ns q h of (full, q, rest, h) \<Rightarrow> (full, q, (key, r) # rest, h)))"

text \<open>One walk over the addresses: whether the queue was full, its length and the entries that stay.\<close>

definition live_records :: "dpi_fqdn_hdl \<Rightarrow> rid list \<Rightarrow> rid list" where
  "live_records h l = filter (\<lambda>r. fr_flag (fq_rec h r) AND FQDN_RECORD_DELETED = 0) l"

fun ipv4_walk :: "dpi_fqdn_hdl \<Rightarrow> (u32 \<times> rid list) list \<Rightarrow> nat \<Rightarrow> bool \<times> nat \<times> (u32 \<times> rid list) list" where
  "ipv4_walk h [] q = (False, q, [])"
| "ipv4_walk h ((ip, l) # es) q = (
    let l' = live_records h l in
    if l' = [] then
      if q = DPI_FQDN_DELETE_QLEN then (True, q, (ip, l') # es)
      else ipv4_walk h es (q + 1)
    else (case ipv4_walk h es q of (full, q, rest) \<Rightarrow> (full, q, (ip, l') # rest)))"

lemma ipv4_walk_length:
  "ipv4_walk h es q = (full, q', rest) \<Longrightarrow> q \<le> q' \<and> length es = length rest + (q' - q) \<and> (full \<longrightarrow> q' = DPI_FQDN_DELETE_QLEN)"
  by (induction h es q arbitrary: full q' rest rule: ipv4_walk.induct)
    (fastforce simp: Let_def split: if_splits prod.splits)+

text \<open>The inner loop, which frees the queued entries after each walk.\<close>

function ipv4_sweep :: "dpi_fqdn_hdl \<Rightarrow> (u32 \<times> rid list) list \<Rightarrow> (u32 \<times> rid list) list" where
  "ipv4_sweep h es = (case ipv4_walk h es 0 of (full, q, rest) \<Rightarrow> if full then ipv4_sweep h rest else rest)"
  by pat_completeness auto
termination
  by (relation "measure (\<lambda>(h, es). length es)")
    (auto dest!: ipv4_walk_length[OF sym] simp: DPI_FQDN_DELETE_QLEN_def)

declare ipv4_sweep.simps [simp del]

fun free_fqdn_name :: "rid list \<Rightarrow> dpi_fqdn_hdl \<Rightarrow> dpi_fqdn_hdl option" where
  "free_fqdn_name [] h = Some h"
| "free_fqdn_name (r # q) h = (case free_fqdn_code (fr_code (fq_rec h r)) h of
      None \<Rightarrow> None
    | Some h \<Rightarrow> free_fqdn_name q ((set_rec r (\<lambda>x. x\<lparr>fr_iplist := [], fr_ip_cnt := fr_ip_cnt x - of_nat (length (fr_iplist x))\<rparr>) h)
        \<lparr>fq_freed := r # fq_freed h\<rparr>))"

lemma name_walk_length:
  "name_walk ns q h = (full, q', rest, h') \<Longrightarrow>
    length q \<le> length q' \<and> length ns = length rest + (length q' - length q) \<and> (full \<longrightarrow> length q' = DPI_FQDN_DELETE_QLEN)"
  by (induction ns q h arbitrary: full q' rest h' rule: name_walk.induct)
    (fastforce simp: Let_def split: if_splits prod.splits)+

definition delete_pass :: "dpi_fqdn_hdl \<Rightarrow> (bool \<times> dpi_fqdn_hdl) option" where
  "delete_pass h = (case name_walk (fq_names h) [] h of (full, q, rest, h) \<Rightarrow>
    let h = h\<lparr>fq_names := rest\<rparr> in
    if q = [] then Some (full, h)
    else map_option (Pair full) (free_fqdn_name q (h\<lparr>fq_ipv4 := ipv4_sweep h (fq_ipv4 h)\<rparr>)))"

partial_function (option) dpi_fqdn_entry_delete_marked :: "dpi_fqdn_hdl \<Rightarrow> dpi_fqdn_hdl option" where
  "dpi_fqdn_entry_delete_marked h = (case delete_pass h of
      None \<Rightarrow> None
    | Some (full, h) \<Rightarrow> if full then dpi_fqdn_entry_delete_marked h else Some h)"


section \<open>Invariant\<close>

definition recs :: "dpi_fqdn_hdl \<Rightarrow> rid list" where
  "recs h = map snd (fq_names h)"

text \<open>The position of a record's code in the bitmap.\<close>

definition code_ix :: "fqdn_record \<Rightarrow> int" where
  "code_ix x = uint (ntohl (fr_code x)) - 1"

definition codes_ok :: "dpi_fqdn_hdl \<Rightarrow> bool" where
  "codes_ok h \<longleftrightarrow> bitmap_wf (fq_bm h) \<and> bits (fq_bm h) = DPI_FQDN_MAX_ENTRIES \<and>
    inj_on (\<lambda>r. code_ix (fq_rec h r)) (set (recs h)) \<and>
    (\<forall>r\<in>set (recs h). 0 \<le> code_ix (fq_rec h r) \<and> code_ix (fq_rec h r) < DPI_FQDN_MAX_ENTRIES) \<and>
    (\<forall>c. 0 \<le> c \<longrightarrow> c < DPI_FQDN_MAX_ENTRIES \<longrightarrow> taken (fq_bm h) c = (c \<in> (\<lambda>r. code_ix (fq_rec h r)) ` set (recs h)))"

definition links_ok :: "dpi_fqdn_hdl \<Rightarrow> bool" where
  "links_ok h \<longleftrightarrow> gwf (fq_ipv4 h) \<and>
    (\<forall>ip l. gget (fq_ipv4 h) ip = Some l \<longrightarrow> l \<noteq> [] \<and> distinct l \<and> set l \<subseteq> set (recs h)) \<and>
    (\<forall>r\<in>set (recs h). distinct (fr_iplist (fq_rec h r)) \<and>
      fr_ip_cnt (fq_rec h r) = of_nat (length (fr_iplist (fq_rec h r))) \<and>
      (\<forall>ip. ip \<in> set (fr_iplist (fq_rec h r)) \<longleftrightarrow> r \<in> set (rlist_of h ip)))"

definition marked :: "dpi_fqdn_hdl \<Rightarrow> rid \<Rightarrow> bool" where
  "marked h r \<longleftrightarrow> fr_flag (fq_rec h r) AND FQDN_RECORD_TO_DELETE \<noteq> 0"

definition deleted :: "dpi_fqdn_hdl \<Rightarrow> rid \<Rightarrow> bool" where
  "deleted h r \<longleftrightarrow> fr_flag (fq_rec h r) AND FQDN_RECORD_DELETED \<noteq> 0"

definition recs_ok :: "dpi_fqdn_hdl \<Rightarrow> bool" where
  "recs_ok h \<longleftrightarrow> distinct (recs h) \<and> set (fq_freed h) \<subseteq> {..<fq_next h} \<and>
    (\<forall>r\<in>set (recs h). r < fq_next h \<and> r \<notin> set (fq_freed h) \<and> \<not> deleted h r)"

definition fqdn_inv :: "dpi_fqdn_hdl \<Rightarrow> bool" where
  "fqdn_inv h \<longleftrightarrow> codes_ok h \<and> links_ok h \<and> recs_ok h"

subsection \<open>Flags\<close>

lemmas flag_defs = FQDN_RECORD_TO_DELETE_def FQDN_RECORD_DELETED_def FQDN_RECORD_WILDCARD_def

lemma and_bit_iff:
  fixes x :: u32
  shows "x AND 1 \<noteq> 0 \<longleftrightarrow> bit x 0" "x AND 2 \<noteq> 0 \<longleftrightarrow> bit x 1" "x AND 4 \<noteq> 0 \<longleftrightarrow> bit x 2"
proof -
  have g: "x AND 2 ^ n \<noteq> 0 \<longleftrightarrow> bit x n" for n
    by (simp add: and_exp_eq_0_iff_not_bit)
  show "x AND 1 \<noteq> 0 \<longleftrightarrow> bit x 0" "x AND 2 \<noteq> 0 \<longleftrightarrow> bit x 1" "x AND 4 \<noteq> 0 \<longleftrightarrow> bit x 2"
    using g[of 0] g[of 1] g[of 2] by simp_all
qed

lemma bit_small_flags:
  "bit (1 :: u32) n \<longleftrightarrow> n = 0" "bit (2 :: u32) n \<longleftrightarrow> n = 1" "bit (4 :: u32) n \<longleftrightarrow> n = 2"
proof -
  have "bit (push_bit k 1 :: u32) n \<longleftrightarrow> n = k" if "k < 32" for k
    using that by (auto simp: bit_simps)
  from this[of 0] this[of 1] this[of 2]
  show "bit (1 :: u32) n \<longleftrightarrow> n = 0" "bit (2 :: u32) n \<longleftrightarrow> n = 1" "bit (4 :: u32) n \<longleftrightarrow> n = 2"
    by simp_all
qed

lemma marked_bit: "marked h r \<longleftrightarrow> bit (fr_flag (fq_rec h r)) 0"
  by (simp add: marked_def flag_defs and_bit_iff)

lemma deleted_bit: "deleted h r \<longleftrightarrow> bit (fr_flag (fq_rec h r)) 1"
  by (simp add: deleted_def flag_defs and_bit_iff)

lemma live_records_eq: "live_records h l = filter (\<lambda>r. \<not> deleted h r) l"
  by (simp add: live_records_def deleted_def)


subsection \<open>Codes\<close>

lemma code_ix_new:
  assumes "0 \<le> c" and "c < DPI_FQDN_MAX_ENTRIES"
  shows "uint (ntohl (htonl (of_int (c + 1)))) - 1 = c" "htonl (of_int (c + 1)) \<noteq> - 1" "htonl (of_int (c + 1)) \<noteq> 0"
proof -
  have u: "uint (of_int (c + 1) :: u32) = c + 1"
    using assms unfolding DPI_FQDN_MAX_ENTRIES_def by (subst uint_word_of_int) simp
  then show "uint (ntohl (htonl (of_int (c + 1)))) - 1 = c" by simp
  show "htonl (of_int (c + 1)) \<noteq> - 1"
  proof
    assume "htonl (of_int (c + 1)) = - 1"
    then have "of_int (c + 1) = ntohl (- 1)" by (metis ntohl_htonl(1))
    also have "ntohl (- 1) = - 1"
      by (rule bit_word_eqI) (auto simp: bit_ntohl)
    finally have "c + 1 = uint (- 1 :: u32)" using u by metis
    then show False using assms by (simp add: DPI_FQDN_MAX_ENTRIES_def unsigned_minus_1_eq_mask mask_eq_exp_minus_1)
  qed
  show "htonl (of_int (c + 1)) \<noteq> 0"
  proof
    assume "htonl (of_int (c + 1)) = 0"
    then have "of_int (c + 1) = ntohl 0" by (metis ntohl_htonl(1))
    also have "ntohl 0 = 0" by (simp add: ntohl_def)
    finally show False using u assms by simp
  qed
qed

lemma next_zero_cases:
  assumes "bitmap_wf b"
  shows "\<exists>c. bitmap_get_next_zero b n = Some c \<and>
    (c = - 1 \<and> (\<forall>m. 0 \<le> m \<longrightarrow> m < bits b \<longrightarrow> taken b m) \<or> 0 \<le> c \<and> c < bits b \<and> \<not> taken b c)"
proof -
  let ?n = "if n < 0 \<or> n \<ge> bits b then 0 else n"
  have n: "0 \<le> ?n" "?n < bits b" using assms by (auto simp: bitmap_wf_def)
  have e: "bitmap_get_next_zero b n = bitmap_get_next_zero b ?n"
    using n by (auto simp: bitmap_get_next_zero_def)
  let ?l = "[?n..bits b - 1] @ [0..?n - 1]"
  have s: "set ?l = {0..<bits b}" using n by auto
  show ?thesis
  proof (cases "find (\<lambda>m. \<not> taken b m) ?l")
    case None
    then have "\<forall>m\<in>set ?l. taken b m" by (metis find_None_iff)
    then show ?thesis
      using None s e get_next_zero_find[OF assms n] by auto
  next
    case (Some c)
    then have "c \<in> set ?l" "\<not> taken b c" by (auto dest: find_SomeD)
    then show ?thesis
      using Some s e get_next_zero_find[OF assms n] by auto
  qed
qed

lemma alloc_code_cases:
  assumes "codes_ok h"
  shows "(\<exists>h'. alloc_fqdn_code h = Some (- 1, h') \<and> codes_ok h' \<and> fq_names h' = fq_names h \<and> fq_ipv4 h' = fq_ipv4 h \<and>
      fq_rec h' = fq_rec h \<and> fq_next h' = fq_next h \<and> fq_freed h' = fq_freed h) \<or>
    (\<exists>c bm. 0 \<le> c \<and> c < DPI_FQDN_MAX_ENTRIES \<and> \<not> taken (fq_bm h) c \<and> bitmap_wf bm \<and> bits bm = DPI_FQDN_MAX_ENTRIES \<and>
      (\<forall>m. 0 \<le> m \<longrightarrow> m < DPI_FQDN_MAX_ENTRIES \<longrightarrow> taken bm m = (m = c \<or> taken (fq_bm h) m)) \<and>
      alloc_fqdn_code h = Some (htonl (of_int (c + 1)), h\<lparr>fq_bm := bm, fq_code_cnt := c + 1\<rparr>))"
proof -
  have b: "bitmap_wf (fq_bm h)" "bits (fq_bm h) = DPI_FQDN_MAX_ENTRIES"
    using assms by (simp_all add: codes_ok_def)
  from next_zero_cases[OF b(1), of "fq_code_cnt h"] obtain c where
    c: "bitmap_get_next_zero (fq_bm h) (fq_code_cnt h) = Some c"
    and cc: "c = - 1 \<or> 0 \<le> c \<and> c < bits (fq_bm h) \<and> \<not> taken (fq_bm h) c" by blast
  show ?thesis
  proof (cases "c = - 1")
    case True
    then show ?thesis
      using c assms by (intro disjI1) (simp add: alloc_fqdn_code_def codes_ok_def recs_def)
  next
    case False
    then have r: "0 \<le> c" "c < bits (fq_bm h)" "\<not> taken (fq_bm h) c" using cc by auto
    from taken_set[OF b(1) r(1,2)] c r b(2) show ?thesis
      by (intro disjI2 exI[of _ c]) (auto simp: alloc_fqdn_code_def)
  qed
qed

subsection \<open>Links\<close>

lemma links_rlist:
  assumes "links_ok h"
  shows "distinct (rlist_of h ip)" "set (rlist_of h ip) \<subseteq> set (recs h)"
  using assms by (cases "gget (fq_ipv4 h) ip"; fastforce simp: rlist_of_def links_ok_def)+

lemma rlist_of_put [simp]: "rlist_of (h\<lparr>fq_ipv4 := gput ip l (fq_ipv4 h)\<rparr>) ip' = (if ip' = ip then l else rlist_of h ip')"
  by (simp add: rlist_of_def)

lemma rlist_of_set_rec [simp]: "rlist_of (set_rec r f h) = rlist_of h"
  by (simp add: rlist_of_def set_rec_def fun_eq_iff)

lemma set_rec_simps [simp]:
  "fq_names (set_rec r f h) = fq_names h" "fq_ipv4 (set_rec r f h) = fq_ipv4 h" "fq_next (set_rec r f h) = fq_next h"
  "fq_freed (set_rec r f h) = fq_freed h" "fq_bm (set_rec r f h) = fq_bm h" "fq_code_cnt (set_rec r f h) = fq_code_cnt h"
  "fq_rec (set_rec r f h) r' = (if r' = r then f (fq_rec h r) else fq_rec h r')"
  by (simp_all add: set_rec_def)

lemma recs_simps [simp]: "recs (set_rec r f h) = recs h" "recs (h\<lparr>fq_ipv4 := x\<rparr>) = recs h"
  by (simp_all add: recs_def)

lemma record_ip_list_frame:
  assumes "config_record_ip_list ip r h = (ret, h')"
  shows "fq_names h' = fq_names h" "fq_next h' = fq_next h" "fq_freed h' = fq_freed h" "fq_bm h' = fq_bm h"
    "fr_code (fq_rec h' r') = fr_code (fq_rec h r')" "fr_flag (fq_rec h' r') = fr_flag (fq_rec h r')"
    "fr_name (fq_rec h' r') = fr_name (fq_rec h r')" "r' \<noteq> r \<Longrightarrow> fq_rec h' r' = fq_rec h r'"
  using assms by (auto simp: config_record_ip_list_def Let_def split: if_splits)

lemma record_ip_list_effect:
  assumes "config_record_ip_list ip r h = (ret, h')"
  shows "rlist_of h' ip' = (if ip' = ip \<and> r \<notin> set (rlist_of h ip) then rlist_of h ip @ [r] else rlist_of h ip')"
    "fr_iplist (fq_rec h' r) = (if ip \<in> set (fr_iplist (fq_rec h r)) then fr_iplist (fq_rec h r) else fr_iplist (fq_rec h r) @ [ip])"
    "fq_ipv4 h' = gput ip (rlist_of h' ip) (fq_ipv4 h)"
    "fr_ip_cnt (fq_rec h' r) = fr_ip_cnt (fq_rec h r) + (if ip \<in> set (fr_iplist (fq_rec h r)) then 0 else 1)"
    "ret = (if ip \<in> set (fr_iplist (fq_rec h r)) then 0 else 1)"
  using assms by (auto simp: config_record_ip_list_def Let_def rlist_of_def split: if_splits)

lemma links_ok_record_ip_list:
  assumes "links_ok h" and "r \<in> set (recs h)" and c: "config_record_ip_list ip r h = (ret, h')"
  shows "links_ok h'"
proof -
  note f = record_ip_list_frame[OF c] and e = record_ip_list_effect[OF c]
  have rs: "recs h' = recs h" by (simp add: recs_def f(1))
  have L: "\<And>ip l. gget (fq_ipv4 h) ip = Some l \<Longrightarrow> l \<noteq> [] \<and> distinct l \<and> set l \<subseteq> set (recs h)"
    using assms(1) by (simp add: links_ok_def)
  note R = links_rlist[OF assms(1)]
  have new: "rlist_of h' ip \<noteq> [] \<and> distinct (rlist_of h' ip) \<and> set (rlist_of h' ip) \<subseteq> set (recs h)"
    using R[of ip] assms(2) by (auto simp: e(1))
  have "gget (fq_ipv4 h') ip' = Some l \<Longrightarrow> l \<noteq> [] \<and> distinct l \<and> set l \<subseteq> set (recs h')" for ip' l
    using new L[of ip'] by (auto simp: e(3) rs split: if_splits)
  moreover have "distinct (fr_iplist (fq_rec h' r')) \<and> fr_ip_cnt (fq_rec h' r') = of_nat (length (fr_iplist (fq_rec h' r'))) \<and>
      (\<forall>ip. ip \<in> set (fr_iplist (fq_rec h' r')) \<longleftrightarrow> r' \<in> set (rlist_of h' ip))" if "r' \<in> set (recs h)" for r'
  proof (cases "r' = r")
    case True
    then show ?thesis
      using assms(1) that by (auto simp: links_ok_def e)
  next
    case False
    then show ?thesis
      using assms(1) that by (auto simp: links_ok_def e(1) f(8))
  qed
  ultimately show ?thesis
    using assms(1) by (auto simp: links_ok_def e(3) rs)
qed

text \<open>An update that keeps the code and the addresses of a record.\<close>

lemma inv_set_rec:
  assumes "fqdn_inv h" and "\<And>x. fr_code (f x) = fr_code x" and "\<And>x. fr_iplist (f x) = fr_iplist x"
    and "\<And>x. fr_ip_cnt (f x) = fr_ip_cnt x" and "\<And>x. \<not> bit (fr_flag x) 1 \<Longrightarrow> \<not> bit (fr_flag (f x)) 1"
  shows "fqdn_inv (set_rec r f h)"
proof -
  have "code_ix (fq_rec (set_rec r f h) r') = code_ix (fq_rec h r')" for r'
    by (simp add: code_ix_def assms(2))
  then have "codes_ok (set_rec r f h)"
    using assms(1) by (simp add: fqdn_inv_def codes_ok_def)
  moreover have "links_ok (set_rec r f h)"
    using assms(1) by (auto simp: fqdn_inv_def links_ok_def assms(3,4))
  moreover have "recs_ok (set_rec r f h)"
    using assms(1,5) by (auto simp: fqdn_inv_def recs_ok_def deleted_bit)
  ultimately show ?thesis by (simp add: fqdn_inv_def)
qed

lemma inv_record_ip_list:
  assumes "fqdn_inv h" and "r \<in> set (recs h)" and c: "config_record_ip_list ip r h = (ret, h')"
  shows "fqdn_inv h' \<and> recs h' = recs h"
proof -
  note f = record_ip_list_frame[OF c]
  have rs: "recs h' = recs h" by (simp add: recs_def f(1))
  have "codes_ok h'"
    using assms(1) by (simp add: fqdn_inv_def codes_ok_def rs f(4,5) code_ix_def)
  moreover have "recs_ok h'"
    using assms(1) by (simp add: fqdn_inv_def recs_ok_def rs f(2,3,6) deleted_def)
  ultimately show ?thesis
    using links_ok_record_ip_list[OF _ assms(2) c] assms(1) rs by (simp add: fqdn_inv_def)
qed

lemma name_lookup_recs: "fqdn_name_lookup h k = Some r \<Longrightarrow> r \<in> set (recs h)"
  by (force simp: fqdn_name_lookup_def recs_def dest!: find_SomeD)

lemma inv_associate_loop:
  "fqdn_inv h \<Longrightarrow> r \<in> set (recs h) \<Longrightarrow> associate_loop r ips b h = (b', h') \<Longrightarrow> fqdn_inv h' \<and> recs h' = recs h"
proof (induction ips arbitrary: b h)
  case (Cons ip ips)
  obtain ret h1 where c: "config_record_ip_list ip r h = (ret, h1)" by (cases "config_record_ip_list ip r h")
  from inv_record_ip_list[OF Cons.prems(1,2) c] show ?case
    using Cons.IH[of h1] Cons.prems by (auto simp: c Let_def)
qed auto

lemma inv_associate_name: "fqdn_inv h \<Longrightarrow> fqdn_inv (associate_name n ips h)"
proof -
  assume h: "fqdn_inv h"
  have "fqdn_inv (associate_ip_record r ips h)" if "fqdn_name_lookup h n = Some r" for r
  proof -
    obtain b h1 where l: "associate_loop r ips False h = (b, h1)" by (cases "associate_loop r ips False h")
    with inv_associate_loop[OF h name_lookup_recs[OF that] l] show ?thesis
      by (auto simp: associate_ip_record_def intro: inv_set_rec)
  qed
  with h show ?thesis
    by (simp add: associate_name_def split: option.split)
qed

lemma inv_snooped: "fqdn_inv h \<Longrightarrow> fqdn_inv (snooped_fqdn_ipv4_mapping name ips h)"
proof -
  assume "fqdn_inv h"
  then have "fqdn_inv (fold (\<lambda>n h. associate_name n ips h) ns (associate_name n ips h))" for ns n
    by (induction ns rule: rev_induct) (auto intro: inv_associate_name)
  then show ?thesis by (simp add: snooped_fqdn_ipv4_mapping_def Let_def)
qed

lemma inv_mark: "fqdn_inv h \<Longrightarrow> fqdn_inv (dpi_fqdn_entry_mark_delete name h)"
  by (auto simp: dpi_fqdn_entry_mark_delete_def flag_defs bit_simps bit_small_flags split: option.split intro!: inv_set_rec)


text \<open>A new record.\<close>

lemma inv_new_record:
  fixes n :: int and name :: string
  assumes "fqdn_inv h" and c: "0 \<le> c" "c < DPI_FQDN_MAX_ENTRIES" "\<not> taken (fq_bm h) c"
    and bm: "bitmap_wf bm" "bits bm = DPI_FQDN_MAX_ENTRIES"
      "\<forall>m. 0 \<le> m \<longrightarrow> m < DPI_FQDN_MAX_ENTRIES \<longrightarrow> taken bm m = (m = c \<or> taken (fq_bm h) m)"
    and x: "fr_code x = htonl (of_int (c + 1))" "fr_iplist x = []" "fr_ip_cnt x = 0" "\<not> bit (fr_flag x) 1"
  defines "h' \<equiv> (set_rec (fq_next h) (\<lambda>_. x) (h\<lparr>fq_bm := bm, fq_code_cnt := n\<rparr>))
    \<lparr>fq_next := Suc (fq_next h), fq_names := fq_names h @ [(name, fq_next h)]\<rparr>"
  shows "fqdn_inv h' \<and> recs h' = recs h @ [fq_next h] \<and> fq_rec h' (fq_next h) = x"
proof -
  have rs: "recs h' = recs h @ [fq_next h]" by (simp add: h'_def recs_def)
  have lt: "r < fq_next h" if "r \<in> set (recs h)" for r
    using assms(1) that by (simp add: fqdn_inv_def recs_ok_def)
  then have nr: "fq_next h \<notin> set (recs h)" by blast
  have old: "fq_rec h' r = fq_rec h r" if "r \<in> set (recs h)" for r
    using lt[OF that] by (simp add: h'_def)
  have new: "fq_rec h' (fq_next h) = x" by (simp add: h'_def)
  have cx: "code_ix x = c" unfolding code_ix_def x(1) by (rule code_ix_new(1)[OF c(1,2)])
  have rl: "rlist_of h' = rlist_of h" by (simp add: h'_def rlist_of_def fun_eq_iff)
  have img: "(\<lambda>r. code_ix (fq_rec h' r)) ` set (recs h) = (\<lambda>r. code_ix (fq_rec h r)) ` set (recs h)"
    using old by auto
  have cn: "c \<notin> (\<lambda>r. code_ix (fq_rec h r)) ` set (recs h)"
    using assms(1) c by (simp add: fqdn_inv_def codes_ok_def)
  have "inj_on (\<lambda>r. code_ix (fq_rec h' r)) (set (recs h))"
    using assms(1) old by (simp add: fqdn_inv_def codes_ok_def inj_on_def)
  then have "codes_ok h'"
    using assms(1) c bm cn old by (auto simp: codes_ok_def fqdn_inv_def rs new cx img, auto simp: h'_def)
  moreover have "links_ok h'"
  proof -
    have l: "links_ok h" using assms(1) by (simp add: fqdn_inv_def)
    have "fq_next h \<notin> set (rlist_of h ip)" for ip using links_rlist(2)[OF l, of ip] nr by blast
    moreover have "fq_ipv4 h' = fq_ipv4 h" by (simp add: h'_def)
    ultimately show ?thesis
      using l old x by (auto simp: links_ok_def rs rl new) blast
  qed
  moreover have "recs_ok h'"
    using assms(1) old nr lt x
    by (auto simp: recs_ok_def fqdn_inv_def rs new deleted_bit less_SucI, auto simp: h'_def less_SucI)
  ultimately show ?thesis
    using rs new by (simp add: fqdn_inv_def)
qed

lemma inv_config:
  assumes "fqdn_inv h"
  shows "\<exists>code h'. config_fqdn_ipv4_mapping name ip vh h = Some (code, h') \<and> fqdn_inv h' \<and>
    (code \<noteq> - 1 \<longrightarrow> (\<exists>r\<in>set (recs h'). fr_code (fq_rec h' r) = code \<and>
      (ip \<noteq> 0 \<longrightarrow> ip \<in> set (fr_iplist (fq_rec h' r)))))"
proof -
  have add: "\<exists>code h'. (if ip = 0 then Some (fr_code (fq_rec h r), h)
      else (let (ret, h) = config_record_ip_list ip r h in Some (fr_code (fq_rec h r), h))) = Some (code, h') \<and>
      fqdn_inv h' \<and> (\<exists>r\<in>set (recs h'). fr_code (fq_rec h' r) = code \<and> (ip \<noteq> 0 \<longrightarrow> ip \<in> set (fr_iplist (fq_rec h' r))))"
    if h: "fqdn_inv h" and r: "r \<in> set (recs h)" for r h
  proof -
    obtain ret h' where c: "config_record_ip_list ip r h = (ret, h')" by (cases "config_record_ip_list ip r h")
    show ?thesis
      using h r inv_record_ip_list[OF h r c] record_ip_list_effect(2)[OF c] by (cases "ip = 0") (auto simp: c)
  qed
  show ?thesis
  proof (cases "fqdn_name_lookup h name")
    case (Some r)
    let ?h = "set_rec r (\<lambda>x. x\<lparr>fr_vh := vh,
        fr_flag := (if fr_flag x AND FQDN_RECORD_WILDCARD \<noteq> 0 then FQDN_RECORD_WILDCARD else 0)\<rparr>) h"
    have "fqdn_inv ?h"
      using assms by (rule inv_set_rec) (simp_all add: flag_defs bit_small_flags)
    from add[OF this, of r] name_lookup_recs[OF Some] Some show ?thesis
      by (auto simp: config_fqdn_ipv4_mapping_def)
  next
    case None
    have "codes_ok h" using assms by (simp add: fqdn_inv_def)
    from alloc_code_cases[OF this] show ?thesis
    proof (elim disjE exE conjE)
      fix h' assume "alloc_fqdn_code h = Some (- 1, h')" "codes_ok h'" "fq_names h' = fq_names h" "fq_ipv4 h' = fq_ipv4 h"
        "fq_rec h' = fq_rec h" "fq_next h' = fq_next h" "fq_freed h' = fq_freed h"
      then show ?thesis
        using assms None
        by (auto simp: config_fqdn_ipv4_mapping_def fqdn_inv_def links_ok_def recs_ok_def rlist_of_def recs_def deleted_def)
    next
      fix c bm
      assume c: "0 \<le> c" "c < DPI_FQDN_MAX_ENTRIES" "\<not> taken (fq_bm h) c" and bm: "bitmap_wf bm"
        "bits bm = DPI_FQDN_MAX_ENTRIES" "\<forall>m. 0 \<le> m \<longrightarrow> m < DPI_FQDN_MAX_ENTRIES \<longrightarrow> taken bm m = (m = c \<or> taken (fq_bm h) m)"
        and a: "alloc_fqdn_code h = Some (htonl (of_int (c + 1)), h\<lparr>fq_bm := bm, fq_code_cnt := c + 1\<rparr>)"
      let ?n = "strlcpy name MAX_FQDN_LEN"
      let ?x = "\<lparr>fr_name = ?n, fr_code = htonl (of_int (c + 1)),
        fr_flag = (if is_fqdn_name_wildcard ?n then FQDN_RECORD_WILDCARD else 0),
        fr_ip_cnt = 0, fr_updated = False, fr_iplist = [], fr_vh = vh\<rparr>"
      let ?h = "(set_rec (fq_next h) (\<lambda>_. ?x) (h\<lparr>fq_bm := bm, fq_code_cnt := c + 1\<rparr>))
        \<lparr>fq_next := Suc (fq_next h), fq_names := fq_names h @ [(name, fq_next h)]\<rparr>"
      have "fqdn_inv ?h \<and> recs ?h = recs h @ [fq_next h] \<and> fq_rec ?h (fq_next h) = ?x"
        by (rule inv_new_record[OF assms c bm]) (simp_all add: flag_defs bit_small_flags)
      with add[of ?h "fq_next h"] None a code_ix_new(2)[OF c(1,2)] show ?thesis
        by (auto simp: config_fqdn_ipv4_mapping_def Let_def)
    qed
  qed
qed


subsection \<open>The sweep\<close>

lemma live_records_Nil [simp]: "live_records h [] = []"
  by (simp add: live_records_def)

lemma live_records_idem [simp]: "live_records h (live_records h l) = live_records h l"
  by (simp add: live_records_def)

definition swept :: "dpi_fqdn_hdl \<Rightarrow> (u32 \<times> rid list) list \<Rightarrow> (u32 \<times> rid list) list" where
  "swept h es = filter (\<lambda>(ip, l). l \<noteq> []) (map (\<lambda>(ip, l). (ip, live_records h l)) es)"

lemma ipv4_walk_swept:
  "ipv4_walk h es q = (full, q', rest) \<Longrightarrow> swept h rest = swept h es \<and> (\<not> full \<longrightarrow> rest = swept h es)"
proof (induction h es q arbitrary: full q' rest rule: ipv4_walk.induct)
  case (2 h ip l es q)
  obtain f2 q2 r2 where w: "ipv4_walk h es q = (f2, q2, r2)" by (cases "ipv4_walk h es q")
  obtain f3 q3 r3 where w3: "ipv4_walk h es (q + 1) = (f3, q3, r3)" by (cases "ipv4_walk h es (q + 1)")
  show ?case
    using "2.IH"(1)[OF refl _ _ w3] "2.IH"(2)[OF refl _ w] "2.prems" w w3
    by (auto simp: swept_def Let_def split: if_splits)
qed (simp add: swept_def)

lemma ipv4_sweep_swept: "ipv4_sweep h es = swept h es"
proof (induction h es rule: ipv4_sweep.induct)
  case (1 h es)
  obtain f q r where w: "ipv4_walk h es 0 = (f, q, r)" by (cases "ipv4_walk h es 0")
  with ipv4_walk_swept[OF w] 1[OF w[symmetric] refl] show ?case
    by (subst ipv4_sweep.simps) (auto split: if_splits)
qed

text \<open>The first walk: which records it queues.\<close>

definition del_rec :: "rid set \<Rightarrow> dpi_fqdn_hdl \<Rightarrow> dpi_fqdn_hdl" where
  "del_rec P h = h\<lparr>fq_rec := \<lambda>r. if r \<in> P then (fq_rec h r)\<lparr>fr_flag := fr_flag (fq_rec h r) OR FQDN_RECORD_DELETED\<rparr>
    else fq_rec h r\<rparr>"

lemma marked_del_rec: "marked (del_rec P h) r = marked h r"
  by (simp add: marked_bit del_rec_def flag_defs bit_simps bit_small_flags)

lemma deleted_del_rec: "deleted (del_rec P h) r = (r \<in> P \<or> deleted h r)"
  by (simp add: deleted_bit del_rec_def flag_defs bit_simps bit_small_flags)

lemma name_walk_spec:
  assumes "name_walk ns q h = (full, q', rest, h')" and "distinct (map snd ns)" and "length q \<le> DPI_FQDN_DELETE_QLEN"
  shows "\<exists>p. q' = q @ p \<and> distinct p \<and> set p \<subseteq> set (map snd ns) \<and> (\<forall>r\<in>set p. marked h r) \<and>
    rest = filter (\<lambda>(k, r). r \<notin> set p) ns \<and> h' = del_rec (set p) h \<and>
    (\<not> full \<longrightarrow> (\<forall>r\<in>set (map snd rest). \<not> marked h r)) \<and> (full \<longrightarrow> length q' = DPI_FQDN_DELETE_QLEN)"
  using assms
proof (induction ns q h arbitrary: full q' rest h' rule: name_walk.induct)
  case (1 q h)
  then show ?case by (intro exI[of _ "[]"]) (auto simp: del_rec_def)
next
  case (2 key r ns q h)
  show ?case
  proof (cases "marked h r")
    case False
    obtain f2 q2 r2 h2 where w: "name_walk ns q h = (f2, q2, r2, h2)" by (cases "name_walk ns q h")
    have nm: "\<not> fr_flag (fq_rec h r) AND FQDN_RECORD_TO_DELETE \<noteq> 0" and d: "distinct (map snd ns)"
      using False "2.prems"(2) by (simp_all add: marked_def)
    from "2.IH"(2)[OF nm w d "2.prems"(3)] obtain p where
      p: "q2 = q @ p" "distinct p" "set p \<subseteq> set (map snd ns)" "\<forall>r\<in>set p. marked h r" "r2 = filter (\<lambda>(k, r). r \<notin> set p) ns"
        "h2 = del_rec (set p) h" "\<not> f2 \<longrightarrow> (\<forall>r\<in>set (map snd r2). \<not> marked h r)" "f2 \<longrightarrow> length q2 = DPI_FQDN_DELETE_QLEN"
      by blast
    have "r \<notin> set p" using p(3) "2.prems"(2) by auto
    with p False w "2.prems"(1) show ?thesis
      by (intro exI[of _ p]) (auto simp: marked_def)
  next
    case True
    show ?thesis
    proof (cases "length q = DPI_FQDN_DELETE_QLEN")
      case full: True
      then show ?thesis
        using True "2.prems" by (intro exI[of _ "[]"]) (auto simp: del_rec_def marked_def filter_id_conv)
    next
      case room: False
      let ?h = "set_rec r (\<lambda>x. x\<lparr>fr_flag := fr_flag x OR FQDN_RECORD_DELETED\<rparr>) h"
      have h: "?h = del_rec {r} h" by (simp add: set_rec_def del_rec_def fun_eq_iff)
      have w: "name_walk ns (q @ [r]) ?h = (full, q', rest, h')"
        using "2.prems"(1) True room by (simp add: marked_def)
      have m: "fr_flag (fq_rec h r) AND FQDN_RECORD_TO_DELETE \<noteq> 0" and d: "distinct (map snd ns)"
        and l: "length (q @ [r]) \<le> DPI_FQDN_DELETE_QLEN"
        using True "2.prems"(2,3) room by (simp_all add: marked_def)
      from "2.IH"(1)[OF m room w d l] obtain p where
        p: "q' = (q @ [r]) @ p" "distinct p" "set p \<subseteq> set (map snd ns)" "\<forall>r'\<in>set p. marked ?h r'"
          "rest = filter (\<lambda>(k, r). r \<notin> set p) ns" "h' = del_rec (set p) ?h"
          "\<not> full \<longrightarrow> (\<forall>r'\<in>set (map snd rest). \<not> marked ?h r')" "full \<longrightarrow> length q' = DPI_FQDN_DELETE_QLEN"
        by blast
      have r: "r \<notin> set p" "r \<notin> snd ` set ns" using p(3) "2.prems"(2) by auto
      have "h' = del_rec (set (r # p)) h"
        using r(1) unfolding p(6) h by (auto simp: del_rec_def fun_eq_iff)
      moreover have "rest = filter (\<lambda>(k, r'). r' \<notin> set (r # p)) ((key, r) # ns)"
      proof -
        have "snd x \<noteq> r" if "x \<in> set ns" for x using that r(2) by auto
        then have "filter (\<lambda>(k, r'). r' \<notin> set (r # p)) ns = filter (\<lambda>(k, r). r \<notin> set p) ns"
          by (intro filter_cong) (auto simp: case_prod_unfold)
        then show ?thesis by (simp add: p(5))
      qed
      moreover have "\<forall>r'\<in>set (r # p). marked h r'" "\<not> full \<longrightarrow> (\<forall>r'\<in>set (map snd rest). \<not> marked h r')"
        using p(4,7) True unfolding h marked_del_rec by simp_all
      moreover have "q' = q @ (r # p)" "distinct (r # p)" "set (r # p) \<subseteq> set (map snd ((key, r) # ns))"
        using p(1-3) r(1) by auto
      ultimately show ?thesis
        using p(8) by blast
    qed
  qed
qed


lemma free_fqdn_name_spec:
  assumes "bitmap_wf (fq_bm h)" and "bits (fq_bm h) = DPI_FQDN_MAX_ENTRIES" and "distinct q"
    and "\<forall>r\<in>set q. 0 \<le> code_ix (fq_rec h r) \<and> code_ix (fq_rec h r) < DPI_FQDN_MAX_ENTRIES"
  shows "\<exists>h'. free_fqdn_name q h = Some h' \<and> bitmap_wf (fq_bm h') \<and> bits (fq_bm h') = DPI_FQDN_MAX_ENTRIES \<and>
    (\<forall>m. 0 \<le> m \<longrightarrow> m < DPI_FQDN_MAX_ENTRIES \<longrightarrow>
      taken (fq_bm h') m = (taken (fq_bm h) m \<and> m \<notin> (\<lambda>r. code_ix (fq_rec h r)) ` set q)) \<and>
    (\<forall>r. r \<notin> set q \<longrightarrow> fq_rec h' r = fq_rec h r) \<and> fq_names h' = fq_names h \<and> fq_ipv4 h' = fq_ipv4 h \<and>
    fq_next h' = fq_next h \<and> set (fq_freed h') = set q \<union> set (fq_freed h)"
  using assms
proof (induction q arbitrary: h)
  case (Cons r q)
  let ?c = "code_ix (fq_rec h r)"
  have c: "0 \<le> ?c" "?c < bits (fq_bm h)" using Cons.prems(2,4) by auto
  from taken_clear[OF Cons.prems(1) c] obtain bm where
    bm: "bitmap_clear (fq_bm h) ?c = Some bm" "bitmap_wf bm" "bits bm = bits (fq_bm h)"
      "\<forall>m. 0 \<le> m \<longrightarrow> m < bits (fq_bm h) \<longrightarrow> taken bm m = (m \<noteq> ?c \<and> taken (fq_bm h) m)" by blast
  let ?h = "(set_rec r (\<lambda>x. x\<lparr>fr_iplist := [], fr_ip_cnt := fr_ip_cnt x - of_nat (length (fr_iplist x))\<rparr>) (h\<lparr>fq_bm := bm\<rparr>))
    \<lparr>fq_freed := r # fq_freed h\<rparr>"
  have st: "free_fqdn_name (r # q) h = free_fqdn_name q ?h"
    using bm(1) by (simp add: free_fqdn_code_def code_ix_def)
  have rec: "fq_rec ?h r' = fq_rec h r'" if "r' \<noteq> r" for r' using that by simp
  have q: "fq_rec ?h r' = fq_rec h r'" if "r' \<in> set q" for r'
    using that Cons.prems(3) by (intro rec) auto
  have prem: "\<forall>r\<in>set q. 0 \<le> code_ix (fq_rec ?h r) \<and> code_ix (fq_rec ?h r) < DPI_FQDN_MAX_ENTRIES"
    using Cons.prems(4) q by simp
  have img: "(\<lambda>r. code_ix (fq_rec ?h r)) ` set q = (\<lambda>r. code_ix (fq_rec h r)) ` set q"
    using q by (intro image_cong) simp_all
  have "bitmap_wf (fq_bm ?h)" "bits (fq_bm ?h) = DPI_FQDN_MAX_ENTRIES" "distinct q"
    using bm(2,3) Cons.prems(2,3) by simp_all
  from Cons.IH[OF this prem] obtain h' where
    h': "free_fqdn_name q ?h = Some h'" "bitmap_wf (fq_bm h')" "bits (fq_bm h') = DPI_FQDN_MAX_ENTRIES"
      "\<forall>m. 0 \<le> m \<longrightarrow> m < DPI_FQDN_MAX_ENTRIES \<longrightarrow>
        taken (fq_bm h') m = (taken (fq_bm ?h) m \<and> m \<notin> (\<lambda>r. code_ix (fq_rec ?h r)) ` set q)"
      "\<forall>r. r \<notin> set q \<longrightarrow> fq_rec h' r = fq_rec ?h r" "fq_names h' = fq_names ?h" "fq_ipv4 h' = fq_ipv4 ?h"
      "fq_next h' = fq_next ?h" "set (fq_freed h') = set q \<union> set (fq_freed ?h)"
    by blast
  have t: "taken (fq_bm h') m = (taken (fq_bm h) m \<and> m \<notin> (\<lambda>r. code_ix (fq_rec h r)) ` set (r # q))"
    if "0 \<le> m" "m < DPI_FQDN_MAX_ENTRIES" for m
    using h'(4) bm(4) that Cons.prems(2) unfolding img by auto
  have "fq_rec h' r' = fq_rec h r'" if "r' \<notin> set (r # q)" for r'
    using h'(5) that by simp
  with t h' st show ?case
    by auto
qed simp

lemma gget_pruned:
  assumes "gwf es"
  shows "gget (filter (\<lambda>(ip, l). l \<noteq> []) (map (\<lambda>(ip, l). (ip, f l)) es)) k =
    (case gget es k of None \<Rightarrow> None | Some l \<Rightarrow> if f l = [] then None else Some (f l))"
  using assms
proof (induction es)
  case (Cons e es)
  obtain ip l where e: "e = (ip, l)" by (cases e)
  have "gget es ip = None" using Cons.prems by (simp add: e gget_None_iff)
  with Cons show ?case by (auto simp: e split: option.split)
qed simp

lemma gwf_pruned: "gwf es \<Longrightarrow> gwf (filter (\<lambda>(ip, l). l \<noteq> []) (map (\<lambda>(ip, l). (ip, f l)) es))"
  by (rule distinct_map_filter) (simp add: case_prod_unfold comp_def)

lemma delete_records:
  assumes inv: "codes_ok h" "links_ok h" "recs_ok h" and p: "distinct p" "set p \<subseteq> set (recs h)"
  defines "h1 \<equiv> (del_rec (set p) h)\<lparr>fq_names := filter (\<lambda>(k, r). r \<notin> set p) (fq_names h)\<rparr>"
  defines "h2 \<equiv> h1\<lparr>fq_ipv4 := swept h1 (fq_ipv4 h)\<rparr>"
  shows "\<exists>h'. free_fqdn_name p h2 = Some h' \<and> fqdn_inv h' \<and> fq_names h' = fq_names h1 \<and>
    (\<forall>r\<in>set (recs h'). fq_rec h' r = fq_rec h r) \<and> (\<forall>ip. rlist_of h' ip = filter (\<lambda>r. r \<notin> set p) (rlist_of h ip))"
proof -
  let ?f = "filter (\<lambda>r. r \<notin> set p)"
  have live: "live_records h1 l = ?f l" if "set l \<subseteq> set (recs h)" for l
  proof -
    have "deleted h1 r \<longleftrightarrow> r \<in> set p" if "r \<in> set (recs h)" for r
      using that inv(3) deleted_del_rec[of "set p" h r] by (auto simp: h1_def deleted_def recs_ok_def)
    then show ?thesis using that unfolding live_records_eq by (intro filter_cong) auto
  qed
  have es: "swept h1 (fq_ipv4 h) = filter (\<lambda>(ip, l). l \<noteq> []) (map (\<lambda>(ip, l). (ip, ?f l)) (fq_ipv4 h))"
  proof -
    have "set l \<subseteq> set (recs h)" if "(ip, l) \<in> set (fq_ipv4 h)" for ip l
      using that inv(2) gget_iff_mem[of "fq_ipv4 h"] unfolding links_ok_def by blast
    then have "map (\<lambda>(ip, l). (ip, live_records h1 l)) (fq_ipv4 h) = map (\<lambda>(ip, l). (ip, ?f l)) (fq_ipv4 h)"
      using live by auto
    then show ?thesis unfolding swept_def by (rule arg_cong)
  qed
  have g: "gwf (fq_ipv4 h)" using inv(2) by (simp add: links_ok_def)
  have code: "code_ix (fq_rec h2 r) = code_ix (fq_rec h r)" for r
    by (simp add: h2_def h1_def del_rec_def code_ix_def)
  have bm: "fq_bm h2 = fq_bm h" by (simp add: h2_def h1_def del_rec_def)
  from free_fqdn_name_spec[of h2 p] inv(1) p obtain h' where
    h': "free_fqdn_name p h2 = Some h'" "bitmap_wf (fq_bm h')" "bits (fq_bm h') = DPI_FQDN_MAX_ENTRIES"
      "\<forall>m. 0 \<le> m \<longrightarrow> m < DPI_FQDN_MAX_ENTRIES \<longrightarrow>
        taken (fq_bm h') m = (taken (fq_bm h) m \<and> m \<notin> (\<lambda>r. code_ix (fq_rec h r)) ` set p)"
      "\<forall>r. r \<notin> set p \<longrightarrow> fq_rec h' r = fq_rec h2 r" "fq_names h' = fq_names h2" "fq_ipv4 h' = fq_ipv4 h2"
      "fq_next h' = fq_next h2" "set (fq_freed h') = set p \<union> set (fq_freed h2)"
    unfolding codes_ok_def bm code by blast
  have rs: "set (recs h') = set (recs h) - set p"
    by (auto simp: recs_def h'(6) h2_def h1_def)
  have rec: "fq_rec h' r = fq_rec h r" if "r \<in> set (recs h')" for r
    using h'(5) that by (simp add: rs h2_def h1_def del_rec_def)
  have rl: "rlist_of h' ip = ?f (rlist_of h ip)" for ip
    by (auto simp: rlist_of_def h'(7) h2_def es gget_pruned[OF g] split: option.split)
  have rseq: "recs h' = filter (\<lambda>r. r \<notin> set p) (recs h)"
    by (simp add: recs_def h'(6) h2_def h1_def filter_map case_prod_unfold comp_def)
  have inj: "inj_on (\<lambda>r. code_ix (fq_rec h r)) (set (recs h))" using inv(1) by (simp add: codes_ok_def)
  have img: "(\<lambda>r. code_ix (fq_rec h' r)) ` set (recs h') =
      (\<lambda>r. code_ix (fq_rec h r)) ` set (recs h) - (\<lambda>r. code_ix (fq_rec h r)) ` set p"
  proof -
    have "(\<lambda>r. code_ix (fq_rec h' r)) ` set (recs h') = (\<lambda>r. code_ix (fq_rec h r)) ` (set (recs h) - set p)"
      using rec by (intro image_cong) (simp_all add: rs)
    also have "\<dots> = (\<lambda>r. code_ix (fq_rec h r)) ` set (recs h) - (\<lambda>r. code_ix (fq_rec h r)) ` set p"
      by (rule inj_on_image_set_diff[OF inj Diff_subset p(2)])
    finally show ?thesis .
  qed
  have "inj_on (\<lambda>r. code_ix (fq_rec h' r)) (set (recs h'))"
    using inj rec unfolding rs by (simp add: inj_on_def)
  then have "codes_ok h'"
    using inv(1) h'(2-4) rec unfolding codes_ok_def img by (auto simp: rs)
  moreover have "links_ok h'"
  proof -
    have L: "gget (fq_ipv4 h') ip = Some l \<Longrightarrow> l \<noteq> [] \<and> l = ?f (rlist_of h ip)" for ip l
      by (auto simp: h'(7) h2_def es gget_pruned[OF g] rlist_of_def split: option.splits if_splits)
    have "gget (fq_ipv4 h') ip = Some l \<Longrightarrow> l \<noteq> [] \<and> distinct l \<and> set l \<subseteq> set (recs h')" for ip l
      using L[of ip l] links_rlist[OF inv(2), of ip] by (auto simp: rs)
    moreover have "gwf (fq_ipv4 h')"
      using gwf_pruned[OF g] by (simp add: h'(7) h2_def es)
    ultimately show ?thesis
      using inv(2) rec unfolding links_ok_def rl by (auto simp: rs)
  qed
  moreover have "recs_ok h'"
    using inv(3) rec p(2) h'(8,9) unfolding recs_ok_def
    by (auto simp: rseq deleted_def, auto simp: h2_def h1_def del_rec_def)
  ultimately show ?thesis
    using h'(1,6) rec rl by (intro exI[of _ h']) (auto simp: fqdn_inv_def h2_def)
qed

text \<open>One pass deletes a part of the marked records, and all of them when the queue was not full.\<close>

lemma delete_pass_spec:
  assumes "fqdn_inv h"
  shows "\<exists>full p h'. delete_pass h = Some (full, h') \<and> fqdn_inv h' \<and> set p \<subseteq> set (recs h) \<and> (\<forall>r\<in>set p. marked h r) \<and>
    fq_names h' = filter (\<lambda>(k, r). r \<notin> set p) (fq_names h) \<and> (\<forall>r\<in>set (recs h'). fq_rec h' r = fq_rec h r) \<and>
    (\<forall>ip. rlist_of h' ip = filter (\<lambda>r. r \<notin> set p) (rlist_of h ip)) \<and>
    (\<not> full \<longrightarrow> (\<forall>r\<in>set (recs h'). \<not> marked h r)) \<and> (full \<longrightarrow> p \<noteq> [])"
proof -
  obtain full p rest h1 where w: "name_walk (fq_names h) [] h = (full, p, rest, h1)"
    by (cases "name_walk (fq_names h) [] h")
  have inv: "codes_ok h" "links_ok h" "recs_ok h" using assms by (simp_all add: fqdn_inv_def)
  have d: "distinct (map snd (fq_names h))" using inv(3) by (simp add: recs_ok_def recs_def)
  from name_walk_spec[OF w d] have
    p: "distinct p" "set p \<subseteq> set (recs h)" "\<forall>r\<in>set p. marked h r" "rest = filter (\<lambda>(k, r). r \<notin> set p) (fq_names h)"
      "h1 = del_rec (set p) h" "\<not> full \<longrightarrow> (\<forall>r\<in>set (map snd rest). \<not> marked h r)"
      "full \<longrightarrow> length p = DPI_FQDN_DELETE_QLEN"
    by (auto simp: recs_def)
  have w': "delete_pass h = (let h1 = (del_rec (set p) h)\<lparr>fq_names := filter (\<lambda>(k, r). r \<notin> set p) (fq_names h)\<rparr> in
      if p = [] then Some (full, h1) else map_option (Pair full) (free_fqdn_name p (h1\<lparr>fq_ipv4 := swept h1 (fq_ipv4 h1)\<rparr>)))"
    by (simp add: delete_pass_def w p(4,5) ipv4_sweep_swept Let_def)
  show ?thesis
  proof (cases "p = []")
    case True
    then have "delete_pass h = Some (full, h)" by (simp add: w' del_rec_def)
    with True p(4,6,7) assms show ?thesis
      by (intro exI[of _ full] exI[of _ p] exI[of _ h]) (auto simp: recs_def DPI_FQDN_DELETE_QLEN_def)
  next
    case False
    from delete_records[OF inv p(1,2)] obtain h' where
      "delete_pass h = Some (full, h')" "fqdn_inv h'" "fq_names h' = rest" "\<forall>r\<in>set (recs h'). fq_rec h' r = fq_rec h r"
      "\<forall>ip. rlist_of h' ip = filter (\<lambda>r. r \<notin> set p) (rlist_of h ip)"
      using False by (auto simp: w' p(4) del_rec_def Let_def)
    with p False show ?thesis
      by (intro exI[of _ full] exI[of _ p] exI[of _ h']) (auto simp: recs_def)
  qed
qed


lemma names_filter_cong:
  "(\<And>r. r \<in> set (recs h) \<Longrightarrow> P r = Q r) \<Longrightarrow>
    filter (\<lambda>(k, r). P r) (fq_names h) = filter (\<lambda>(k, r). Q r) (fq_names h)"
  by (rule filter_cong) (force simp: recs_def)+

lemma delete_marked_spec:
  assumes "fqdn_inv h"
  shows "\<exists>h'. dpi_fqdn_entry_delete_marked h = Some h' \<and> fqdn_inv h' \<and>
    fq_names h' = filter (\<lambda>(k, r). \<not> marked h r) (fq_names h) \<and> (\<forall>r\<in>set (recs h'). fq_rec h' r = fq_rec h r) \<and>
    (\<forall>ip. rlist_of h' ip = filter (\<lambda>r. \<not> marked h r) (rlist_of h ip))"
  using assms
proof (induction "length (fq_names h)" arbitrary: h rule: less_induct)
  case less
  from delete_pass_spec[OF less.prems] obtain full p h1 where
    d: "delete_pass h = Some (full, h1)" "fqdn_inv h1" "set p \<subseteq> set (recs h)" "\<forall>r\<in>set p. marked h r"
      "fq_names h1 = filter (\<lambda>(k, r). r \<notin> set p) (fq_names h)" "\<forall>r\<in>set (recs h1). fq_rec h1 r = fq_rec h r"
      "\<forall>ip. rlist_of h1 ip = filter (\<lambda>r. r \<notin> set p) (rlist_of h ip)"
      "\<not> full \<longrightarrow> (\<forall>r\<in>set (recs h1). \<not> marked h r)" "full \<longrightarrow> p \<noteq> []"
    by blast
  have l1: "links_ok h1" and l: "links_ok h" using d(2) less.prems by (simp_all add: fqdn_inv_def)
  have m1: "marked h1 r = marked h r" if "r \<in> set (recs h1)" for r
    using d(6) that by (simp add: marked_def)
  have rs1: "set (recs h1) = set (recs h) - set p" by (auto simp: recs_def d(5))
  show ?case
  proof (cases full)
    case False
    have n: "r \<notin> set p \<longleftrightarrow> \<not> marked h r" if "r \<in> set (recs h)" for r
      using that False d(4,8) rs1 by auto
    have "fq_names h1 = filter (\<lambda>(k, r). \<not> marked h r) (fq_names h)"
      unfolding d(5) using n by (rule names_filter_cong)
    moreover have "rlist_of h1 ip = filter (\<lambda>r. \<not> marked h r) (rlist_of h ip)" for ip
      unfolding d(7)[rule_format] using n links_rlist(2)[OF l, of ip] by (intro filter_cong) auto
    ultimately show ?thesis
      using False d(1,2,6) by (subst dpi_fqdn_entry_delete_marked.simps) simp
  next
    case True
    then obtain r where "r \<in> set p" using d(9) by (cases p) auto
    then obtain x where "x \<in> set (fq_names h)" "snd x = r" using d(3) by (auto simp: recs_def)
    with \<open>r \<in> set p\<close> have "length (fq_names h1) < length (fq_names h)"
      unfolding d(5) by (intro length_filter_less[of x]) (auto simp: case_prod_unfold)
    from less.hyps[OF this d(2)] obtain h' where
      h': "dpi_fqdn_entry_delete_marked h1 = Some h'" "fqdn_inv h'"
        "fq_names h' = filter (\<lambda>(k, r). \<not> marked h1 r) (fq_names h1)" "\<forall>r\<in>set (recs h'). fq_rec h' r = fq_rec h1 r"
        "\<forall>ip. rlist_of h' ip = filter (\<lambda>r. \<not> marked h1 r) (rlist_of h1 ip)"
      by blast
    have rs': "set (recs h') \<subseteq> set (recs h1)" by (auto simp: recs_def h'(3))
    have n: "(r \<notin> set p \<and> \<not> marked h1 r) \<longleftrightarrow> \<not> marked h r" if "r \<in> set (recs h)" for r
      using that d(4) m1 rs1 by auto
    have "fq_names h' = filter (\<lambda>(k, r). \<not> marked h r) (fq_names h)"
      unfolding h'(3) d(5) filter_filter using names_filter_cong[of h, OF n] by (simp add: case_prod_unfold)
    moreover have "rlist_of h' ip = filter (\<lambda>r. \<not> marked h r) (rlist_of h ip)" for ip
      unfolding h'(5)[rule_format] d(7)[rule_format] filter_filter
      using n links_rlist(2)[OF l, of ip] by (intro filter_cong) auto
    moreover have "dpi_fqdn_entry_delete_marked h = Some h'"
      using True d(1) h'(1) by (subst dpi_fqdn_entry_delete_marked.simps) simp
    moreover have "\<forall>r\<in>set (recs h'). fq_rec h' r = fq_rec h r"
      using h'(4) d(6) rs' by auto
    ultimately show ?thesis using h'(2) by blast
  qed
qed

section \<open>The handle over time\<close>

inductive fqdn_step :: "dpi_fqdn_hdl \<Rightarrow> dpi_fqdn_hdl \<Rightarrow> bool" where
  step_config: "config_fqdn_ipv4_mapping name ip vh h = Some (code, h') \<Longrightarrow> fqdn_step h h'"
| step_snoop: "fqdn_step h (snooped_fqdn_ipv4_mapping name ips h)"
| step_mark: "fqdn_step h (dpi_fqdn_entry_mark_delete name h)"
| step_delete: "dpi_fqdn_entry_delete_marked h = Some h' \<Longrightarrow> fqdn_step h h'"

definition fqdn_init :: "dpi_fqdn_hdl \<Rightarrow> bool" where
  "fqdn_init h \<longleftrightarrow> dpi_fqdn_hdl_init = Some h"

lemma inv_init_fqdn: "fqdn_init h \<Longrightarrow> fqdn_inv h"
proof -
  assume "fqdn_init h"
  then obtain bm where bm: "bitmap_allocate True True DPI_FQDN_MAX_ENTRIES = Some bm" and
    h: "fq_names h = []" "fq_ipv4 h = []" "fq_freed h = []" "fq_bm h = bm"
    by (auto simp: fqdn_init_def dpi_fqdn_hdl_init_def)
  have "0 < DPI_FQDN_MAX_ENTRIES" by (simp add: DPI_FQDN_MAX_ENTRIES_def)
  from allocate_wf[OF bm this] h show ?thesis
    by (simp add: fqdn_inv_def codes_ok_def links_ok_def recs_ok_def recs_def)
qed

lemma inv_fqdn_step: "fqdn_inv h \<Longrightarrow> fqdn_step h h' \<Longrightarrow> fqdn_inv h'"
  by (erule fqdn_step.cases)
    (auto dest: inv_config[of h] inv_snooped inv_mark delete_marked_spec[of h], metis Pair_inject inv_config option.inject)

interpretation fqdn_sys: invariant_system fqdn_init fqdn_step fqdn_inv
  by unfold_locales (auto intro: inv_init_fqdn inv_fqdn_step)

section \<open>Wildcard names\<close>

lemma last_dot_less: "i < last_dot s n \<longleftrightarrow> (\<exists>k. i < k \<and> k \<le> n \<and> s ! k = CHR ''.'')"
proof (induction n)
  case (Suc n)
  show ?case
  proof (cases "s ! Suc n = CHR ''.''")
    case True
    then show ?thesis by (auto simp: le_Suc_eq intro: exI[of _ "Suc n"])
  next
    case False
    then have "(\<exists>k. i < k \<and> k \<le> Suc n \<and> s ! k = CHR ''.'') \<longleftrightarrow> (\<exists>k. i < k \<and> k \<le> n \<and> s ! k = CHR ''.'')"
      by (metis le_Suc_eq)
    with False Suc show ?thesis by simp
  qed
qed simp

text \<open>The wildcard names of a host name: a non-empty prefix up to a dot is replaced, and two labels remain.\<close>

lemma wild_names_iff:
  "n \<in> set (wild_names s) \<longleftrightarrow>
    (\<exists>pre mid last. s = pre @ CHR ''.'' # mid @ CHR ''.'' # last \<and> pre \<noteq> [] \<and> last \<noteq> [] \<and>
      n = ''*.'' @ mid @ CHR ''.'' # last)"
proof
  assume "n \<in> set (wild_names s)"
  then obtain i where i: "i + 1 < last_dot s (length s - 2)" "s ! (i + 1) = CHR ''.''" "n = CHR ''*'' # drop (i + 1) s" "2 \<le> length s"
    by (auto simp: wild_names_def Let_def less_diff_conv split: if_splits)
  from i(1) obtain k where k: "i + 1 < k" "k \<le> length s - 2" "s ! k = CHR ''.''"
    by (auto simp: last_dot_less)
  have s1: "s = take (i + 1) s @ CHR ''.'' # drop (i + 2) s"
    using id_take_nth_drop[of "i + 1" s] i(2) k(1,2) by simp
  let ?t = "drop (i + 2) s" and ?k = "k - (i + 2)"
  have kt: "?k < length ?t" using k i(4) by simp
  moreover have "?t ! ?k = CHR ''.''"
  proof -
    have e: "i + 2 + ?k = k" using k(1) by simp
    have "i + 2 \<le> length s" using k i(4) by simp
    from nth_drop[OF this, of ?k] show ?thesis unfolding e k(3) .
  qed
  ultimately have t: "?t = take ?k ?t @ CHR ''.'' # drop (Suc ?k) ?t"
    using id_take_nth_drop[of ?k ?t] by simp
  have "drop (Suc ?k) ?t \<noteq> []" "take (i + 1) s \<noteq> []" using k i(4) by auto
  moreover have "n = ''*.'' @ ?t" using i(2,3) k i(4) Cons_nth_drop_Suc[of "i + 1" s] by simp
  ultimately show "\<exists>pre mid last. s = pre @ CHR ''.'' # mid @ CHR ''.'' # last \<and> pre \<noteq> [] \<and> last \<noteq> [] \<and>
      n = ''*.'' @ mid @ CHR ''.'' # last"
    using s1 t by (intro exI[of _ "take (i + 1) s"] exI[of _ "take ?k ?t"] exI[of _ "drop (Suc ?k) ?t"]) (simp only: simp_thms)
next
  assume "\<exists>pre mid last. s = pre @ CHR ''.'' # mid @ CHR ''.'' # last \<and> pre \<noteq> [] \<and> last \<noteq> [] \<and>
      n = ''*.'' @ mid @ CHR ''.'' # last"
  then obtain pre mid l where s: "s = pre @ CHR ''.'' # mid @ CHR ''.'' # l" "pre \<noteq> []" "l \<noteq> []"
    and n: "n = ''*.'' @ mid @ CHR ''.'' # l" by blast
  let ?i = "length pre - 1" and ?k = "length pre + 1 + length mid"
  have i: "?i + 1 = length pre" using s(2) by (simp add: Suc_leI)
  have "s ! ?k = CHR ''.''" "?k \<le> length s - 2"
    using s(3) by (auto simp: s(1) nth_append Suc_leI)
  then have "?i + 1 < last_dot s (length s - 2)"
    unfolding last_dot_less i by (intro exI[of _ ?k]) simp
  moreover have "s ! (?i + 1) = CHR ''.''" "CHR ''*'' # drop (?i + 1) s = n"
    unfolding i by (simp_all add: s(1) n)
  moreover have "\<not> length s < 2" by (simp add: s(1))
  ultimately show "n \<in> set (wild_names s)"
    unfolding wild_names_def Let_def by (auto simp: less_diff_conv intro!: image_eqI[of _ _ ?i])
qed


section \<open>What the handle promises\<close>

lemma pick_name:
  "(\<exists>n. (\<exists>p m l. A p m l \<and> B p \<and> C l \<and> n = f m l) \<and> S n) \<longleftrightarrow> (\<exists>p m l. A p m l \<and> B p \<and> C l \<and> S (f m l))"
  by blast

definition example_names :: "dpi_fqdn_hdl" where
  "example_names = snd (the (config_fqdn_ipv4_mapping ''b'' 0 False
    (snd (the (config_fqdn_ipv4_mapping ''a'' 5 False (the dpi_fqdn_hdl_init))))))"

lemma config_reach:
  assumes "reach fqdn_init fqdn_step h"
  shows "reach fqdn_init fqdn_step (snd (the (config_fqdn_ipv4_mapping n ip vh h)))"
proof -
  obtain code h' where c: "config_fqdn_ipv4_mapping n ip vh h = Some (code, h')"
    using inv_config[OF fqdn_sys.reach_inv[OF assms], of n ip vh] by blast
  from reach_step[OF assms step_config[OF c]] show ?thesis
    unfolding c option.sel snd_conv .
qed

lemma init_reach: "reach fqdn_init fqdn_step (the dpi_fqdn_hdl_init)"
  by (rule reach_init) (simp add: fqdn_init_def dpi_fqdn_hdl_init_def bitmap_allocate_def Let_def)

lemma example_reach: "reach fqdn_init fqdn_step example_names"
  unfolding example_names_def by (intro config_reach init_reach)

text \<open>
  C12. In every state the FQDN handle can reach, the code compiled into a rule identifies the name: codes are
  never zero and no two live names share one.  The two directions of the relation between names and
  addresses agree, an address without names is not kept, and neither direction refers to a freed record.
\<close>

theorem fqdn_codes_identify:
  assumes "reach fqdn_init fqdn_step h"
  shows "inj_on (\<lambda>r. fr_code (fq_rec h r)) (set (recs h)) \<and>
    (\<forall>r. r \<in> set (recs h) \<longrightarrow> fr_code (fq_rec h r) \<noteq> 0 \<and> r \<notin> set (fq_freed h) \<and>
      (\<forall>ip. ip \<in> set (fr_iplist (fq_rec h r)) \<longleftrightarrow> r \<in> set (rlist_of h ip))) \<and>
    (\<forall>ip l. gget (fq_ipv4 h) ip = Some l \<longrightarrow> l \<noteq> [] \<and> set l \<subseteq> set (recs h))"
proof -
  have inv: "codes_ok h" "links_ok h" "recs_ok h"
    using fqdn_sys.reach_inv[OF assms] by (simp_all add: fqdn_inv_def)
  have "inj_on (\<lambda>r. fr_code (fq_rec h r)) (set (recs h))"
    using inv(1) unfolding codes_ok_def inj_on_def code_ix_def by metis
  moreover have "fr_code (fq_rec h r) \<noteq> 0" if "r \<in> set (recs h)" for r
  proof
    assume "fr_code (fq_rec h r) = 0"
    then have "code_ix (fq_rec h r) = - 1" by (simp add: code_ix_def ntohl_def)
    with inv(1) that show False unfolding codes_ok_def by (metis neg_0_le_iff_le not_one_le_zero)
  qed
  moreover have "\<forall>ip l. gget (fq_ipv4 h) ip = Some l \<longrightarrow> l \<noteq> [] \<and> set l \<subseteq> set (recs h)"
    using inv(2) unfolding links_ok_def by blast
  ultimately show ?thesis
    using inv(2,3) unfolding links_ok_def recs_ok_def by blast
qed

theorem fqdn_codes_identify_witness:
  "length (recs example_names) = 2 \<and> inj_on (\<lambda>r. fr_code (fq_rec example_names r)) (set (recs example_names))"
proof -
  have "length (recs example_names) = 2" by code_simp
  then show ?thesis using fqdn_codes_identify[OF example_reach] by blast
qed

text \<open>
  C13. The sweep of marked names terminates whatever their number, although its queues hold 32 entries: it
  deletes exactly the marked names, removes them from every address, keeps every other record as it is,
  and leaves a handle that satisfies the invariant.
\<close>

theorem fqdn_sweep:
  assumes "reach fqdn_init fqdn_step h"
  shows "\<exists>h'. dpi_fqdn_entry_delete_marked h = Some h' \<and>
    fq_names h' = filter (\<lambda>(k, r). fr_flag (fq_rec h r) AND FQDN_RECORD_TO_DELETE = 0) (fq_names h) \<and>
    (\<forall>r. r \<in> set (recs h') \<longrightarrow> fq_rec h' r = fq_rec h r) \<and>
    (\<forall>ip. rlist_of h' ip = filter (\<lambda>r. fr_flag (fq_rec h r) AND FQDN_RECORD_TO_DELETE = 0) (rlist_of h ip)) \<and> fqdn_inv h'"
  using delete_marked_spec[OF fqdn_sys.reach_inv[OF assms]] unfolding marked_def not_not Ball_def by blast

theorem fqdn_sweep_witness:
  "\<exists>h'. dpi_fqdn_entry_delete_marked (dpi_fqdn_entry_mark_delete ''a'' example_names) = Some h' \<and> recs h' = [1] \<and>
    rlist_of h' 5 = []"
proof -
  let ?h = "dpi_fqdn_entry_mark_delete ''a'' example_names"
  have r: "reach fqdn_init fqdn_step ?h"
    using example_reach step_mark by (rule reach_step)
  have n: "map snd (filter (\<lambda>(k, r). fr_flag (fq_rec ?h r) AND FQDN_RECORD_TO_DELETE = 0) (fq_names ?h)) = [1]"
    "filter (\<lambda>r. fr_flag (fq_rec ?h r) AND FQDN_RECORD_TO_DELETE = 0) (rlist_of ?h 5) = []"
    by code_simp+
  from fqdn_sweep[OF r] obtain h' where
    "dpi_fqdn_entry_delete_marked ?h = Some h'"
    "fq_names h' = filter (\<lambda>(k, r). fr_flag (fq_rec ?h r) AND FQDN_RECORD_TO_DELETE = 0) (fq_names ?h)"
    "rlist_of h' 5 = filter (\<lambda>r. fr_flag (fq_rec ?h r) AND FQDN_RECORD_TO_DELETE = 0) (rlist_of ?h 5)"
    by blast
  then show ?thesis using n by (auto simp: recs_def)
qed

text \<open>
  C34. A wildcard rule name matches a virtual host (up to the 255 characters that are compared) exactly when it is
  an asterisk in the place of one or more leading labels of the host, and at least two labels remain: \<open>*.b.io\<close> matches
  \<open>a.b.io\<close> and \<open>x.a.b.io\<close>, not \<open>b.io\<close>, and no wildcard on a top-level domain matches anything.
\<close>

theorem wildcard_name_matches:
  "match_fqdn_wildcard_name vhost fqdname \<longleftrightarrow>
    (\<exists>pre mid last. strlcpy vhost MAX_FQDN_LEN = pre @ CHR ''.'' # mid @ CHR ''.'' # last \<and> pre \<noteq> [] \<and> last \<noteq> [] \<and>
      strcaseeq fqdname (''*.'' @ mid @ CHR ''.'' # last))"
  unfolding match_fqdn_wildcard_name_def list_ex_iff Bex_def wild_names_iff
  by (rule pick_name)

text \<open>
  The table of names hashes a name as it is written and compares names without regard to case.  A DNS answer
  is looked up in lower case, so a rule on a name with an upper-case letter never learns an address from it.
\<close>

definition learned :: "string \<Rightarrow> string \<Rightarrow> rid list" where
  "learned rule answer = (case config_fqdn_ipv4_mapping rule 0 False (the dpi_fqdn_hdl_init) of
      Some (code, h) \<Rightarrow> rlist_of (snooped_fqdn_ipv4_mapping answer [5] h) 5 | None \<Rightarrow> [])"

lemma mixed_case_name_learns_nothing:
  "strcaseeq ''A'' ''a'' \<and> learned ''a'' ''A'' = [0] \<and> learned ''A'' ''A'' = [] \<and> learned ''A'' ''a'' = []"
  by code_simp

end
