(* ===== verification/DpTimer.thy ===== *)
theory DpTimer
  imports DpUtils
begin

text \<open>
  The two timers of the data plane: the queue of released capture contexts
  (\<open>internal/dp/utils/timer_queue.c\<close>) and the timer wheel of sessions, fragments and meters
  (\<open>internal/dp/utils/timer_wheel.c\<close>).

  Entries are names; the intrusive lists are lists of names in list order.  The state of the wheel
  is an extensible record, so that a component adds its own tables to it.  A callback is a name
  \<open>'cb\<close>, and \<open>fire\<close> says what calling it does to the whole state: the loop of
  \<open>timer_wheel_roll\<close> starts again from the head of the slot after each call, and ends only if the
  callbacks let it.
\<close>

section \<open>timer\_queue.c\<close>

record 'n timer_queue =
  tq_head :: "('n \<times> u32) list"
  tq_count :: u32
  tq_timeout :: u32

definition timer_queue_init :: "u32 \<Rightarrow> 'n timer_queue" where
  "timer_queue_init t = \<lparr>tq_head = [], tq_count = 0, tq_timeout = t\<rparr>"

definition timer_queue_touch :: "'n timer_queue \<Rightarrow> 'n \<Rightarrow> u32 \<Rightarrow> 'n timer_queue" where
  "timer_queue_touch q n now = q\<lparr>tq_head := filter (\<lambda>x. fst x \<noteq> n) (tq_head q) @ [(n, now)]\<rparr>"

definition timer_queue_remove :: "'n timer_queue \<Rightarrow> 'n \<Rightarrow> 'n timer_queue" where
  "timer_queue_remove q n = q\<lparr>tq_head := filter (\<lambda>x. fst x \<noteq> n) (tq_head q), tq_count := tq_count q - 1\<rparr>"

definition timer_queue_append :: "'n timer_queue \<Rightarrow> 'n \<Rightarrow> u32 \<Rightarrow> 'n timer_queue" where
  "timer_queue_append q n now = q\<lparr>tq_head := tq_head q @ [(n, now)], tq_count := tq_count q + 1\<rparr>"

text \<open>
  The loop of \<open>timer_queue_trim\<close>.  The first list is what the iterator still visits: the node after
  the current one is read before the body runs, so a node that is moved to the tail is visited
  again unless it was the last one.  The result is the nodes handed to \<open>remove\<close>, in order, and the
  queue.
\<close>

function trim_loop :: "('n \<times> u32) list \<Rightarrow> 'n timer_queue \<Rightarrow> u32 \<Rightarrow> 'n list \<Rightarrow> 'n list \<times> 'n timer_queue" where
  "trim_loop [] q now removed = (removed, q)"
| "trim_loop ((n, t) # rest) q now removed = (
    if now < t then
      trim_loop (if rest = [] then [] else rest @ [(n, now)]) (timer_queue_touch q n now) now removed
    else if now < t + tq_timeout q then (removed, q)
    else trim_loop rest (timer_queue_remove q n) now (removed @ [n]))"
  by pat_completeness auto
termination
  by (relation "measures [\<lambda>(l, q, now, r). length (filter (\<lambda>(n, t). now < t) l), \<lambda>(l, q, now, r). length l]") auto

definition timer_queue_trim :: "'n timer_queue \<Rightarrow> u32 \<Rightarrow> u32 \<times> 'n list \<times> 'n timer_queue" where
  "timer_queue_trim q now = (case trim_loop (tq_head q) q now [] of (r, q') \<Rightarrow> (of_nat (length r), r, q'))"

fun purge_loop :: "('n \<times> u32) list \<Rightarrow> 'n timer_queue \<Rightarrow> 'n list \<Rightarrow> 'n list \<times> 'n timer_queue" where
  "purge_loop [] q removed = (removed, q)"
| "purge_loop ((n, t) # rest) q removed = purge_loop rest (timer_queue_remove q n) (removed @ [n])"

definition timer_queue_purge :: "'n timer_queue \<Rightarrow> u32 \<times> 'n list \<times> 'n timer_queue" where
  "timer_queue_purge q = (case purge_loop (tq_head q) q [] of (r, q') \<Rightarrow> (of_nat (length r), r, q'))"

section \<open>timer\_wheel.c\<close>

definition MAX_TIMER_SLOTS :: nat where
  "MAX_TIMER_SLOTS = 3600"

record 'cb timer_entry =
  te_callback :: "'cb option"
  te_expire_slot :: u16
  te_timeout :: u16

record ('e, 'cb) timer_wheel =
  tw_slots :: "nat \<Rightarrow> 'e list"
  tw_count :: u32
  tw_current :: u32
  tw_entry :: "'e \<Rightarrow> 'cb timer_entry"

type_synonym ('e, 'cb, 'x) wheel = "('e, 'cb, 'x) timer_wheel_scheme"

definition timer_wheel_init :: "('e, 'cb, 'x) wheel \<Rightarrow> ('e, 'cb, 'x) wheel" where
  "timer_wheel_init w = w\<lparr>tw_slots := \<lambda>_. [], tw_count := 0, tw_current := 0\<rparr>"

definition timer_wheel_start :: "('e, 'cb, 'x) wheel \<Rightarrow> u32 \<Rightarrow> ('e, 'cb, 'x) wheel" where
  "timer_wheel_start w now = w\<lparr>tw_current := now\<rparr>"

definition timer_wheel_started :: "('e, 'cb, 'x) wheel \<Rightarrow> bool" where
  "timer_wheel_started w \<longleftrightarrow> tw_current w > 0"

definition set_entry :: "'e \<Rightarrow> ('cb timer_entry \<Rightarrow> 'cb timer_entry) \<Rightarrow> ('e, 'cb, 'x) wheel \<Rightarrow> ('e, 'cb, 'x) wheel" where
  "set_entry n f w = w\<lparr>tw_entry := (tw_entry w)(n := f (tw_entry w n))\<rparr>"

definition timer_wheel_entry_init :: "'e \<Rightarrow> ('e, 'cb, 'x) wheel \<Rightarrow> ('e, 'cb, 'x) wheel" where
  "timer_wheel_entry_init n w = set_entry n (\<lambda>t. t\<lparr>te_expire_slot := - 1, te_callback := None\<rparr>) w"

definition timer_wheel_entry_insert :: "('e, 'cb, 'x) wheel \<Rightarrow> 'e \<Rightarrow> u32 \<Rightarrow> ('e, 'cb, 'x) wheel" where
  "timer_wheel_entry_insert w n now = (
    let expire_at = now + ucast (te_timeout (tw_entry w n));
        slot = expire_at mod of_nat MAX_TIMER_SLOTS;
        w = set_entry n (\<lambda>t. t\<lparr>te_expire_slot := ucast slot\<rparr>) w in
    w\<lparr>tw_slots := (tw_slots w)(unat slot := tw_slots w (unat slot) @ [n]), tw_count := tw_count w + 1\<rparr>)"

definition timer_wheel_entry_remove :: "('e, 'cb, 'x) wheel \<Rightarrow> 'e \<Rightarrow> ('e, 'cb, 'x) wheel" where
  "timer_wheel_entry_remove w n =
    set_entry n (\<lambda>t. t\<lparr>te_callback := None\<rparr>)
      (w\<lparr>tw_slots := \<lambda>k. removeAll n (tw_slots w k), tw_count := tw_count w - 1\<rparr>)"

definition timer_wheel_entry_refresh :: "('e, 'cb, 'x) wheel \<Rightarrow> 'e \<Rightarrow> u32 \<Rightarrow> ('e, 'cb, 'x) wheel" where
  "timer_wheel_entry_refresh w n now = (
    let fn = te_callback (tw_entry w n);
        w = timer_wheel_entry_remove w n;
        w = set_entry n (\<lambda>t. t\<lparr>te_callback := fn\<rparr>) w in
    timer_wheel_entry_insert w n now)"

definition timer_wheel_entry_start ::
  "('e, 'cb, 'x) wheel \<Rightarrow> 'e \<Rightarrow> 'cb \<Rightarrow> u16 \<Rightarrow> u32 \<Rightarrow> ('e, 'cb, 'x) wheel" where
  "timer_wheel_entry_start w n cb timeout now = (
    let timeout = (if unat timeout \<ge> MAX_TIMER_SLOTS then 0 else timeout);
        w = set_entry n (\<lambda>t. t\<lparr>te_callback := Some cb, te_timeout := timeout\<rparr>) w in
    timer_wheel_entry_insert w n now)"

definition timer_wheel_entry_set_timeout :: "'e \<Rightarrow> u16 \<Rightarrow> ('e, 'cb, 'x) wheel \<Rightarrow> ('e, 'cb, 'x) wheel" where
  "timer_wheel_entry_set_timeout n timeout w = (
    if unat timeout \<ge> MAX_TIMER_SLOTS then w else set_entry n (\<lambda>t. t\<lparr>te_timeout := timeout\<rparr>) w)"

definition timer_wheel_entry_set_callback :: "'e \<Rightarrow> 'cb \<Rightarrow> ('e, 'cb, 'x) wheel \<Rightarrow> ('e, 'cb, 'x) wheel" where
  "timer_wheel_entry_set_callback n cb w = set_entry n (\<lambda>t. t\<lparr>te_callback := Some cb\<rparr>) w"

definition timer_wheel_entry_is_active :: "('e, 'cb, 'x) wheel \<Rightarrow> 'e \<Rightarrow> bool" where
  "timer_wheel_entry_is_active w n \<longleftrightarrow> te_callback (tw_entry w n) \<noteq> None"

definition get_expire_at :: "('e, 'cb, 'x) wheel \<Rightarrow> 'e \<Rightarrow> u32 \<Rightarrow> u32" where
  "get_expire_at w n now = (
    let slot = ucast (now mod of_nat MAX_TIMER_SLOTS) :: u16; t = tw_entry w n in
    if te_callback t = None \<or> te_expire_slot t \<ge> slot then now + ucast (te_expire_slot t) - ucast slot
    else now + ucast (te_expire_slot t) + of_nat MAX_TIMER_SLOTS - ucast slot)"

definition timer_wheel_entry_get_idle :: "('e, 'cb, 'x) wheel \<Rightarrow> 'e \<Rightarrow> u32 \<Rightarrow> u16" where
  "timer_wheel_entry_get_idle w n now = ucast (now - (get_expire_at w n now - ucast (te_timeout (tw_entry w n))))"

definition timer_wheel_entry_get_life :: "('e, 'cb, 'x) wheel \<Rightarrow> 'e \<Rightarrow> u32 \<Rightarrow> u16" where
  "timer_wheel_entry_get_life w n now = ucast (get_expire_at w n now - now)"

text \<open>The inner loop of \<open>timer_wheel_roll\<close>; calling a callback that is NULL does not return either.\<close>

partial_function (option) drain_slot ::
  "('cb \<Rightarrow> 'e \<Rightarrow> ('e, 'cb, 'x) wheel \<Rightarrow> ('e, 'cb, 'x) wheel) \<Rightarrow> nat \<Rightarrow> ('e, 'cb, 'x) wheel \<Rightarrow> u32
    \<Rightarrow> (('e, 'cb, 'x) wheel \<times> u32) option" where
  "drain_slot fire k w cnt = (case tw_slots w k of
      [] \<Rightarrow> Some (w, cnt)
    | e # _ \<Rightarrow> (case te_callback (tw_entry w e) of
          None \<Rightarrow> None
        | Some fn \<Rightarrow> drain_slot fire k (fire fn e (timer_wheel_entry_remove w e)) (cnt + 1)))"

function roll_loop ::
  "('cb \<Rightarrow> 'e \<Rightarrow> ('e, 'cb, 'x) wheel \<Rightarrow> ('e, 'cb, 'x) wheel) \<Rightarrow> u32 \<Rightarrow> u32 \<Rightarrow> ('e, 'cb, 'x) wheel \<Rightarrow> u32
    \<Rightarrow> (('e, 'cb, 'x) wheel \<times> u32) option" where
  "roll_loop fire s m w cnt = (
    if s < m then
      (case drain_slot fire (unat (s mod of_nat MAX_TIMER_SLOTS)) w cnt of
        None \<Rightarrow> None
      | Some (w', cnt') \<Rightarrow> roll_loop fire (s + 1) m w' cnt')
    else Some (w, cnt))"
  by pat_completeness auto
termination
proof (relation "measure (\<lambda>(fire, s, m, w, cnt). unat m - unat s)")
  fix fire :: "'cb \<Rightarrow> 'e \<Rightarrow> ('e, 'cb, 'x) wheel \<Rightarrow> ('e, 'cb, 'x) wheel"
    and s m cnt :: u32 and w and x :: "('e, 'cb, 'x) wheel \<times> u32" and w' cnt'
  assume "s < m"
  then have "unat (s + 1) = unat s + 1" "unat s < unat m"
    by (simp_all add: unat_Suc_less word_less_nat_alt)
  then show "((fire, s + 1, m, w', cnt'), (fire, s, m, w, cnt)) \<in> measure (\<lambda>(fire, s, m, w, cnt). unat m - unat s)"
    by simp
qed simp

declare roll_loop.simps [simp del]

definition timer_wheel_roll ::
  "('cb \<Rightarrow> 'e \<Rightarrow> ('e, 'cb, 'x) wheel \<Rightarrow> ('e, 'cb, 'x) wheel) \<Rightarrow> ('e, 'cb, 'x) wheel \<Rightarrow> u32
    \<Rightarrow> (('e, 'cb, 'x) wheel \<times> u32) option" where
  "timer_wheel_roll fire w now = (
    if now < tw_current w then Some (w, 0)
    else
      let m = min now (tw_current w + of_nat MAX_TIMER_SLOTS) in
      map_option (\<lambda>(w', cnt). (w'\<lparr>tw_current := now\<rparr>, cnt)) (roll_loop fire (tw_current w) m w 0))"


section \<open>Invariant of the wheel\<close>

definition linked :: "('e, 'cb, 'x) wheel \<Rightarrow> 'e \<Rightarrow> bool" where
  "linked w e \<longleftrightarrow> (\<exists>k. e \<in> set (tw_slots w k))"

definition wheel_wf :: "('e, 'cb, 'x) wheel \<Rightarrow> bool" where
  "wheel_wf w \<longleftrightarrow>
    (\<forall>k. distinct (tw_slots w k)) \<and>
    (\<forall>k e. e \<in> set (tw_slots w k) \<longrightarrow>
      k < MAX_TIMER_SLOTS \<and> unat (te_expire_slot (tw_entry w e)) = k \<and>
      te_callback (tw_entry w e) \<noteq> None \<and> unat (te_timeout (tw_entry w e)) < MAX_TIMER_SLOTS) \<and>
    tw_count w = of_nat (\<Sum>k<MAX_TIMER_SLOTS. length (tw_slots w k))"

text \<open>The numbers that fit: \<open>slots\<close> is a 16-bit number.\<close>

lemma slots_word [simp]: "unat (of_nat MAX_TIMER_SLOTS :: u32) = MAX_TIMER_SLOTS"
  by (simp add: MAX_TIMER_SLOTS_def)

lemma unat_slot: "unat ((x :: u32) mod of_nat MAX_TIMER_SLOTS) = unat x mod MAX_TIMER_SLOTS"
  by (simp add: unat_mod)

lemma slot_less: "unat ((x :: u32) mod of_nat MAX_TIMER_SLOTS) < MAX_TIMER_SLOTS"
  unfolding unat_slot by (simp add: MAX_TIMER_SLOTS_def)

lemma unat_ucast_slot: "unat (ucast ((x :: u32) mod of_nat MAX_TIMER_SLOTS) :: u16) = unat x mod MAX_TIMER_SLOTS"
  using slot_less[of x] unfolding unsigned_ucast_eq unat_slot
  by (simp add: MAX_TIMER_SLOTS_def take_bit_nat_eq_self)

lemma wf_linked:
  assumes "wheel_wf w" and "e \<in> set (tw_slots w k)"
  shows "k < MAX_TIMER_SLOTS" "unat (te_expire_slot (tw_entry w e)) = k" "te_callback (tw_entry w e) \<noteq> None"
    "unat (te_timeout (tw_entry w e)) < MAX_TIMER_SLOTS"
  using assms unfolding wheel_wf_def by blast+

lemma wf_one_slot:
  assumes "wheel_wf w" and "e \<in> set (tw_slots w k)"
  shows "e \<in> set (tw_slots w j) \<longleftrightarrow> j = k"
  using assms by (auto dest: wf_linked)

lemma wheel_wf_init: "wheel_wf (timer_wheel_init w)"
  by (simp add: wheel_wf_def timer_wheel_init_def)

lemma wheel_wf_start: "wheel_wf (timer_wheel_start w now) = wheel_wf w"
  by (simp add: wheel_wf_def timer_wheel_start_def)

text \<open>Removal.\<close>

lemma slots_remove [simp]: "tw_slots (timer_wheel_entry_remove w e) k = removeAll e (tw_slots w k)"
  by (simp add: timer_wheel_entry_remove_def set_entry_def)

lemma current_remove [simp]: "tw_current (timer_wheel_entry_remove w e) = tw_current w"
  by (simp add: timer_wheel_entry_remove_def set_entry_def)

lemma entry_remove_other [simp]: "e' \<noteq> e \<Longrightarrow> tw_entry (timer_wheel_entry_remove w e) e' = tw_entry w e'"
  by (simp add: timer_wheel_entry_remove_def set_entry_def)

lemma count_remove: "tw_count (timer_wheel_entry_remove w e) = tw_count w - 1"
  by (simp add: timer_wheel_entry_remove_def set_entry_def)

lemma wheel_wf_remove:
  assumes w: "wheel_wf w" and e: "e \<in> set (tw_slots w k)"
  shows "wheel_wf (timer_wheel_entry_remove w e)"
proof -
  have k: "k < MAX_TIMER_SLOTS" and d: "distinct (tw_slots w k)"
    using w e unfolding wheel_wf_def by blast+
  have o: "removeAll e (tw_slots w j) = tw_slots w j" if "j \<noteq> k" for j
    using wf_one_slot[OF w e, of j] that by (intro removeAll_id) simp
  have l: "Suc (length (removeAll e (tw_slots w k))) = length (tw_slots w k)"
    using d e by (simp add: distinct_remove1_removeAll[symmetric] length_remove1)
      (metis One_nat_def Suc_pred length_pos_if_in_set)
  have "(\<Sum>j<MAX_TIMER_SLOTS. length (tw_slots w j)) =
      Suc (\<Sum>j<MAX_TIMER_SLOTS. length (removeAll e (tw_slots w j)))"
    using k l o by (simp add: sum.remove[of "{..<MAX_TIMER_SLOTS}" k])
  then show ?thesis
    using w by (auto simp: wheel_wf_def count_remove distinct_removeAll)
qed


text \<open>Insertion of an entry that is not linked.\<close>

lemma wheel_wf_insert:
  assumes w: "wheel_wf w" and e: "\<not> linked w e" and cb: "te_callback (tw_entry w e) \<noteq> None"
    and t: "unat (te_timeout (tw_entry w e)) < MAX_TIMER_SLOTS"
  shows "wheel_wf (timer_wheel_entry_insert w e now)"
proof -
  let ?k = "unat ((now + ucast (te_timeout (tw_entry w e))) mod of_nat MAX_TIMER_SLOTS)"
  let ?S = "(tw_slots w)(?k := tw_slots w ?k @ [e])"
  have k: "?k < MAX_TIMER_SLOTS" by (rule slot_less)
  have "(\<Sum>j<MAX_TIMER_SLOTS. length (?S j)) = Suc (\<Sum>j<MAX_TIMER_SLOTS. length (tw_slots w j))"
    using k by (simp add: sum.remove[of "{..<MAX_TIMER_SLOTS}" ?k])
  moreover have "unat (ucast ((now + ucast (te_timeout (tw_entry w e))) mod of_nat MAX_TIMER_SLOTS :: u32) :: u16) = ?k"
    unfolding unat_ucast_slot unat_slot ..
  ultimately show ?thesis
    using w e cb t k by (auto simp: wheel_wf_def timer_wheel_entry_insert_def set_entry_def linked_def Let_def)
qed

lemma slots_insert:
  "tw_slots (timer_wheel_entry_insert w e now) =
    (let k = unat (now + ucast (te_timeout (tw_entry w e))) mod MAX_TIMER_SLOTS in
     (tw_slots w)(k := tw_slots w k @ [e]))"
  by (simp add: timer_wheel_entry_insert_def set_entry_def Let_def unat_slot)

lemma current_insert [simp]: "tw_current (timer_wheel_entry_insert w e now) = tw_current w"
  by (simp add: timer_wheel_entry_insert_def set_entry_def Let_def)

lemma wf_set_unlinked:
  assumes "wheel_wf w" and "\<not> linked w e"
  shows "wheel_wf (set_entry e f w)" "\<not> linked (set_entry e f w) e"
  using assms by (auto simp: wheel_wf_def set_entry_def linked_def)

lemma wheel_wf_entry_start:
  assumes "wheel_wf w" and "\<not> linked w e"
  shows "wheel_wf (timer_wheel_entry_start w e cb t now)"
  unfolding timer_wheel_entry_start_def Let_def
  by (rule wheel_wf_insert) (auto simp: wf_set_unlinked[OF assms], auto simp: set_entry_def MAX_TIMER_SLOTS_def)

lemma unlinked_remove: "\<not> linked (timer_wheel_entry_remove w e) e"
  by (simp add: linked_def)

lemma wheel_wf_refresh:
  assumes w: "wheel_wf w" and e: "linked w e"
  shows "wheel_wf (timer_wheel_entry_refresh w e now)"
proof -
  obtain k where k: "e \<in> set (tw_slots w k)" using e by (auto simp: linked_def)
  have r: "wheel_wf (timer_wheel_entry_remove w e)" by (rule wheel_wf_remove[OF w k])
  show ?thesis
    unfolding timer_wheel_entry_refresh_def Let_def
    by (rule wheel_wf_insert[OF wf_set_unlinked[OF r unlinked_remove]])
      (use wf_linked(3,4)[OF w k] in \<open>simp_all add: timer_wheel_entry_remove_def set_entry_def\<close>)
qed

section \<open>Rolling the wheel\<close>

text \<open>
  A callback is calm on a set of slots when it keeps the invariant and the position of the wheel and
  puts no entry into those slots.  It may unlink entries anywhere and re-arm timers elsewhere.
\<close>

definition calm :: "('cb \<Rightarrow> 'e \<Rightarrow> ('e, 'cb, 'x) wheel \<Rightarrow> ('e, 'cb, 'x) wheel) \<Rightarrow> nat set \<Rightarrow> bool" where
  "calm fire K \<longleftrightarrow> (\<forall>fn e w. wheel_wf w \<longrightarrow> \<not> linked w e \<longrightarrow>
    wheel_wf (fire fn e w) \<and> tw_current (fire fn e w) = tw_current w \<and>
    (\<forall>k\<in>K. set (tw_slots (fire fn e w) k) \<subseteq> set (tw_slots w k)))"

lemma calmD:
  assumes "calm fire K" and "wheel_wf w" and "\<not> linked w e"
  shows "wheel_wf (fire fn e w)" "tw_current (fire fn e w) = tw_current w"
    "k \<in> K \<Longrightarrow> set (tw_slots (fire fn e w) k) \<subseteq> set (tw_slots w k)"
  using assms unfolding calm_def by blast+

lemma drain_calm:
  assumes "calm fire K" and "k \<in> K" and "wheel_wf w"
  shows "\<exists>w' cnt'. drain_slot fire k w cnt = Some (w', cnt') \<and> wheel_wf w' \<and> tw_current w' = tw_current w \<and>
    tw_slots w' k = [] \<and> (\<forall>j\<in>K. set (tw_slots w' j) \<subseteq> set (tw_slots w j))"
  using assms(3)
proof (induction "card (set (tw_slots w k))" arbitrary: w cnt rule: less_induct)
  case less
  show ?case
  proof (cases "tw_slots w k")
    case Nil
    then show ?thesis using less.prems by (subst drain_slot.simps) simp
  next
    case (Cons e es)
    then have e: "e \<in> set (tw_slots w k)" by simp
    then obtain fn where fn: "te_callback (tw_entry w e) = Some fn"
      using wf_linked(3)[OF less.prems] by blast
    let ?r = "timer_wheel_entry_remove w e"
    let ?w = "fire fn e ?r"
    have w: "wheel_wf ?w" "tw_current ?w = tw_current w"
      and s: "\<And>j. j \<in> K \<Longrightarrow> set (tw_slots ?w j) \<subseteq> set (tw_slots w j) - {e}"
      using calmD[OF assms(1) wheel_wf_remove[OF less.prems e] unlinked_remove] by auto
    have "set (tw_slots ?w k) \<subset> set (tw_slots w k)"
      using s[OF assms(2)] e by blast
    then have "card (set (tw_slots ?w k)) < card (set (tw_slots w k))"
      by (simp add: psubset_card_mono)
    from less.hyps[OF this w(1), of "cnt + 1"] obtain w' cnt' where
      "drain_slot fire k ?w (cnt + 1) = Some (w', cnt')" "wheel_wf w'" "tw_current w' = tw_current w"
      "tw_slots w' k = []" "\<forall>j\<in>K. set (tw_slots w' j) \<subseteq> set (tw_slots ?w j)"
      using w(2) by auto
    moreover have "drain_slot fire k w cnt = drain_slot fire k ?w (cnt + 1)"
      by (subst drain_slot.simps) (simp add: Cons fn)
    ultimately show ?thesis
      using s by (metis (no_types, lifting) Diff_subset subset_trans)
  qed
qed

definition rolled :: "u32 \<Rightarrow> u32 \<Rightarrow> nat set" where
  "rolled s m = (\<lambda>t. t mod MAX_TIMER_SLOTS) ` {unat s..<unat m}"

lemma rolled_step: "s < m \<Longrightarrow> rolled s m = insert (unat s mod MAX_TIMER_SLOTS) (rolled (s + 1) m)"
proof -
  assume "s < m"
  then have "{unat s..<unat m} = insert (unat s) {unat (s + 1)..<unat m}"
    by (auto simp: unat_Suc_less word_less_nat_alt)
  then show ?thesis by (simp add: rolled_def)
qed

lemma roll_loop_calm:
  assumes "calm fire K" and "rolled s m \<subseteq> K" and "wheel_wf w"
  shows "\<exists>w' cnt'. roll_loop fire s m w cnt = Some (w', cnt') \<and> wheel_wf w' \<and> tw_current w' = tw_current w \<and>
    (\<forall>k\<in>rolled s m. tw_slots w' k = []) \<and> (\<forall>j\<in>K. set (tw_slots w' j) \<subseteq> set (tw_slots w j))"
  using assms(2,3)
proof (induction "unat m - unat s" arbitrary: s w cnt)
  case 0
  then have "\<not> s < m" by (simp add: word_less_nat_alt)
  then have "rolled s m = {}" by (simp add: rolled_def word_less_nat_alt)
  then show ?case using \<open>\<not> s < m\<close> 0 by (subst roll_loop.simps) auto
next
  case (Suc n)
  then have s: "s < m" by (simp add: word_less_nat_alt)
  let ?k = "unat (s mod of_nat MAX_TIMER_SLOTS)"
  have k: "?k \<in> K" and K: "rolled (s + 1) m \<subseteq> K"
    using Suc.prems(1) by (simp_all add: rolled_step[OF s] unat_slot)
  from drain_calm[OF assms(1) k Suc.prems(2), of cnt] obtain w1 c1 where
    d: "drain_slot fire ?k w cnt = Some (w1, c1)" "wheel_wf w1" "tw_current w1 = tw_current w"
      "tw_slots w1 ?k = []" "\<forall>j\<in>K. set (tw_slots w1 j) \<subseteq> set (tw_slots w j)"
    by blast
  have "n = unat m - unat (s + 1)" using Suc.hyps(2) by (simp add: unat_Suc_less[OF s])
  from Suc.hyps(1)[OF this K d(2), of c1] obtain w' cnt' where
    r: "roll_loop fire (s + 1) m w1 c1 = Some (w', cnt')" "wheel_wf w'" "tw_current w' = tw_current w1"
      "\<forall>k\<in>rolled (s + 1) m. tw_slots w' k = []" "\<forall>j\<in>K. set (tw_slots w' j) \<subseteq> set (tw_slots w1 j)"
    by blast
  have "roll_loop fire s m w cnt = Some (w', cnt')"
    using s d(1) r(1) by (subst roll_loop.simps) simp
  moreover have "tw_slots w' ?k = []"
    using r(5) k d(4) by fastforce
  moreover have "\<forall>j\<in>K. set (tw_slots w' j) \<subseteq> set (tw_slots w j)"
    using r(5) d(5) by blast
  ultimately show ?case
    using r(2-4) d(3) by (auto simp: rolled_step[OF s] unat_slot)
qed


text \<open>The slots that one roll visits, in terms of deadlines.\<close>

lemma rolled_deadline:
  assumes "unat c \<le> d" and "d < unat c + MAX_TIMER_SLOTS"
  shows "d mod MAX_TIMER_SLOTS \<in> rolled c now \<longleftrightarrow> d < unat now"
proof
  assume "d mod MAX_TIMER_SLOTS \<in> rolled c now"
  then obtain t where t: "unat c \<le> t" "t < unat now" "t mod MAX_TIMER_SLOTS = d mod MAX_TIMER_SLOTS"
    by (auto simp: rolled_def)
  show "d < unat now"
  proof (rule ccontr)
    assume "\<not> d < unat now"
    then have td: "t < d" using t by linarith
    then have "MAX_TIMER_SLOTS dvd d - t"
      using t(3) by (metis less_imp_le mod_eq_dvd_iff_nat)
    moreover have "0 < d - t" "d - t < MAX_TIMER_SLOTS" using td t(1) assms(2) by linarith+
    ultimately show False by (auto dest: dvd_imp_le)
  qed
qed (use assms in \<open>auto simp: rolled_def\<close>)

lemma rolled_min:
  assumes "unat c + MAX_TIMER_SLOTS < 2 ^ 32"
  shows "rolled c (min now (c + of_nat MAX_TIMER_SLOTS)) = rolled c now"
proof -
  have u: "unat (c + of_nat MAX_TIMER_SLOTS) = unat c + MAX_TIMER_SLOTS"
    using assms by (simp add: unat_word_ariths MAX_TIMER_SLOTS_def)
  have "k \<in> rolled c now \<Longrightarrow> k \<in> rolled c (c + of_nat MAX_TIMER_SLOTS)" for k
  proof -
    assume "k \<in> rolled c now"
    then obtain t where t: "unat c \<le> t" "k = t mod MAX_TIMER_SLOTS" by (auto simp: rolled_def)
    let ?t = "unat c + (t - unat c) mod MAX_TIMER_SLOTS"
    have "?t mod MAX_TIMER_SLOTS = k" using t by (simp add: mod_add_right_eq)
    moreover have "?t < unat c + MAX_TIMER_SLOTS" by (simp add: MAX_TIMER_SLOTS_def)
    ultimately show ?thesis
      unfolding rolled_def u by (intro image_eqI[of _ _ ?t]) auto
  qed
  then show ?thesis
    by (cases "now \<le> c + of_nat MAX_TIMER_SLOTS")
      (auto simp: min_def rolled_def word_le_nat_alt)
qed

text \<open>A callback that leaves the wheel alone: each entry of the slots passed is fired, once.\<close>

definition quiet_fire :: "('cb \<Rightarrow> 'e \<Rightarrow> ('e, 'cb, 'x) wheel \<Rightarrow> ('e, 'cb, 'x) wheel) \<Rightarrow> bool" where
  "quiet_fire fire \<longleftrightarrow> (\<forall>fn e w. tw_slots (fire fn e w) = tw_slots w \<and> tw_count (fire fn e w) = tw_count w \<and>
    tw_current (fire fn e w) = tw_current w \<and> tw_entry (fire fn e w) = tw_entry w)"

lemma quietD:
  assumes "quiet_fire fire"
  shows "tw_slots (fire fn e w) = tw_slots w" "tw_count (fire fn e w) = tw_count w"
    "tw_current (fire fn e w) = tw_current w" "tw_entry (fire fn e w) = tw_entry w"
  using assms unfolding quiet_fire_def by blast+

lemma quiet_wf: "quiet_fire fire \<Longrightarrow> wheel_wf (fire fn e w) = wheel_wf w"
  by (simp add: wheel_wf_def quietD)

lemma drain_quiet:
  assumes "quiet_fire fire" and "wheel_wf w"
  shows "\<exists>w'. drain_slot fire k w cnt = Some (w', cnt + (tw_count w - tw_count w')) \<and> wheel_wf w' \<and>
    tw_current w' = tw_current w \<and> tw_slots w' = (tw_slots w)(k := [])"
  using assms(2)
proof (induction "tw_slots w k" arbitrary: w cnt)
  case Nil
  have "tw_slots w = (tw_slots w)(k := [])" using Nil(1) by (simp add: fun_upd_idem)
  then show ?case using Nil by (subst drain_slot.simps) auto
next
  case (Cons e es)
  then have e: "e \<in> set (tw_slots w k)" and d: "e \<notin> set es"
    using wheel_wf_def by (metis list.set_intros(1), metis distinct.simps(2))
  then obtain fn where fn: "te_callback (tw_entry w e) = Some fn"
    using wf_linked(3)[OF Cons.prems] by blast
  let ?w = "fire fn e (timer_wheel_entry_remove w e)"
  have o: "removeAll e (tw_slots w j) = tw_slots w j" if "j \<noteq> k" for j
    using wf_one_slot[OF Cons.prems e, of j] that by (intro removeAll_id) simp
  have "es = tw_slots ?w k"
    using Cons.hyps(2)[symmetric] d by (simp add: quietD[OF assms(1)])
  from Cons.hyps(1)[OF this, of "cnt + 1"] obtain w' where
    w': "drain_slot fire k ?w (cnt + 1) = Some (w', cnt + 1 + (tw_count ?w - tw_count w'))" "wheel_wf w'"
      "tw_current w' = tw_current ?w" "tw_slots w' = (tw_slots ?w)(k := [])"
    using wheel_wf_remove[OF Cons.prems e] by (auto simp: quiet_wf[OF assms(1)])
  have "(tw_slots ?w)(k := []) = (tw_slots w)(k := [])"
    using o by (auto simp: quietD[OF assms(1)])
  moreover have "drain_slot fire k w cnt = drain_slot fire k ?w (cnt + 1)"
    by (subst drain_slot.simps) (simp add: Cons.hyps(2)[symmetric] fn)
  ultimately show ?case
    using w' by (auto simp: quietD[OF assms(1)] count_remove)
qed

lemma roll_loop_quiet:
  assumes "quiet_fire fire" and "wheel_wf w"
  shows "\<exists>w'. roll_loop fire s m w cnt = Some (w', cnt + (tw_count w - tw_count w')) \<and> wheel_wf w' \<and>
    tw_current w' = tw_current w \<and> tw_slots w' = (\<lambda>k. if k \<in> rolled s m then [] else tw_slots w k)"
  using assms(2)
proof (induction "unat m - unat s" arbitrary: s w cnt)
  case 0
  then have "\<not> s < m" by (simp add: word_less_nat_alt)
  then have "rolled s m = {}" by (simp add: rolled_def word_less_nat_alt)
  then show ?case using \<open>\<not> s < m\<close> 0 by (subst roll_loop.simps) auto
next
  case (Suc n)
  then have s: "s < m" by (simp add: word_less_nat_alt)
  from drain_quiet[OF assms(1) Suc.prems] obtain w1 where
    d: "drain_slot fire (unat (s mod of_nat MAX_TIMER_SLOTS)) w cnt = Some (w1, cnt + (tw_count w - tw_count w1))"
      "wheel_wf w1" "tw_current w1 = tw_current w" "tw_slots w1 = (tw_slots w)(unat s mod MAX_TIMER_SLOTS := [])"
    unfolding unat_slot by blast
  have "n = unat m - unat (s + 1)" using Suc.hyps(2) by (simp add: unat_Suc_less[OF s])
  from Suc.hyps(1)[OF this d(2), of "cnt + (tw_count w - tw_count w1)"] show ?case
    using s d by (subst roll_loop.simps) (auto simp: rolled_step[OF s] fun_eq_iff)
qed

lemma roll_quiet:
  assumes "quiet_fire fire" and "wheel_wf w" and "tw_current w \<le> now" and "unat (tw_current w) + MAX_TIMER_SLOTS < 2 ^ 32"
  shows "\<exists>w'. timer_wheel_roll fire w now = Some (w', tw_count w - tw_count w') \<and> wheel_wf w' \<and>
    tw_current w' = now \<and> tw_slots w' = (\<lambda>k. if k \<in> rolled (tw_current w) now then [] else tw_slots w k)"
proof -
  let ?m = "min now (tw_current w + of_nat MAX_TIMER_SLOTS)"
  from roll_loop_quiet[OF assms(1,2), of "tw_current w" ?m 0] obtain w' where
    "roll_loop fire (tw_current w) ?m w 0 = Some (w', tw_count w - tw_count w')" "wheel_wf w'"
    "tw_slots w' = (\<lambda>k. if k \<in> rolled (tw_current w) now then [] else tw_slots w k)"
    unfolding rolled_min[OF assms(4)] by auto
  then show ?thesis
    using assms(3) by (intro exI[of _ "w'\<lparr>tw_current := now\<rparr>"])
      (auto simp: timer_wheel_roll_def Let_def wheel_wf_def not_less)
qed


section \<open>What the timers promise\<close>

lemma start_slots:
  assumes "unat t < MAX_TIMER_SLOTS" and "unat now + unat t < 2 ^ 32"
  shows "tw_slots (timer_wheel_entry_start w e cb t now) =
    (let k = (unat now + unat t) mod MAX_TIMER_SLOTS in (tw_slots w)(k := tw_slots w k @ [e]))"
proof -
  have "unat (now + ucast t :: u32) = unat now + unat t"
    using assms(2) by (simp add: unat_word_ariths unsigned_ucast_eq take_bit_nat_eq_self)
  then show ?thesis
    using assms(1) by (simp add: timer_wheel_entry_start_def slots_insert set_entry_def Let_def)
qed

lemma start_current [simp]: "tw_current (timer_wheel_entry_start w e cb t now) = tw_current w"
  by (simp add: timer_wheel_entry_start_def set_entry_def Let_def)


definition example_wheel :: "(nat, nat) timer_wheel" where
  "example_wheel = timer_wheel_start (timer_wheel_init \<lparr>tw_slots = \<lambda>_. [], tw_count = 0, tw_current = 0,
    tw_entry = \<lambda>_. \<lparr>te_callback = None, te_expire_slot = 0, te_timeout = 0\<rparr>\<rparr>) 100"

lemma example_wheel_ready: "wheel_wf example_wheel" "\<not> linked example_wheel e" "tw_current example_wheel = 100"
  unfolding example_wheel_def wheel_wf_start
  by (simp_all add: wheel_wf_init linked_def) (simp_all add: timer_wheel_start_def timer_wheel_init_def)


lemma word_unat_cast: "of_nat (unat x) = (x :: 'a::len word)"
  by simp

lemma turn_wrap:
  fixes r j M :: nat
  assumes "r < M" and "j < M"
  shows "(r + j) mod M = (if r + j < M then r + j else r + j - M)"
  using assms by (auto simp: le_mod_geq not_less)

lemma turn_distance:
  fixes n d M :: nat
  assumes "n \<le> d" and "d < n + M"
  shows "d + n mod M = (if n mod M \<le> d mod M then n + d mod M else n + d mod M + M)"
proof -
  obtain j where j: "d = n + j" "j < M" using assms by (metis le_Suc_ex nat_add_left_cancel_less)
  define r where "r = n mod M"
  have r: "r < M" unfolding r_def using j(2) by (intro mod_less_divisor) simp
  have "d mod M = (r + j) mod M"
    unfolding j(1) r_def mod_add_left_eq ..
  then have "d mod M = (if r + j < M then r + j else r + j - M)"
    using turn_wrap[OF r j(2)] by simp
  then show ?thesis
    using r j(2) unfolding r_def[symmetric] by (auto simp: j(1))
qed

lemma expire_at_start:
  assumes "unat t < MAX_TIMER_SLOTS" and "unat armed + unat t < 2 ^ 32"
    and "armed \<le> now" and "unat now \<le> unat armed + unat t"
  shows "get_expire_at (timer_wheel_entry_start w e cb t armed) e now = armed + ucast t"
proof -
  let ?w = "timer_wheel_entry_start w e cb t armed" and ?M = MAX_TIMER_SLOTS
  let ?d = "unat armed + unat t"
  have d: "unat (armed + ucast t :: u32) = ?d"
    using assms(2) by (simp add: unat_word_ariths unsigned_ucast_eq take_bit_nat_eq_self)
  have en: "tw_entry ?w e = \<lparr>te_callback = Some cb, te_expire_slot = ucast ((armed + ucast t :: u32) mod of_nat ?M),
      te_timeout = t, \<dots> = timer_entry.more (tw_entry w e)\<rparr>"
    using assms(1) by (simp add: timer_wheel_entry_start_def timer_wheel_entry_insert_def set_entry_def Let_def)
  let ?a = "ucast ((armed + ucast t :: u32) mod of_nat ?M) :: u16" and ?b = "ucast (now mod of_nat ?M) :: u16"
  have ua: "unat ?a = ?d mod ?M" and ub: "unat ?b = unat now mod ?M"
    unfolding unat_ucast_slot d by simp_all
  have ca: "(ucast ?a :: u32) = of_nat (?d mod ?M)" and cb: "(ucast ?b :: u32) = of_nat (unat now mod ?M)"
    unfolding ua[symmetric] ub[symmetric] by simp_all
  have "unat armed \<le> unat now" using assms(3) by (simp add: word_le_nat_alt)
  then have t: "?d + unat now mod ?M = (if unat now mod ?M \<le> ?d mod ?M then unat now + ?d mod ?M
      else unat now + ?d mod ?M + ?M)"
    using assms(1,4) by (intro turn_distance) auto
  have "armed + ucast t = (of_nat ?d :: u32)" by simp
  also have "\<dots> = (if ?b \<le> ?a then now + ucast ?a - ucast ?b else now + ucast ?a + of_nat ?M - ucast ?b)"
  proof (cases "unat now mod ?M \<le> ?d mod ?M")
    case True
    then have "?d + unat now mod ?M = unat now + ?d mod ?M" using t by presburger
    then have "of_nat ?d + of_nat (unat now mod ?M) = now + (of_nat (?d mod ?M) :: u32)"
      by (metis of_nat_add word_unat_cast)
    with True show ?thesis
      unfolding ca cb word_le_nat_alt ua ub by (simp add: eq_diff_eq)
  next
    case False
    then have "?d + unat now mod ?M = unat now + ?d mod ?M + ?M" using t by presburger
    then have "of_nat ?d + of_nat (unat now mod ?M) = now + (of_nat (?d mod ?M) :: u32) + of_nat ?M"
      by (metis of_nat_add word_unat_cast)
    with False show ?thesis
      unfolding ca cb word_le_nat_alt ua ub by (simp add: eq_diff_eq)
  qed
  also have "\<dots> = get_expire_at ?w e now"
    by (simp add: get_expire_at_def en Let_def)
  finally show ?thesis
    by (rule sym)
qed

lemma unat_u16_small: "unat (x :: u32) < 2 ^ 16 \<Longrightarrow> unat (ucast x :: u16) = unat x"
  by (simp add: unsigned_ucast_eq take_bit_nat_eq_self)

text \<open>
  C36. The idle time and the remaining life that the session and meter reports carry: while a timer runs they
  are the seconds since it was armed and the seconds until it fires.
\<close>

theorem timer_idle_and_life:
  assumes "unat t < MAX_TIMER_SLOTS" and "unat armed + unat t < 2 ^ 32"
    and "armed \<le> now" and "unat now \<le> unat armed + unat t"
  shows "unat (timer_wheel_entry_get_life (timer_wheel_entry_start w e cb t armed) e now) = unat armed + unat t - unat now \<and>
    unat (timer_wheel_entry_get_idle (timer_wheel_entry_start w e cb t armed) e now) = unat now - unat armed"
proof -
  let ?w = "timer_wheel_entry_start w e cb t armed"
  note x = expire_at_start[OF assms, of w e cb]
  have d: "unat (armed + ucast t :: u32) = unat armed + unat t"
    using assms(2) by (simp add: unat_word_ariths unsigned_ucast_eq take_bit_nat_eq_self)
  have le: "unat armed \<le> unat now" using assms(3) by (simp add: word_le_nat_alt)
  have l: "unat (armed + ucast t - now :: u32) = unat armed + unat t - unat now"
    using assms(4) d by (simp add: unat_sub word_le_nat_alt)
  have i: "unat (now - armed) = unat now - unat armed"
    using assms(3) by (rule unat_sub)
  have "te_timeout (tw_entry ?w e) = t"
    using assms(1) by (simp add: timer_wheel_entry_start_def timer_wheel_entry_insert_def set_entry_def Let_def)
  then show "unat (timer_wheel_entry_get_life ?w e now) = unat armed + unat t - unat now \<and>
      unat (timer_wheel_entry_get_idle ?w e now) = unat now - unat armed"
    unfolding timer_wheel_entry_get_life_def timer_wheel_entry_get_idle_def x
    using l i assms(1,4) le by (auto simp: MAX_TIMER_SLOTS_def unat_u16_small)
qed

theorem timer_idle_and_life_witness:
  "unat (timer_wheel_entry_get_life (timer_wheel_entry_start example_wheel 7 1 60 100) 7 125) = unat (100 :: u32) + unat (60 :: u16) - unat (125 :: u32) \<and>
    unat (timer_wheel_entry_get_idle (timer_wheel_entry_start example_wheel 7 1 60 100) 7 125) = unat (125 :: u32) - unat (100 :: u32)"
  by (rule timer_idle_and_life) (simp_all add: MAX_TIMER_SLOTS_def)

section \<open>The release queue\<close>

definition queue_wf :: "'n timer_queue \<Rightarrow> bool" where
  "queue_wf q \<longleftrightarrow> distinct (map fst (tq_head q)) \<and> tq_count q = of_nat (length (tq_head q))"

lemma queue_wf_init: "queue_wf (timer_queue_init t)"
  by (simp add: queue_wf_def timer_queue_init_def)

lemma queue_wf_append:
  "queue_wf q \<Longrightarrow> n \<notin> fst ` set (tq_head q) \<Longrightarrow> queue_wf (timer_queue_append q n now)"
  by (simp add: queue_wf_def timer_queue_append_def)

lemma queue_filter_head:
  "distinct (map fst ((n, t) # l)) \<Longrightarrow> filter (\<lambda>x. fst x \<noteq> n) ((n, t) # l) = l"
  by (auto simp: filter_id_conv image_iff)

lemma trim_loop_spec:
  assumes "queue_wf q" and "sorted (map snd (tq_head q))" and "tq_head q = l"
    and "\<forall>(n, t)\<in>set l. t \<le> now \<and> unat t + unat (tq_timeout q) < 2 ^ 32"
  shows "trim_loop l q now r =
    (r @ map fst (takeWhile (\<lambda>(n, t). unat t + unat (tq_timeout q) \<le> unat now) l),
     q\<lparr>tq_head := dropWhile (\<lambda>(n, t). unat t + unat (tq_timeout q) \<le> unat now) l,
       tq_count := of_nat (length (dropWhile (\<lambda>(n, t). unat t + unat (tq_timeout q) \<le> unat now) l))\<rparr>)"
  using assms
proof (induction l arbitrary: q r)
  case Nil
  then show ?case by (simp add: queue_wf_def)
next
  case (Cons x l)
  obtain n t where x: "x = (n, t)" by (cases x)
  have t: "\<not> now < t" and u: "unat (t + tq_timeout q) = unat t + unat (tq_timeout q)"
    using Cons.prems(4) by (auto simp: x unat_word_ariths)
  have d: "distinct (map fst ((n, t) # l))"
    using Cons.prems(1,3) by (simp add: queue_wf_def x)
  show ?case
  proof (cases "unat t + unat (tq_timeout q) \<le> unat now")
    case False
    then have "now < t + tq_timeout q" by (simp add: word_less_nat_alt u)
    then show ?thesis
      using False t Cons.prems(1,3) by (simp add: x queue_wf_def)
  next
    case True
    then have n: "\<not> now < t + tq_timeout q" by (simp add: word_less_nat_alt u)
    have h: "tq_head (timer_queue_remove q n) = l"
      using queue_filter_head[OF d] Cons.prems(3) by (simp add: timer_queue_remove_def x)
    have "queue_wf (timer_queue_remove q n)"
      using Cons.prems(1,3) d h by (simp add: queue_wf_def timer_queue_remove_def x)
    moreover have "sorted (map snd (tq_head (timer_queue_remove q n)))"
      using Cons.prems(2,3) h by (simp add: x)
    moreover have "tq_timeout (timer_queue_remove q n) = tq_timeout q"
      by (simp add: timer_queue_remove_def)
    ultimately show ?thesis
      using Cons.IH[of "timer_queue_remove q n" "r @ [n]"] Cons.prems(4) h t n True
      by (simp add: x timer_queue_remove_def)
  qed
qed

lemma takeWhile_sorted_filter:
  assumes "sorted (map f l)" and "\<And>x y. f x \<le> f y \<Longrightarrow> P y \<Longrightarrow> P x"
  shows "takeWhile P l = filter P l" "dropWhile P l = filter (\<lambda>x. \<not> P x) l"
proof -
  have "takeWhile P l = filter P l \<and> dropWhile P l = filter (\<lambda>x. \<not> P x) l"
    using assms(1)
  proof (induction l)
    case (Cons a l)
    show ?case
    proof (cases "P a")
      case False
      then have "\<forall>x\<in>set l. \<not> P x" using Cons.prems assms(2) by auto
      with False show ?thesis by (simp add: filter_False filter_True)
    qed (use Cons in simp)
  qed simp
  then show "takeWhile P l = filter P l" "dropWhile P l = filter (\<lambda>x. \<not> P x) l" by auto
qed



end
