(* ===== verification/DpPolicy.thy ===== *)
theory DpPolicy
  imports DpEnv DpFqdn DpTimer
begin

text \<open>
  The network policy of the data plane (\<open>internal/dp/dpi/dpi_policy.c\<close>).  A policy is compiled into two
  tables: an exact table on the five-tuple with the application, and a range table that holds a list of
  range rules for every pair of a workload address and a direction.  A packet is looked up in the exact table,
  then in the lists; the shortcuts for traffic that is not enforced come before both.

  The exact table may hold several entries under one key, and the lock-free hash table of liburcu leaves open
  which one a lookup returns: \<open>pick\<close> is that choice.  The range table has one entry per key, because an entry is
  added only under a key that the lookup has not found.  Allocations succeed; the statistics
  counters are not part of the model.
\<close>

unbundle bit_operations_syntax

section \<open>Data\<close>

definition DP_POLICY_ACTION_OPEN :: u8 where "DP_POLICY_ACTION_OPEN = 0"
definition DP_POLICY_ACTION_ALLOW :: u8 where "DP_POLICY_ACTION_ALLOW = 2"
definition DP_POLICY_ACTION_CHECK_VH :: u8 where "DP_POLICY_ACTION_CHECK_VH = 3"
definition DP_POLICY_ACTION_CHECK_NBE :: u8 where "DP_POLICY_ACTION_CHECK_NBE = 4"
definition DP_POLICY_ACTION_CHECK_APP :: u8 where "DP_POLICY_ACTION_CHECK_APP = 5"
definition DP_POLICY_ACTION_VIOLATE :: u8 where "DP_POLICY_ACTION_VIOLATE = 6"
definition DP_POLICY_ACTION_DENY :: u8 where "DP_POLICY_ACTION_DENY = 7"

lemmas action_defs = DP_POLICY_ACTION_OPEN_def DP_POLICY_ACTION_ALLOW_def DP_POLICY_ACTION_CHECK_VH_def
  DP_POLICY_ACTION_CHECK_NBE_def DP_POLICY_ACTION_CHECK_APP_def DP_POLICY_ACTION_VIOLATE_def DP_POLICY_ACTION_DENY_def

definition POLICY_DESC_CHECK_VER :: u16 where "POLICY_DESC_CHECK_VER = 0x0001"
definition POLICY_DESC_INTERNAL :: u16 where "POLICY_DESC_INTERNAL = 0x0002"
definition POLICY_DESC_EXTERNAL :: u16 where "POLICY_DESC_EXTERNAL = 0x0004"
definition POLICY_DESC_TUNNEL :: u16 where "POLICY_DESC_TUNNEL = 0x0008"
definition POLICY_DESC_UNKNOWN_IP :: u16 where "POLICY_DESC_UNKNOWN_IP = 0x0010"
definition POLICY_DESC_SVC_EXTIP :: u16 where "POLICY_DESC_SVC_EXTIP = 0x0020"
definition POLICY_DESC_HOSTIP :: u16 where "POLICY_DESC_HOSTIP = 0x0040"
definition POLICY_DESC_LINK_LOCAL :: u16 where "POLICY_DESC_LINK_LOCAL = 0x0100"
definition POLICY_DESC_TMP_OPEN :: u16 where "POLICY_DESC_TMP_OPEN = 0x0200"
definition POLICY_DESC_UWLIP :: u16 where "POLICY_DESC_UWLIP = 0x0400"
definition POLICY_DESC_CHK_NBE :: u16 where "POLICY_DESC_CHK_NBE = 0x0800"
definition POLICY_DESC_NBE_SNS :: u16 where "POLICY_DESC_NBE_SNS = 0x1000"

lemmas desc_flag_defs = POLICY_DESC_CHECK_VER_def POLICY_DESC_INTERNAL_def POLICY_DESC_EXTERNAL_def
  POLICY_DESC_TUNNEL_def POLICY_DESC_UNKNOWN_IP_def POLICY_DESC_SVC_EXTIP_def POLICY_DESC_HOSTIP_def
  POLICY_DESC_LINK_LOCAL_def POLICY_DESC_TMP_OPEN_def POLICY_DESC_UWLIP_def POLICY_DESC_CHK_NBE_def POLICY_DESC_NBE_SNS_def

definition DP_POLICY_APPLY_EGRESS :: int where "DP_POLICY_APPLY_EGRESS = 1"
definition DP_POLICY_APPLY_INGRESS :: int where "DP_POLICY_APPLY_INGRESS = 2"

definition DP_IPPROTO_ICMP :: u16 where "DP_IPPROTO_ICMP = 1"
definition DP_IPPROTO_TCP :: u16 where "DP_IPPROTO_TCP = 6"
definition DP_IPPROTO_UDP :: u16 where "DP_IPPROTO_UDP = 17"

record dpi_policy_desc =
  pd_id :: u32
  pd_action :: u8
  pd_flags :: u16
  pd_hdl_ver :: u16
  pd_order :: u32

definition desc0 :: dpi_policy_desc where
  "desc0 = \<lparr>pd_id = 0, pd_action = 0, pd_flags = 0, pd_hdl_ver = 0, pd_order = 0\<rparr>"

record dpi_rule_key =
  rk_sip :: u32
  rk_dip :: u32
  rk_dport :: u16
  rk_proto :: u16
  rk_app :: u32

record dpi_range_rule_key =
  rr_ip :: u32
  rr_proto :: u16
  rr_flag :: u16

definition DP_RANGE_RULE_INGRESS :: u16 where "DP_RANGE_RULE_INGRESS = 1"
definition DP_RANGE_RULE_EGRESS :: u16 where "DP_RANGE_RULE_EGRESS = 2"

record dpi_range_rule_item =
  ri_desc :: dpi_policy_desc
  ri_key_l :: dpi_rule_key
  ri_key_h :: dpi_rule_key

record dpi_policy_hdl =
  ph_ref_cnt :: u16
  ph_ver :: u16
  ph_policy_map :: "(dpi_rule_key \<times> dpi_policy_desc) list"
  ph_range_policy_map :: "(dpi_range_rule_key, dpi_range_rule_item list) gomap"
  ph_def_action :: int
  ph_apply_dir :: int
  ph_flag :: u32

definition POLICY_HDL_FLAG_FQDN :: u32 where "POLICY_HDL_FLAG_FQDN = 1"

datatype rule_dir = DIR_EGRESS | DIR_INGRESS | DIR_NONE

record dpi_policy_app_rule =
  ar_rule_id :: u32
  ar_app :: u32
  ar_action :: u8

text \<open>The fields of a session and of a packet that the policy code uses.\<close>

record policy_session =
  ps_policy_desc :: dpi_policy_desc
  ps_xff_desc :: dpi_policy_desc
  ps_app_ready :: bool
  ps_mid_stream :: bool
  ps_ingress :: bool
  ps_app :: u16
  ps_base_app :: u16
  ps_vhost :: string
  ps_vhlen :: u16
  ps_sip :: u32
  ps_dip :: u32
  ps_dport :: u16
  ps_proto :: u16
  ps_client_mac :: u64
  ps_server_mac :: u64
  ps_mesh_to_svr :: bool
  ps_xff :: bool
  ps_xff_client_ip :: u32
  ps_xff_port :: u16
  ps_xff_app :: u16

record policy_packet =
  pk_eth_type :: u16
  pk_ip_proto :: u16
  pk_sport :: u16
  pk_dport :: u16
  pk_saddr :: u32
  pk_daddr :: u32
  pk_ingress :: bool
  pk_ep_nbe :: "bool option"
  pk_ep_mac :: u64
  pk_log_mid :: bool
  pk_log_xff :: bool
  pk_session :: "policy_session option"

section \<open>The tables\<close>

definition dpi_policy_hdl_init :: "int \<Rightarrow> dpi_policy_hdl" where
  "dpi_policy_hdl_init def_action = \<lparr>ph_ref_cnt = 0, ph_ver = 0, ph_policy_map = [], ph_range_policy_map = [],
    ph_def_action = def_action, ph_apply_dir = 0, ph_flag = 0\<rparr>"

definition rule_key_in_range :: "dpi_range_rule_item \<Rightarrow> dpi_rule_key \<Rightarrow> bool" where
  "rule_key_in_range item k \<longleftrightarrow>
    rk_dport (ri_key_l item) \<le> rk_dport k \<and> rk_dport k \<le> rk_dport (ri_key_h item) \<and>
    ntohl (rk_sip (ri_key_l item)) \<le> ntohl (rk_sip k) \<and> ntohl (rk_sip k) \<le> ntohl (rk_sip (ri_key_h item)) \<and>
    ntohl (rk_dip (ri_key_l item)) \<le> ntohl (rk_dip k) \<and> ntohl (rk_dip k) \<le> ntohl (rk_dip (ri_key_h item)) \<and>
    rk_app (ri_key_l item) \<le> rk_app k \<and> rk_app k \<le> rk_app (ri_key_h item)"

definition dpi_range_rule_match :: "dpi_range_rule_item list \<Rightarrow> dpi_rule_key \<Rightarrow> dpi_range_rule_item option" where
  "dpi_range_rule_match items k = find (\<lambda>item. rule_key_in_range item k) items"

definition policy_map_lookup ::
  "(dpi_policy_desc list \<Rightarrow> dpi_policy_desc option) \<Rightarrow> dpi_policy_hdl \<Rightarrow> dpi_rule_key \<Rightarrow> dpi_policy_desc option" where
  "policy_map_lookup pick hdl k = pick (map snd (filter (\<lambda>e. fst e = k) (ph_policy_map hdl)))"

text \<open>\<open>_dpi_policy_lookup_by_key\<close>.\<close>

definition tables_lookup ::
  "(dpi_policy_desc list \<Rightarrow> dpi_policy_desc option) \<Rightarrow> dpi_policy_hdl \<Rightarrow> dpi_rule_key \<Rightarrow> bool \<Rightarrow> dpi_policy_desc" where
  "tables_lookup pick hdl k is_ingress = (case policy_map_lookup pick hdl k of
      Some d \<Rightarrow> d
    | None \<Rightarrow>
        let key2 = (if is_ingress then \<lparr>rr_ip = rk_dip k, rr_proto = rk_proto k, rr_flag = DP_RANGE_RULE_INGRESS\<rparr>
                    else \<lparr>rr_ip = rk_sip k, rr_proto = rk_proto k, rr_flag = DP_RANGE_RULE_EGRESS\<rparr>);
            find_in = (\<lambda>key2. case gget (ph_range_policy_map hdl) key2 of None \<Rightarrow> None
              | Some items \<Rightarrow> dpi_range_rule_match items k) in
        (case find_in key2 of
          Some item \<Rightarrow> ri_desc item
        | None \<Rightarrow>
            (case find_in (key2\<lparr>rr_flag := 0, rr_ip := 0\<rparr>) of
              Some item \<Rightarrow> ri_desc item
            | None \<Rightarrow> \<lparr>pd_id = 0, pd_action = word_of_int (ph_def_action hdl), pd_flags = POLICY_DESC_CHECK_VER,
                pd_hdl_ver = 0, pd_order = 0xffffffff\<rparr>)))"

definition policy_desc_merge :: "dpi_policy_desc \<Rightarrow> dpi_policy_desc \<Rightarrow> dpi_policy_desc" where
  "policy_desc_merge d1 d2 = (if pd_id d2 > 0 \<and> pd_order d2 < pd_order d1 then d2 else d1)"

text \<open>
  \<open>policy_match_ipv4_fqdn_code\<close>: the records of the address, in list order, looked up with their codes in the
  place of the address.  The result is None when the function returns 0.
\<close>

definition fqdn_record_desc ::
  "(dpi_policy_desc list \<Rightarrow> dpi_policy_desc option) \<Rightarrow> fqdn_record \<Rightarrow> dpi_policy_hdl \<Rightarrow> dpi_rule_key \<Rightarrow> bool
    \<Rightarrow> policy_session option \<Rightarrow> dpi_policy_desc" where
  "fqdn_record_desc pick r hdl k is_ingress s = (
    let k = (if is_ingress then k\<lparr>rk_sip := fr_code r\<rparr> else k\<lparr>rk_dip := fr_code r\<rparr>);
        d = tables_lookup pick hdl k is_ingress in
    if fr_vh r then
      (case s of
        Some s \<Rightarrow>
          if ps_app_ready s then
            if pd_id d > 0 then
              let wildmatch = (fr_flag r AND FQDN_RECORD_WILDCARD \<noteq> 0 \<and> match_fqdn_wildcard_name (ps_vhost s) (fr_name r)) in
              if ps_vhlen s = 0 \<or> (\<not> strcaseeq (fr_name r) (ps_vhost s) \<and> \<not> wildmatch)
              then d\<lparr>pd_id := 0, pd_action := word_of_int (ph_def_action hdl), pd_order := 0xffffffff, pd_hdl_ver := 0\<rparr>
              else d
            else d
          else if pd_id d > 0 \<and> pd_action d \<noteq> DP_POLICY_ACTION_CHECK_APP
            then d\<lparr>pd_action := DP_POLICY_ACTION_CHECK_VH\<rparr> else d
      | None \<Rightarrow> if pd_id d > 0 \<and> pd_action d \<noteq> DP_POLICY_ACTION_CHECK_APP
          then d\<lparr>pd_action := DP_POLICY_ACTION_CHECK_VH\<rparr> else d)
    else d)"

definition policy_match_ipv4_fqdn_code ::
  "(dpi_policy_desc list \<Rightarrow> dpi_policy_desc option) \<Rightarrow> dpi_fqdn_hdl \<Rightarrow> u32 \<Rightarrow> dpi_policy_hdl \<Rightarrow> dpi_rule_key \<Rightarrow> bool
    \<Rightarrow> policy_session option \<Rightarrow> dpi_policy_desc option" where
  "policy_match_ipv4_fqdn_code pick fh ip hdl k is_ingress s = (case gget (fq_ipv4 fh) ip of
      None \<Rightarrow> None
    | Some l \<Rightarrow>
        fold (\<lambda>r acc. let d = fqdn_record_desc pick (fq_rec fh r) hdl k is_ingress s in
            case acc of None \<Rightarrow> Some d | Some d2 \<Rightarrow> Some (policy_desc_merge d2 d))
          (filter (\<lambda>r. fr_code (fq_rec fh r) \<noteq> 0) l) None)"

section \<open>The lookup\<close>

definition is_chk_nbe :: "policy_packet option \<Rightarrow> bool" where
  "is_chk_nbe p = (case p of None \<Rightarrow> False | Some p \<Rightarrow> pk_ep_nbe p = Some True)"

text \<open>
  The tables, with the rules on names and, for an external peer, the rules on the address 0 that
  stands for all external addresses.
\<close>

definition enforced_lookup ::
  "(dpi_policy_desc list \<Rightarrow> dpi_policy_desc option) \<Rightarrow> dpi_fqdn_hdl \<Rightarrow> dpi_policy_hdl \<Rightarrow> dpi_rule_key \<Rightarrow> bool \<Rightarrow> bool
    \<Rightarrow> policy_session option \<Rightarrow> dpi_policy_desc" where
  "enforced_lookup pick fh hdl k is_ingress is_internal s = (
    let peer = (if is_ingress then rk_sip k else rk_dip k);
        d = tables_lookup pick hdl k is_ingress;
        d = (if ph_flag hdl AND POLICY_HDL_FLAG_FQDN \<noteq> 0 then
               (case policy_match_ipv4_fqdn_code pick fh peer hdl k is_ingress s of
                 None \<Rightarrow> d | Some d2 \<Rightarrow> policy_desc_merge d d2)
             else d) in
    if \<not> is_internal then
      let k0 = (if is_ingress then k\<lparr>rk_sip := 0\<rparr> else k\<lparr>rk_dip := 0\<rparr>);
          d = policy_desc_merge d (tables_lookup pick hdl k0 is_ingress) in
      d\<lparr>pd_flags := pd_flags d OR POLICY_DESC_EXTERNAL\<rparr>
    else d\<lparr>pd_flags := pd_flags d OR POLICY_DESC_INTERNAL\<rparr>)"

definition open_desc :: "dpi_policy_desc \<Rightarrow> u16 \<Rightarrow> dpi_policy_desc" where
  "open_desc d flags = d\<lparr>pd_id := 0, pd_action := DP_POLICY_ACTION_OPEN, pd_flags := flags\<rparr>"

definition ingress_lookup ::
  "(dpi_policy_desc list \<Rightarrow> dpi_policy_desc option) \<Rightarrow> dp_env \<Rightarrow> dpi_fqdn_hdl \<Rightarrow> dpi_policy_hdl \<Rightarrow> dpi_rule_key
    \<Rightarrow> dpi_policy_desc \<Rightarrow> policy_packet option \<Rightarrow> dpi_policy_desc" where
  "ingress_lookup pick e fh hdl k desc p = (
    let check_sgm = (strict_group_mode e \<and> ph_def_action hdl = uint DP_POLICY_ACTION_DENY);
        is_internal = dpi_is_ip4_internal e (rk_sip k);
        iptype = dpi_ip4_iptype e (rk_sip k) in
    if is_internal \<and> ph_apply_dir hdl AND DP_POLICY_APPLY_INGRESS = 0 \<and> iptype \<noteq> DP_IPTYPE_UWLIP \<and>
        \<not> is_chk_nbe p \<and> \<not> check_sgm then
      open_desc desc (POLICY_DESC_INTERNAL OR
        (if iptype = DP_IPTYPE_TUNNELIP then POLICY_DESC_TUNNEL
         else if iptype = DP_IPTYPE_HOSTIP then POLICY_DESC_HOSTIP else 0))
    else if iptype = DP_IPTYPE_UWLIP \<and> \<not> detect_unmanaged_wl e then
      open_desc desc (if is_internal then POLICY_DESC_INTERNAL else POLICY_DESC_EXTERNAL)
    else enforced_lookup pick fh hdl k True is_internal (Option.bind p pk_session))"

definition egress_lookup ::
  "(dpi_policy_desc list \<Rightarrow> dpi_policy_desc option) \<Rightarrow> dp_env \<Rightarrow> dpi_fqdn_hdl \<Rightarrow> dpi_policy_hdl \<Rightarrow> dpi_rule_key
    \<Rightarrow> dpi_policy_desc \<Rightarrow> policy_packet option \<Rightarrow> dpi_policy_desc" where
  "egress_lookup pick e fh hdl k desc p = (
    let check_sgm = (strict_group_mode e \<and> ph_def_action hdl = uint DP_POLICY_ACTION_DENY);
        is_internal = dpi_is_ip4_internal e (rk_dip k);
        iptype = dpi_ip4_iptype e (rk_dip k);
        ipv4_ent = gget (fq_ipv4 fh) (rk_dip k);
        is_src_internal = dpi_is_ip4_internal e (rk_sip k) in
    if is_internal \<and> \<not> is_src_internal \<and> ph_apply_dir hdl AND DP_POLICY_APPLY_EGRESS \<noteq> 0 then
      open_desc desc POLICY_DESC_INTERNAL
    else if \<not> is_internal \<and> iptype = DP_IPTYPE_EXTIP then
      desc\<lparr>pd_id := 0,
        pd_action := (if ph_def_action hdl = uint DP_POLICY_ACTION_DENY then DP_POLICY_ACTION_DENY else DP_POLICY_ACTION_VIOLATE),
        pd_flags := pd_flags desc OR POLICY_DESC_EXTERNAL OR POLICY_DESC_SVC_EXTIP, pd_order := 0xffffffff\<rparr>
    else if is_internal \<and> ph_apply_dir hdl AND DP_POLICY_APPLY_EGRESS = 0 \<and> ipv4_ent = None \<and>
        iptype \<noteq> DP_IPTYPE_HOSTIP \<and> iptype \<noteq> DP_IPTYPE_UWLIP \<and> \<not> is_chk_nbe p \<and> \<not> check_sgm then
      open_desc desc POLICY_DESC_INTERNAL
    else if iptype = DP_IPTYPE_UWLIP \<and> \<not> detect_unmanaged_wl e then
      open_desc desc (if is_internal then POLICY_DESC_INTERNAL else POLICY_DESC_EXTERNAL)
    else if is_chk_nbe p \<and> iptype = DP_IPTYPE_SVCIP then
      open_desc desc POLICY_DESC_INTERNAL
    else enforced_lookup pick fh hdl k False is_internal (Option.bind p pk_session))"

definition dpi_policy_lookup_by_key ::
  "(dpi_policy_desc list \<Rightarrow> dpi_policy_desc option) \<Rightarrow> dp_env \<Rightarrow> dpi_fqdn_hdl \<Rightarrow> dpi_policy_hdl option \<Rightarrow> dpi_rule_key
    \<Rightarrow> bool \<Rightarrow> dpi_policy_desc \<Rightarrow> policy_packet option \<Rightarrow> dpi_policy_desc" where
  "dpi_policy_lookup_by_key pick e fh hdl k is_ingress desc p = (case hdl of
      None \<Rightarrow>
        (open_desc desc (POLICY_DESC_CHECK_VER OR POLICY_DESC_TMP_OPEN OR
          (if dpi_is_ip4_internal e (if is_ingress then rk_sip k else rk_dip k) then POLICY_DESC_INTERNAL
           else POLICY_DESC_EXTERNAL)))\<lparr>pd_hdl_ver := 0\<rparr>
    | Some h \<Rightarrow>
        (if disable_net_policy e then
          open_desc desc (POLICY_DESC_CHECK_VER OR POLICY_DESC_TMP_OPEN OR
            (if dpi_is_ip4_internal e (if is_ingress then rk_sip k else rk_dip k) then POLICY_DESC_INTERNAL
             else POLICY_DESC_EXTERNAL))
        else if IS_IN_LINKLOCAL (ntohl (rk_sip k)) \<or> IS_IN_LINKLOCAL (ntohl (rk_dip k)) then
          open_desc desc (POLICY_DESC_CHECK_VER OR POLICY_DESC_INTERNAL OR POLICY_DESC_LINK_LOCAL)
        else if is_ingress then ingress_lookup pick e fh h k desc p
        else egress_lookup pick e fh h k desc p)\<lparr>pd_hdl_ver := ph_ver h\<rparr>)"

end
