(* ===== verification/DpPolicyCfg.thy ===== *)
theory DpPolicyCfg
  imports DpPolicy
begin

text \<open>
  Policy configuration (\<open>dpi_policy_cfg\<close> and the functions it calls): compiling a list of rules into the
  tables of a new handle, and installing the handle on endpoints with reference counting.
\<close>

unbundle bit_operations_syntax

section \<open>Compiling rules\<close>

definition get_range_key :: "dpi_rule_key \<Rightarrow> dpi_rule_key \<Rightarrow> rule_dir \<Rightarrow> dpi_range_rule_key option" where
  "get_range_key key_l key_h dir = (
    if rk_proto key_l \<noteq> rk_proto key_h then None
    else Some (case dir of
        DIR_INGRESS \<Rightarrow> \<lparr>rr_ip = rk_dip key_l, rr_proto = rk_proto key_l, rr_flag = DP_RANGE_RULE_INGRESS\<rparr>
      | DIR_EGRESS \<Rightarrow> \<lparr>rr_ip = rk_sip key_l, rr_proto = rk_proto key_l, rr_flag = DP_RANGE_RULE_EGRESS\<rparr>
      | DIR_NONE \<Rightarrow> \<lparr>rr_ip = 0, rr_proto = rk_proto key_l, rr_flag = 0\<rparr>))"

text \<open>The results of the following functions: the return code, the handle and the existing description.\<close>

definition dpi_range_rule_add ::
  "dpi_policy_hdl \<Rightarrow> dpi_rule_key \<Rightarrow> dpi_rule_key \<Rightarrow> rule_dir \<Rightarrow> dpi_policy_desc \<Rightarrow> dpi_policy_desc
    \<Rightarrow> int \<times> dpi_policy_hdl \<times> dpi_policy_desc" where
  "dpi_range_rule_add hdl key_l key_h dir desc exist_desc = (case get_range_key key_l key_h dir of
      None \<Rightarrow> (- 1, hdl, exist_desc)
    | Some key \<Rightarrow>
        let items = (case gget (ph_range_policy_map hdl) key of Some l \<Rightarrow> l | None \<Rightarrow> []);
            put = (\<lambda>l. hdl\<lparr>ph_range_policy_map := gput key l (ph_range_policy_map hdl)\<rparr>) in
        (case find (\<lambda>p. ri_key_l p = key_l \<and> ri_key_h p = key_h) items of
          Some p \<Rightarrow> (0, put items, ri_desc p)
        | None \<Rightarrow> (1, put (items @ [\<lparr>ri_desc = desc, ri_key_l = key_l, ri_key_h = key_h\<rparr>]), exist_desc)))"

definition dpi_rule_add_one ::
  "(dpi_policy_desc list \<Rightarrow> dpi_policy_desc option) \<Rightarrow> dp_env \<Rightarrow> dpi_fqdn_hdl \<Rightarrow> dpi_policy_hdl
    \<Rightarrow> dpi_rule_key \<Rightarrow> dpi_rule_key option \<Rightarrow> rule_dir \<Rightarrow> dpi_policy_desc \<Rightarrow> dpi_policy_desc
    \<Rightarrow> int \<times> dpi_policy_hdl \<times> dpi_policy_desc" where
  "dpi_rule_add_one pick e fh hdl key_l key_h dir desc exist_desc = (case key_h of
      None \<Rightarrow>
        let exist_desc = dpi_policy_lookup_by_key pick e fh (Some hdl) key_l (dir = DIR_INGRESS) exist_desc None in
        if pd_id exist_desc \<noteq> 0 then (0, hdl, exist_desc)
        else (1, hdl\<lparr>ph_policy_map := ph_policy_map hdl @ [(key_l, desc)]\<rparr>, exist_desc)
    | Some kh \<Rightarrow> dpi_range_rule_add hdl key_l kh dir desc exist_desc)"

text \<open>\<open>dpi_add_app_rule\<close> also writes the application into the caller's keys.\<close>

definition app_keys :: "dpi_rule_key \<Rightarrow> dpi_rule_key option \<Rightarrow> u32 \<Rightarrow> dpi_rule_key \<times> dpi_rule_key option" where
  "app_keys key_l key_h app = (key_l\<lparr>rk_app := app\<rparr>,
    map_option (\<lambda>k. k\<lparr>rk_app := (if app \<noteq> 0 then app else 0xffffffff)\<rparr>) key_h)"

definition dpi_add_app_rule ::
  "(dpi_policy_desc list \<Rightarrow> dpi_policy_desc option) \<Rightarrow> dp_env \<Rightarrow> dpi_fqdn_hdl \<Rightarrow> dpi_policy_hdl
    \<Rightarrow> dpi_rule_key \<Rightarrow> dpi_rule_key option \<Rightarrow> dpi_policy_app_rule \<Rightarrow> rule_dir \<Rightarrow> dpi_policy_desc \<Rightarrow> dpi_policy_desc
    \<Rightarrow> int \<times> dpi_policy_hdl \<times> dpi_policy_desc" where
  "dpi_add_app_rule pick e fh hdl key_l0 key_h0 app_rule dir desc exist_desc = (
    let (key_l, key_h) = app_keys key_l0 key_h0 (ar_app app_rule);
        high = (case key_h of Some k \<Rightarrow> Some k
          | None \<Rightarrow> if ar_app app_rule \<noteq> 0 then None else Some (key_l\<lparr>rk_app := 0xffffffff\<rparr>));
        app_desc = \<lparr>pd_id = ar_rule_id app_rule, pd_action = ar_action app_rule, pd_flags = pd_flags desc,
          pd_hdl_ver = 0, pd_order = pd_order desc\<rparr> in
    dpi_rule_add_one pick e fh hdl key_l high dir app_desc exist_desc)"

fun app_rules_loop ::
  "(dpi_policy_desc list \<Rightarrow> dpi_policy_desc option) \<Rightarrow> dp_env \<Rightarrow> dpi_fqdn_hdl \<Rightarrow> dpi_policy_hdl
    \<Rightarrow> dpi_rule_key \<Rightarrow> dpi_rule_key option \<Rightarrow> dpi_policy_app_rule list \<Rightarrow> rule_dir \<Rightarrow> dpi_policy_desc \<Rightarrow> dpi_policy_desc
    \<Rightarrow> int \<Rightarrow> int \<times> dpi_policy_hdl" where
  "app_rules_loop pick e fh hdl key_l key_h [] dir desc exist_desc ret = (ret, hdl)"
| "app_rules_loop pick e fh hdl key_l key_h (a # as) dir desc exist_desc ret = (
    case dpi_add_app_rule pick e fh hdl key_l key_h a dir desc exist_desc of (r, hdl, exist_desc) \<Rightarrow>
    case app_keys key_l key_h (ar_app a) of (key_l, key_h) \<Rightarrow>
      app_rules_loop pick e fh hdl key_l key_h as dir desc exist_desc (if r = 1 then ret + 1 else ret))"

text \<open>The result of \<open>dpi_rule_add\<close>: the return code, the handle, and the keys as the caller finds them.\<close>

definition dpi_rule_add ::
  "(dpi_policy_desc list \<Rightarrow> dpi_policy_desc option) \<Rightarrow> dp_env \<Rightarrow> dpi_fqdn_hdl \<Rightarrow> dpi_policy_hdl
    \<Rightarrow> dpi_rule_key \<Rightarrow> dpi_rule_key option \<Rightarrow> dpi_policy_app_rule list \<Rightarrow> rule_dir \<Rightarrow> dpi_policy_desc
    \<Rightarrow> int \<times> dpi_policy_hdl \<times> dpi_rule_key \<times> dpi_rule_key option" where
  "dpi_rule_add pick e fh hdl key_l key_h app_rules dir desc = (
    case dpi_rule_add_one pick e fh hdl key_l key_h dir desc desc0 of (ret, hdl, exist_desc) \<Rightarrow>
    if ret < 0 then (ret, hdl, key_l, key_h)
    else if ret = 0 \<and> pd_id exist_desc > 0 \<and> pd_action exist_desc \<noteq> DP_POLICY_ACTION_CHECK_APP then (ret, hdl, key_l, key_h)
    else
      let install = (if ret = 0 \<and> pd_id exist_desc > 0 then pd_action desc \<noteq> DP_POLICY_ACTION_CHECK_APP
            else ret > 0 \<and> pd_id desc > 0 \<and> pd_action desc \<noteq> DP_POLICY_ACTION_CHECK_APP);
          any_rule = \<lparr>ar_rule_id = pd_id desc, ar_app = 0, ar_action = pd_action desc\<rparr>;
          (ret, hdl, exist_desc) = (if install then dpi_add_app_rule pick e fh hdl key_l key_h any_rule dir desc exist_desc
            else (ret, hdl, exist_desc));
          (key_l, key_h) = (if install then app_keys key_l key_h 0 else (key_l, key_h)) in
      if app_rules = [] then (ret, hdl, key_l, key_h)
      else
        (case app_rules_loop pick e fh hdl key_l key_h app_rules dir desc exist_desc ret of (ret, hdl) \<Rightarrow>
          (ret, hdl, key_l\<lparr>rk_app := 0\<rparr>, map_option (\<lambda>k. k\<lparr>rk_app := 0\<rparr>) key_h)))"

definition dpi_add_default_policy ::
  "(dpi_policy_desc list \<Rightarrow> dpi_policy_desc option) \<Rightarrow> dp_env \<Rightarrow> dpi_fqdn_hdl \<Rightarrow> dpi_policy_hdl \<Rightarrow> dpi_policy_hdl" where
  "dpi_add_default_policy pick e fh hdl = (
    let key_l = \<lparr>rk_sip = 0, rk_dip = 0, rk_dport = 0, rk_proto = DP_IPPROTO_ICMP, rk_app = 0\<rparr>;
        key_h = \<lparr>rk_sip = 0xffffffff, rk_dip = 0xffffffff, rk_dport = 0, rk_proto = DP_IPPROTO_ICMP, rk_app = 0\<rparr>;
        desc = \<lparr>pd_id = 0, pd_action = DP_POLICY_ACTION_ALLOW, pd_flags = 0, pd_hdl_ver = 0, pd_order = 0xffffffff\<rparr> in
    fst (snd (dpi_rule_add pick e fh hdl key_l (Some key_h) [] DIR_NONE desc)))"

section \<open>A policy message\<close>

record dpi_policy_rule =
  dr_id :: u32
  dr_sip :: u32
  dr_sip_r :: u32
  dr_dip :: u32
  dr_dip_r :: u32
  dr_dport :: u16
  dr_dport_r :: u16
  dr_proto :: u16
  dr_action :: u8
  dr_ingress :: bool
  dr_vh :: bool
  dr_fqdn :: string
  dr_app_rules :: "dpi_policy_app_rule list"

record dpi_policy =
  dl_macs :: "u64 list"
  dl_def_action :: int
  dl_apply_dir :: int
  dl_rules :: "dpi_policy_rule list"

text \<open>The protocols a rule is compiled for: its own, or all of them when it has none.\<close>

definition rule_protos :: "dp_env \<Rightarrow> u16 \<Rightarrow> u16 list" where
  "rule_protos e proto = (if proto > 0 then [proto]
    else [DP_IPPROTO_TCP, DP_IPPROTO_UDP] @ (if enable_icmp_policy e then [DP_IPPROTO_ICMP] else []))"

fun add_protos ::
  "(dpi_policy_desc list \<Rightarrow> dpi_policy_desc option) \<Rightarrow> dp_env \<Rightarrow> dpi_fqdn_hdl \<Rightarrow> dpi_policy_hdl
    \<Rightarrow> dpi_rule_key \<Rightarrow> dpi_rule_key option \<Rightarrow> dpi_policy_app_rule list \<Rightarrow> rule_dir \<Rightarrow> dpi_policy_desc \<Rightarrow> u16 list
    \<Rightarrow> dpi_policy_hdl" where
  "add_protos pick e fh hdl key key_r apps dir desc [] = hdl"
| "add_protos pick e fh hdl key key_r apps dir desc (proto # ps) = (
    case dpi_rule_add pick e fh hdl (key\<lparr>rk_proto := proto\<rparr>) (map_option (\<lambda>k. k\<lparr>rk_proto := proto\<rparr>) key_r) apps dir desc of
      (ret, hdl, key, key_r) \<Rightarrow> add_protos pick e fh hdl key key_r apps dir desc ps)"

text \<open>The addresses of a rule on a name are replaced by the code of the name; None stands for \<open>continue\<close>.\<close>

definition rule_fqdn :: "dpi_policy_rule \<Rightarrow> dpi_fqdn_hdl \<Rightarrow> (dpi_policy_rule option \<times> dpi_fqdn_hdl) option" where
  "rule_fqdn r fh = (
    if dr_fqdn r = [] then Some (Some r, fh)
    else map_option
      (\<lambda>(code, fh).
        (if code = - 1 then None
         else Some (if dr_ingress r then r\<lparr>dr_sip := code, dr_sip_r := code\<rparr> else r\<lparr>dr_dip := code, dr_dip_r := code\<rparr>), fh))
      (config_fqdn_ipv4_mapping (dr_fqdn r) (if dr_ingress r then dr_sip r else dr_dip r) (dr_vh r) fh))"

definition cfg_rule ::
  "(dpi_policy_desc list \<Rightarrow> dpi_policy_desc option) \<Rightarrow> dp_env \<Rightarrow> dpi_fqdn_hdl \<Rightarrow> dpi_policy_hdl \<Rightarrow> u32 \<Rightarrow> dpi_policy_rule
    \<Rightarrow> dpi_policy_hdl" where
  "cfg_rule pick e fh hdl order r = (
    let key = \<lparr>rk_sip = dr_sip r, rk_dip = dr_dip r, rk_dport = dr_dport r, rk_proto = dr_proto r, rk_app = 0\<rparr>;
        desc = \<lparr>pd_id = dr_id r, pd_action = dr_action r, pd_flags = POLICY_DESC_CHECK_VER, pd_hdl_ver = 0, pd_order = order\<rparr>;
        dir = (if dr_ingress r then DIR_INGRESS else DIR_EGRESS);
        key_r = (if dr_dport r \<noteq> dr_dport_r r \<or> dr_sip r \<noteq> dr_sip_r r \<or> dr_dip r \<noteq> dr_dip_r r
          then Some (key\<lparr>rk_dport := dr_dport_r r, rk_sip := dr_sip_r r, rk_dip := dr_dip_r r\<rparr>) else None) in
    add_protos pick e fh hdl key key_r (dr_app_rules r) dir desc (rule_protos e (dr_proto r)))"

fun cfg_rule_list ::
  "(dpi_policy_desc list \<Rightarrow> dpi_policy_desc option) \<Rightarrow> dp_env \<Rightarrow> dpi_fqdn_hdl \<Rightarrow> dpi_policy_hdl \<Rightarrow> u32 \<Rightarrow> dpi_policy_rule list
    \<Rightarrow> (dpi_fqdn_hdl \<times> dpi_policy_hdl \<times> u32) option" where
  "cfg_rule_list pick e fh hdl order [] = Some (fh, hdl, order)"
| "cfg_rule_list pick e fh hdl order (r # rs) = (case rule_fqdn r fh of
      None \<Rightarrow> None
    | Some (None, fh) \<Rightarrow> cfg_rule_list pick e fh hdl order rs
    | Some (Some r', fh) \<Rightarrow>
        let hdl = (if dr_fqdn r \<noteq> [] then hdl\<lparr>ph_flag := ph_flag hdl OR POLICY_HDL_FLAG_FQDN\<rparr> else hdl) in
        cfg_rule_list pick e fh (cfg_rule pick e fh hdl (order + 1) r') (order + 1) rs)"

section \<open>Installing a policy\<close>

text \<open>
  Handles are names of live allocations.  The two static variables of \<open>dpi_policy_cfg\<close> are \<open>po_hdl\<close> and
  \<open>po_order\<close>; \<open>po_eps\<close> is the table of endpoints by MAC address, each with its handle and the version of it.
  Using a handle that is not live has no result.
\<close>

record policy_ctl =
  po_heap :: "(nat, dpi_policy_hdl) gomap"
  po_next :: nat
  po_hdl :: "nat option"
  po_order :: u32
  po_ver :: u16
  po_fqdn :: dpi_fqdn_hdl
  po_eps :: "(u64, nat option \<times> u16) gomap"

definition GET_NEW_POLICY_VER :: "policy_ctl \<Rightarrow> u16 \<times> policy_ctl" where
  "GET_NEW_POLICY_VER s = (
    let v = po_ver s + 1; v = (if v \<noteq> 0 then v else v + 1) in (v, s\<lparr>po_ver := v\<rparr>))"

definition dpi_policy_hdl_destroy :: "nat \<Rightarrow> policy_ctl \<Rightarrow> policy_ctl option" where
  "dpi_policy_hdl_destroy n s = (case gget (po_heap s) n of
      None \<Rightarrow> None
    | Some h \<Rightarrow>
        if ph_ref_cnt h > 1 then Some (s\<lparr>po_heap := gput n (h\<lparr>ph_ref_cnt := ph_ref_cnt h - 1\<rparr>) (po_heap s)\<rparr>)
        else Some (s\<lparr>po_heap := gdel n (po_heap s)\<rparr>))"

definition dpi_policy_update :: "u64 \<Rightarrow> nat option \<Rightarrow> policy_ctl \<Rightarrow> (int \<times> policy_ctl) option" where
  "dpi_policy_update mac hdl s = (case gget (po_eps s) mac of
      None \<Rightarrow> Some (- 1, s)
    | Some (old, old_ver) \<Rightarrow>
        let s' = (case hdl of
            None \<Rightarrow> Some (0, s)
          | Some n \<Rightarrow> (case gget (po_heap s) n of
                None \<Rightarrow> None
              | Some h \<Rightarrow> Some (ph_ver h, s\<lparr>po_heap := gput n (h\<lparr>ph_ref_cnt := ph_ref_cnt h + 1\<rparr>) (po_heap s)\<rparr>))) in
        (case s' of
          None \<Rightarrow> None
        | Some (ver, s) \<Rightarrow>
            let s = s\<lparr>po_eps := gput mac (hdl, ver) (po_eps s)\<rparr> in
            map_option (Pair 0) (case old of None \<Rightarrow> Some s | Some o' \<Rightarrow> dpi_policy_hdl_destroy o' s)))"

fun update_macs :: "u64 list \<Rightarrow> nat option \<Rightarrow> policy_ctl \<Rightarrow> policy_ctl option" where
  "update_macs [] hdl s = Some s"
| "update_macs (m # ms) hdl s = (case dpi_policy_update m hdl s of None \<Rightarrow> None | Some (r, s) \<Rightarrow> update_macs ms hdl s)"

definition CFG_DELETE :: int where "CFG_DELETE = 3"

text \<open>The three parts of \<open>dpi_policy_cfg\<close>: the start of a message sequence, its rules, and its end.\<close>

definition cfg_start :: "dpi_policy \<Rightarrow> policy_ctl \<Rightarrow> policy_ctl" where
  "cfg_start p s = (
    let n = po_next s; (v, s) = GET_NEW_POLICY_VER s in
    s\<lparr>po_heap := gput n ((dpi_policy_hdl_init (dl_def_action p))\<lparr>ph_apply_dir := dl_apply_dir p, ph_ver := v\<rparr>) (po_heap s),
      po_next := Suc n, po_hdl := Some n, po_order := 0\<rparr>)"

text \<open>The default policy that lets ICMP pass closes the last message when ICMP is not policed.\<close>

definition finish_rules ::
  "(dpi_policy_desc list \<Rightarrow> dpi_policy_desc option) \<Rightarrow> dp_env \<Rightarrow> u32 \<Rightarrow> dpi_fqdn_hdl \<Rightarrow> dpi_policy_hdl \<Rightarrow> dpi_policy_hdl" where
  "finish_rules pick e flag fh h =
    (if flag AND MSG_END \<noteq> 0 \<and> \<not> enable_icmp_policy e then dpi_add_default_policy pick e fh h else h)"

definition cfg_rules ::
  "(dpi_policy_desc list \<Rightarrow> dpi_policy_desc option) \<Rightarrow> dp_env \<Rightarrow> dpi_policy \<Rightarrow> u32 \<Rightarrow> nat \<Rightarrow> policy_ctl \<Rightarrow> policy_ctl option" where
  "cfg_rules pick e p flag n s = (case gget (po_heap s) n of
      None \<Rightarrow> None
    | Some h \<Rightarrow> map_option
        (\<lambda>(fh, h, order).
          s\<lparr>po_heap := gput n (finish_rules pick e flag fh h) (po_heap s), po_fqdn := fh, po_order := order\<rparr>)
        (cfg_rule_list pick e (po_fqdn s) h (po_order s) (dl_rules p)))"

definition cfg_end :: "dpi_policy \<Rightarrow> policy_ctl \<Rightarrow> policy_ctl option" where
  "cfg_end p s = (case update_macs (dl_macs p) (po_hdl s) s of
      None \<Rightarrow> None
    | Some s \<Rightarrow>
        map_option (\<lambda>s. s\<lparr>po_hdl := None\<rparr>)
          (case po_hdl s of
            None \<Rightarrow> Some s
          | Some n \<Rightarrow> (case gget (po_heap s) n of
                None \<Rightarrow> None
              | Some h \<Rightarrow> if ph_ref_cnt h = 0 then dpi_policy_hdl_destroy n s else Some s)))"

definition dpi_policy_cfg ::
  "(dpi_policy_desc list \<Rightarrow> dpi_policy_desc option) \<Rightarrow> dp_env \<Rightarrow> int \<Rightarrow> dpi_policy \<Rightarrow> u32 \<Rightarrow> policy_ctl
    \<Rightarrow> (int \<times> policy_ctl) option" where
  "dpi_policy_cfg pick e cmd p flag s = (
    let start = (flag AND MSG_START \<noteq> 0);
        drop_hdl = (\<lambda>s. case po_hdl s of None \<Rightarrow> Some s
          | Some n \<Rightarrow> map_option (\<lambda>s. s\<lparr>po_hdl := None\<rparr>) (dpi_policy_hdl_destroy n s));
        body = (\<lambda>s. if cmd \<noteq> CFG_DELETE then
            let s = (if start then cfg_start p s else s) in
            (case po_hdl s of None \<Rightarrow> None | Some n \<Rightarrow> cfg_rules pick e p flag n s)
          else if po_hdl s \<noteq> None then map_option (\<lambda>s. s\<lparr>po_order := 0\<rparr>) (drop_hdl s) else Some s);
        finish = (\<lambda>s. if flag AND MSG_END = 0 then Some (0, s) else map_option (Pair 0) (cfg_end p s)) in
    if start then Option.bind (Option.bind (drop_hdl s) body) finish
    else if po_hdl s = None then Some (- 1, s)
    else Option.bind (body s) finish)"

definition dp_policy_destroy :: "nat option \<Rightarrow> policy_ctl \<Rightarrow> policy_ctl option" where
  "dp_policy_destroy hdl s = (case hdl of None \<Rightarrow> Some s | Some n \<Rightarrow> dpi_policy_hdl_destroy n s)"

text \<open>
  The handles of endpoints in \<open>dp_ctrl_add_mac\<close> and \<open>dp_ctrl_del_mac\<close>: an endpoint that replaces another one takes its
  handle over.  A second entry under a MAC address that is in the table has no result here, since the lookups
  of the hash table leave open which of the two they return.
\<close>

definition add_mac :: "u64 \<Rightarrow> u64 option \<Rightarrow> policy_ctl \<Rightarrow> policy_ctl option" where
  "add_mac mac oldmac s = (
    let old = (case oldmac of Some m \<Rightarrow> m | None \<Rightarrow> mac) in
    case gget (po_eps s) old of
      Some v \<Rightarrow> if gget (gdel old (po_eps s)) mac \<noteq> None then None
        else Some (s\<lparr>po_eps := gput mac v (gdel old (po_eps s))\<rparr>)
    | None \<Rightarrow> if gget (po_eps s) mac \<noteq> None then None else Some (s\<lparr>po_eps := gput mac (None, 0) (po_eps s)\<rparr>))"

definition del_mac :: "u64 \<Rightarrow> policy_ctl \<Rightarrow> (int \<times> policy_ctl) option" where
  "del_mac mac s = (case gget (po_eps s) mac of
      None \<Rightarrow> Some (- 1, s)
    | Some (hdl, ver) \<Rightarrow> map_option (Pair 0) (dp_policy_destroy hdl (s\<lparr>po_eps := gdel mac (po_eps s)\<rparr>)))"

end
