(* ===== verification/DpPolicyMatch.thy ===== *)
theory DpPolicyMatch
  imports DpPolicyCfg
begin

text \<open>
  What the compiled tables mean: a lookup returns the first clause of the rule list that matches, although the
  code searches an exact table before the range lists, refuses some clauses when it compiles and looks up a
  second key for external peers.

  A clause is a pair of keys, the low and the high end of a box, with a description.  A rule has a clause for
  the unidentified application, one for every application unless it asks for the application, and one
  for each of its application rules.
\<close>

unbundle bit_operations_syntax

section \<open>The order of clauses\<close>

type_synonym clause = "dpi_rule_key \<times> dpi_rule_key \<times> dpi_policy_desc"

text \<open>The description of liburcu: a lookup finds an entry with the key if there is one.\<close>

definition picks :: "(dpi_policy_desc list \<Rightarrow> dpi_policy_desc option) \<Rightarrow> bool" where
  "picks pick \<longleftrightarrow> (\<forall>l. (pick l = None \<longleftrightarrow> l = []) \<and> (\<forall>d. pick l = Some d \<longrightarrow> d \<in> set l))"

definition range_key :: "bool \<Rightarrow> dpi_rule_key \<Rightarrow> dpi_range_rule_key" where
  "range_key ing k = (if ing then \<lparr>rr_ip = rk_dip k, rr_proto = rk_proto k, rr_flag = DP_RANGE_RULE_INGRESS\<rparr>
    else \<lparr>rr_ip = rk_sip k, rr_proto = rk_proto k, rr_flag = DP_RANGE_RULE_EGRESS\<rparr>)"

definition in_box :: "dpi_rule_key \<Rightarrow> dpi_rule_key \<Rightarrow> dpi_rule_key \<Rightarrow> bool" where
  "in_box l u k \<longleftrightarrow> rk_dport l \<le> rk_dport k \<and> rk_dport k \<le> rk_dport u \<and>
    ntohl (rk_sip l) \<le> ntohl (rk_sip k) \<and> ntohl (rk_sip k) \<le> ntohl (rk_sip u) \<and>
    ntohl (rk_dip l) \<le> ntohl (rk_dip k) \<and> ntohl (rk_dip k) \<le> ntohl (rk_dip u) \<and>
    rk_app l \<le> rk_app k \<and> rk_app k \<le> rk_app u"

definition hits :: "bool \<Rightarrow> dpi_rule_key \<Rightarrow> dpi_rule_key \<Rightarrow> dpi_rule_key \<Rightarrow> bool" where
  "hits ing l u k \<longleftrightarrow> range_key ing l = range_key ing k \<and> in_box l u k"

definition peer :: "bool \<Rightarrow> dpi_rule_key \<Rightarrow> u32" where
  "peer ing k = (if ing then rk_sip k else rk_dip k)"

definition peer0 :: "bool \<Rightarrow> dpi_rule_key \<Rightarrow> dpi_rule_key" where
  "peer0 ing k = (if ing then k\<lparr>rk_sip := 0\<rparr> else k\<lparr>rk_dip := 0\<rparr>)"

text \<open>An external peer also matches as the address 0.\<close>

definition external :: "dp_env \<Rightarrow> bool \<Rightarrow> dpi_rule_key \<Rightarrow> bool" where
  "external e ing k \<longleftrightarrow> \<not> dpi_is_ip4_internal e (peer ing k)"

definition chits :: "dp_env \<Rightarrow> bool \<Rightarrow> dpi_rule_key \<Rightarrow> dpi_rule_key \<Rightarrow> dpi_rule_key \<Rightarrow> bool" where
  "chits e ing l u k \<longleftrightarrow> hits ing l u k \<or> external e ing k \<and> hits ing l u (peer0 ing k)"

definition first_of :: "dp_env \<Rightarrow> bool \<Rightarrow> clause list \<Rightarrow> dpi_rule_key \<Rightarrow> dpi_policy_desc option" where
  "first_of e ing cs k = map_option (\<lambda>(l, u, d). d) (find (\<lambda>(l, u, d). chits e ing l u k) cs)"

definition app_clause :: "dpi_rule_key \<Rightarrow> dpi_rule_key \<Rightarrow> dpi_policy_desc \<Rightarrow> dpi_policy_app_rule \<Rightarrow> clause" where
  "app_clause l u d a = (l\<lparr>rk_app := ar_app a\<rparr>, u\<lparr>rk_app := (if ar_app a \<noteq> 0 then ar_app a else 0xffffffff)\<rparr>,
    d\<lparr>pd_id := ar_rule_id a, pd_action := ar_action a\<rparr>)"

definition leg_clauses :: "dpi_rule_key \<Rightarrow> dpi_rule_key \<Rightarrow> dpi_policy_desc \<Rightarrow> dpi_policy_app_rule list \<Rightarrow> clause list" where
  "leg_clauses l u d apps = (l, u, d) #
    (if pd_action d \<noteq> DP_POLICY_ACTION_CHECK_APP then [(l, u\<lparr>rk_app := 0xffffffff\<rparr>, d)] else []) @ map (app_clause l u d) apps"

definition rule_clauses :: "dp_env \<Rightarrow> u32 \<Rightarrow> dpi_policy_rule \<Rightarrow> clause list" where
  "rule_clauses e order r = concat (map (\<lambda>proto.
    leg_clauses
      \<lparr>rk_sip = dr_sip r, rk_dip = dr_dip r, rk_dport = dr_dport r, rk_proto = proto, rk_app = 0\<rparr>
      \<lparr>rk_sip = dr_sip_r r, rk_dip = dr_dip_r r, rk_dport = dr_dport_r r, rk_proto = proto, rk_app = 0\<rparr>
      \<lparr>pd_id = dr_id r, pd_action = dr_action r, pd_flags = POLICY_DESC_CHECK_VER, pd_hdl_ver = 0, pd_order = order\<rparr>
      (dr_app_rules r)) (rule_protos e (dr_proto r)))"

fun policy_clauses :: "dp_env \<Rightarrow> bool \<Rightarrow> u32 \<Rightarrow> dpi_policy_rule list \<Rightarrow> clause list" where
  "policy_clauses e ing order [] = []"
| "policy_clauses e ing order (r # rs) =
    (if dr_ingress r = ing then rule_clauses e (order + 1) r else []) @ policy_clauses e ing (order + 1) rs"

section \<open>Lookups that reach the tables\<close>

text \<open>The conditions under which no shortcut is taken for a packet without namespace enforcement.\<close>

definition to_tables :: "dp_env \<Rightarrow> dpi_fqdn_hdl \<Rightarrow> int \<Rightarrow> int \<Rightarrow> bool \<Rightarrow> dpi_rule_key \<Rightarrow> bool" where
  "to_tables e fh dir def_action ing k \<longleftrightarrow>
    \<not> disable_net_policy e \<and> \<not> IS_IN_LINKLOCAL (ntohl (rk_sip k)) \<and> \<not> IS_IN_LINKLOCAL (ntohl (rk_dip k)) \<and>
    (let check_sgm = (strict_group_mode e \<and> def_action = uint DP_POLICY_ACTION_DENY);
         is_internal = dpi_is_ip4_internal e (peer ing k); iptype = dpi_ip4_iptype e (peer ing k) in
     \<not> (iptype = DP_IPTYPE_UWLIP \<and> \<not> detect_unmanaged_wl e) \<and>
     (if ing then \<not> (is_internal \<and> dir AND DP_POLICY_APPLY_INGRESS = 0 \<and> iptype \<noteq> DP_IPTYPE_UWLIP \<and> \<not> check_sgm)
      else \<not> (is_internal \<and> \<not> dpi_is_ip4_internal e (rk_sip k) \<and> dir AND DP_POLICY_APPLY_EGRESS \<noteq> 0) \<and>
        \<not> (\<not> is_internal \<and> iptype = DP_IPTYPE_EXTIP) \<and>
        \<not> (is_internal \<and> dir AND DP_POLICY_APPLY_EGRESS = 0 \<and> gget (fq_ipv4 fh) (rk_dip k) = None \<and>
           iptype \<noteq> DP_IPTYPE_HOSTIP \<and> iptype \<noteq> DP_IPTYPE_UWLIP \<and> \<not> check_sgm)))"

text \<open>
  The keys a theorem is about: the direction is the one of the workload \<open>wl\<close>, and the lookups of the packet, and of
  its second key, reach the tables.
\<close>

definition governed :: "dp_env \<Rightarrow> dpi_fqdn_hdl \<Rightarrow> int \<Rightarrow> int \<Rightarrow> u32 \<Rightarrow> bool \<Rightarrow> dpi_rule_key \<Rightarrow> bool" where
  "governed e fh dir def_action wl ing k \<longleftrightarrow> (ing \<longleftrightarrow> rk_sip k \<noteq> wl) \<and> to_tables e fh dir def_action ing k \<and>
    (external e ing k \<longrightarrow> (ing \<longleftrightarrow> rk_sip (peer0 ing k) \<noteq> wl) \<and> to_tables e fh dir def_action ing (peer0 ing k))"

text \<open>The two stages of a lookup, and the merge of the two keys.\<close>

definition lk :: "(dpi_policy_desc list \<Rightarrow> dpi_policy_desc option) \<Rightarrow> dpi_policy_hdl \<Rightarrow> bool \<Rightarrow> dpi_rule_key \<Rightarrow> dpi_policy_desc option" where
  "lk pick h ing k = (case policy_map_lookup pick h k of Some d \<Rightarrow> Some d
    | None \<Rightarrow> (case gget (ph_range_policy_map h) (range_key ing k) of None \<Rightarrow> None
        | Some items \<Rightarrow> map_option ri_desc (dpi_range_rule_match items k)))"

definition fallback :: "dpi_policy_hdl \<Rightarrow> dpi_rule_key \<Rightarrow> dpi_policy_desc" where
  "fallback h k = (case Option.bind (gget (ph_range_policy_map h) \<lparr>rr_ip = 0, rr_proto = rk_proto k, rr_flag = 0\<rparr>)
        (\<lambda>items. dpi_range_rule_match items k) of
      Some item \<Rightarrow> ri_desc item
    | None \<Rightarrow> \<lparr>pd_id = 0, pd_action = word_of_int (ph_def_action h), pd_flags = POLICY_DESC_CHECK_VER,
        pd_hdl_ver = 0, pd_order = 0xffffffff\<rparr>)"

definition comb :: "(dpi_policy_desc list \<Rightarrow> dpi_policy_desc option) \<Rightarrow> dp_env \<Rightarrow> dpi_policy_hdl \<Rightarrow> bool \<Rightarrow> dpi_rule_key \<Rightarrow> dpi_policy_desc option" where
  "comb pick e h ing k = (if \<not> external e ing k then lk pick h ing k
    else (case lk pick h ing (peer0 ing k) of None \<Rightarrow> lk pick h ing k
      | Some d2 \<Rightarrow> (case lk pick h ing k of None \<Rightarrow> Some d2
          | Some d \<Rightarrow> Some (if pd_order d2 < pd_order d then d2 else d))))"

lemma tables_lookup_lk: "tables_lookup pick h k ing = (case lk pick h ing k of Some d \<Rightarrow> d | None \<Rightarrow> fallback h k)"
  by (simp add: tables_lookup_def lk_def fallback_def range_key_def Let_def split: option.split)

lemma peer0_app [simp]: "rk_app (peer0 ing k) = rk_app k" "rk_proto (peer0 ing k) = rk_proto k"
  by (simp_all add: peer0_def)

text \<open>Such a lookup, for a packet or for the compiler.\<close>

lemma lookup_to_tables:
  assumes "to_tables e fh (ph_apply_dir h) (ph_def_action h) ing k" and "\<not> is_chk_nbe p"
  shows "dpi_policy_lookup_by_key pick e fh (Some h) k ing desc p =
    (enforced_lookup pick fh h k ing (\<not> external e ing k) (Option.bind p pk_session))\<lparr>pd_hdl_ver := ph_ver h\<rparr>"
  using assms
  by (cases ing) (auto simp: to_tables_def dpi_policy_lookup_by_key_def ingress_lookup_def egress_lookup_def
      Let_def external_def peer_def)

section \<open>Installed clauses\<close>

lemma range_key_inject: "range_key ing k = range_key ing' k' \<Longrightarrow> ing = ing'"
  by (auto simp: range_key_def DP_RANGE_RULE_INGRESS_def DP_RANGE_RULE_EGRESS_def split: if_splits)

lemma in_range_box: "rule_key_in_range i k = in_box (ri_key_l i) (ri_key_h i) k"
  by (simp add: rule_key_in_range_def in_box_def)

lemma hits_exact: "hits ing k k k' \<longleftrightarrow> k' = k"
  by (cases k; cases k'; cases ing) (auto simp: hits_def in_box_def range_key_def dest: antisym)

definition items_of :: "dpi_policy_hdl \<Rightarrow> dpi_range_rule_key \<Rightarrow> dpi_range_rule_item list" where
  "items_of h key = (case gget (ph_range_policy_map h) key of Some items \<Rightarrow> items | None \<Rightarrow> [])"

lemma lk_items: "lk pick h ing k = (case policy_map_lookup pick h k of Some d \<Rightarrow> Some d
    | None \<Rightarrow> map_option ri_desc (dpi_range_rule_match (items_of h (range_key ing k)) k))"
  by (simp add: lk_def items_of_def dpi_range_rule_match_def split: option.split)

definition lists_ok :: "dpi_policy_hdl \<Rightarrow> bool" where
  "lists_ok h \<longleftrightarrow> (\<forall>ing k. \<forall>i\<in>set (items_of h (range_key ing k)). range_key ing (ri_key_l i) = range_key ing k)"

definition clauses :: "u32 \<Rightarrow> dpi_policy_hdl \<Rightarrow> bool \<Rightarrow> clause set" where
  "clauses wl h ing = {(k, k, d) |k d. (k, d) \<in> set (ph_policy_map h) \<and> (ing \<longleftrightarrow> rk_sip k \<noteq> wl)} \<union>
    {(l, u, d). \<lparr>ri_desc = d, ri_key_l = l, ri_key_h = u\<rparr> \<in> set (items_of h (range_key ing l))}"

lemma mem_clauses: "(l, u, d) \<in> clauses wl h ing \<longleftrightarrow>
    u = l \<and> (l, d) \<in> set (ph_policy_map h) \<and> (ing \<longleftrightarrow> rk_sip l \<noteq> wl) \<or>
    \<lparr>ri_desc = d, ri_key_l = l, ri_key_h = u\<rparr> \<in> set (items_of h (range_key ing l))"
  by (auto simp: clauses_def)

lemma item_eta [simp]: "\<lparr>ri_desc = ri_desc i, ri_key_l = ri_key_l i, ri_key_h = ri_key_h i\<rparr> = i"
  by simp

lemma lk_None:
  assumes "picks pick" and "lists_ok h" and "ing \<longleftrightarrow> rk_sip k \<noteq> wl"
  shows "lk pick h ing k = None \<longleftrightarrow> (\<forall>l u d. (l, u, d) \<in> clauses wl h ing \<longrightarrow> \<not> hits ing l u k)"
proof -
  have exact: "policy_map_lookup pick h k = None \<longleftrightarrow> (\<forall>d. (k, d) \<notin> set (ph_policy_map h))"
    using assms(1) by (auto simp: policy_map_lookup_def picks_def filter_empty_conv)
  have range: "dpi_range_rule_match (items_of h (range_key ing k)) k = None \<longleftrightarrow>
    (\<forall>l u d. \<lparr>ri_desc = d, ri_key_l = l, ri_key_h = u\<rparr> \<in> set (items_of h (range_key ing l)) \<longrightarrow> \<not> hits ing l u k)"
    (is "?L = ?R")
  proof
    assume ?L
    then show ?R
      by (auto simp: dpi_range_rule_match_def find_None_iff hits_def in_range_box)
  next
    assume r: ?R
    have "\<not> rule_key_in_range i k" if i: "i \<in> set (items_of h (range_key ing k))" for i
    proof -
      have "range_key ing (ri_key_l i) = range_key ing k"
        using assms(2) i unfolding lists_ok_def by blast
      then show ?thesis
        using r[rule_format, of "ri_desc i" "ri_key_l i" "ri_key_h i"] i
        by (simp add: hits_def in_range_box)
    qed
    then show ?L
      by (simp add: dpi_range_rule_match_def find_None_iff)
  qed
  have "lk pick h ing k = None \<longleftrightarrow> policy_map_lookup pick h k = None \<and> dpi_range_rule_match (items_of h (range_key ing k)) k = None"
    by (simp add: lk_items split: option.split)
  then show ?thesis
    unfolding exact range mem_clauses using assms(3) by (auto simp: hits_exact)
qed

lemma lk_Some:
  assumes "picks pick" and "lists_ok h" and "ing \<longleftrightarrow> rk_sip k \<noteq> wl" and "lk pick h ing k = Some d"
  shows "\<exists>l u. (l, u, d) \<in> clauses wl h ing \<and> hits ing l u k"
proof (cases "policy_map_lookup pick h k")
  case None
  then obtain i where i: "i \<in> set (items_of h (range_key ing k))" "d = ri_desc i" "rule_key_in_range i k"
    using assms(4) by (auto simp: lk_items dpi_range_rule_match_def dest: find_SomeD)
  then have "range_key ing (ri_key_l i) = range_key ing k"
    using assms(2) unfolding lists_ok_def by blast
  with i have "hits ing (ri_key_l i) (ri_key_h i) k" "(ri_key_l i, ri_key_h i, d) \<in> clauses wl h ing"
    by (simp_all add: hits_def in_range_box mem_clauses del: item_eta) (simp add: item_eta)
  then show ?thesis by blast
next
  case (Some d')
  then have "d' \<in> set (map snd (filter (\<lambda>e. fst e = k) (ph_policy_map h)))"
    using assms(1) unfolding picks_def policy_map_lookup_def by blast
  then have "(k, d) \<in> set (ph_policy_map h)"
    using Some assms(4) by (auto simp: lk_def)
  then show ?thesis
    using assms(3) by (intro exI[of _ k]) (auto simp: clauses_def hits_exact)
qed

text \<open>Adding an entry to the exact table.\<close>

definition add_exact :: "dpi_policy_hdl \<Rightarrow> dpi_rule_key \<Rightarrow> dpi_policy_desc \<Rightarrow> dpi_policy_hdl" where
  "add_exact h k d = h\<lparr>ph_policy_map := ph_policy_map h @ [(k, d)]\<rparr>"

lemma exact_simps [simp]:
  "items_of (add_exact h k d) key = items_of h key"
  "policy_map_lookup pick (add_exact h k d) k' = (if k' = k then pick (map snd (filter (\<lambda>e. fst e = k) (ph_policy_map h)) @ [d])
    else policy_map_lookup pick h k')"
  by (simp_all add: items_of_def policy_map_lookup_def add_exact_def)

lemma lk_exact:
  assumes "picks pick" and "lk pick h ing k = None"
  shows "lk pick (add_exact h k d) ing k' = (if k' = k then Some d else lk pick h ing k')"
proof -
  have "policy_map_lookup pick h k = None"
    using assms(2) by (simp add: lk_def split: option.splits)
  then have "filter (\<lambda>e. fst e = k) (ph_policy_map h) = []"
    using assms(1) by (simp add: policy_map_lookup_def picks_def)
  moreover have "pick [d] = Some d"
    using assms(1) unfolding picks_def by (metis list.set_intros(1) list.distinct(1) list.set(1,2) not_None_eq singletonD)
  ultimately show ?thesis
    unfolding lk_items exact_simps by simp
qed

lemma lk_exact_other: "k' \<noteq> k \<Longrightarrow> lk pick (add_exact h k d) ing k' = lk pick h ing k'"
  unfolding lk_items exact_simps by simp

lemma clauses_exact:
  "clauses wl (add_exact h k d) ing = clauses wl h ing \<union> (if ing \<longleftrightarrow> rk_sip k \<noteq> wl then {(k, k, d)} else {})"
  unfolding clauses_def exact_simps by (auto simp: add_exact_def)

text \<open>Adding an item to a range list.\<close>

definition dir_of :: "bool \<Rightarrow> rule_dir" where
  "dir_of ing = (if ing then DIR_INGRESS else DIR_EGRESS)"

definition add_item :: "dpi_policy_hdl \<Rightarrow> bool \<Rightarrow> dpi_rule_key \<Rightarrow> dpi_rule_key \<Rightarrow> dpi_policy_desc \<Rightarrow> dpi_policy_hdl" where
  "add_item h ing l u d = h\<lparr>ph_range_policy_map := gput (range_key ing l)
    (items_of h (range_key ing l) @ [\<lparr>ri_desc = d, ri_key_l = l, ri_key_h = u\<rparr>]) (ph_range_policy_map h)\<rparr>"

lemma item_simps [simp]:
  "items_of (add_item h ing l u d) key =
    items_of h key @ (if key = range_key ing l then [\<lparr>ri_desc = d, ri_key_l = l, ri_key_h = u\<rparr>] else [])"
  "policy_map_lookup pick (add_item h ing l u d) k = policy_map_lookup pick h k"
  by (auto simp: items_of_def policy_map_lookup_def add_item_def)

lemma range_key_eq: "range_key ing k = range_key ing' l \<longleftrightarrow> ing = ing' \<and> range_key ing l = range_key ing k"
  using range_key_inject[of ing k ing' l] by auto

lemma lk_item:
  "lk pick (add_item h ing' l u d) ing k =
    (case lk pick h ing k of Some d' \<Rightarrow> Some d' | None \<Rightarrow> if ing = ing' \<and> hits ing l u k then Some d else None)"
  by (simp add: lk_items dpi_range_rule_match_def find_app hits_def range_key_eq[of ing k] in_range_box split: option.split) auto

lemma clauses_item:
  "clauses wl (add_item h ing' l u d) ing = clauses wl h ing \<union> (if ing = ing' then {(l, u, d)} else {})"
proof -
  have "ph_policy_map (add_item h ing' l u d) = ph_policy_map h"
    by (simp add: add_item_def)
  moreover have "range_key ing k = range_key ing' l \<Longrightarrow> ing = ing'" for k
    by (rule range_key_inject)
  ultimately show ?thesis
    unfolding set_eq_iff split_paired_All Un_iff mem_clauses item_simps by (cases "ing = ing'") auto
qed

section \<open>Lookups over installed clauses\<close>

text \<open>
  What holds between two rules: identifiers are positive, orders are at most that of the current rule, and the clauses of
  the current rule have its box.
\<close>

definition same_box :: "dpi_rule_key \<Rightarrow> dpi_rule_key \<Rightarrow> dpi_rule_key \<Rightarrow> dpi_rule_key \<Rightarrow> bool" where
  "same_box l u l' u' \<longleftrightarrow> rk_sip l' = rk_sip l \<and> rk_dip l' = rk_dip l \<and> rk_dport l' = rk_dport l \<and>
    rk_sip u' = rk_sip u \<and> rk_dip u' = rk_dip u \<and> rk_dport u' = rk_dport u"

definition base_ok :: "u32 \<Rightarrow> u32 \<Rightarrow> dpi_rule_key \<Rightarrow> dpi_rule_key \<Rightarrow> dpi_policy_hdl \<Rightarrow> bool" where
  "base_ok wl order bl bu h \<longleftrightarrow> lists_ok h \<and> (\<forall>ing l u d. (l, u, d) \<in> clauses wl h ing \<longrightarrow>
    pd_id d > 0 \<and> pd_order d \<le> order \<and> (pd_order d = order \<longrightarrow> same_box bl bu l u))"

definition plain :: "dpi_policy_hdl \<Rightarrow> bool" where
  "plain h \<longleftrightarrow> (\<forall>k. pd_id (fallback h k) = 0 \<and> pd_order (fallback h k) = 0xffffffff) \<and> ph_flag h AND POLICY_HDL_FLAG_FQDN = 0"

abbreviation governs :: "dp_env \<Rightarrow> dpi_fqdn_hdl \<Rightarrow> u32 \<Rightarrow> dpi_policy_hdl \<Rightarrow> bool \<Rightarrow> dpi_rule_key \<Rightarrow> bool" where
  "governs e fh wl h ing k \<equiv> governed e fh (ph_apply_dir h) (ph_def_action h) wl ing k"

lemma governs_dir:
  assumes "governed e fh a b wl ing k"
  shows "ing \<longleftrightarrow> rk_sip k \<noteq> wl" "external e ing k \<Longrightarrow> ing \<longleftrightarrow> rk_sip (peer0 ing k) \<noteq> wl"
  using assms by (auto simp: governed_def)

lemma peer0_peer0 [simp]: "peer0 ing (peer0 ing k) = peer0 ing k"
  by (simp add: peer0_def)

lemma governs_peer0: "governed e fh a b wl ing k \<Longrightarrow> external e ing k \<Longrightarrow> governed e fh a b wl ing (peer0 ing k)"
  unfolding governed_def peer0_peer0 by blast

lemma base_lk:
  assumes "picks pick" and "base_ok wl order bl bu h" and "ing \<longleftrightarrow> rk_sip k \<noteq> wl" and "lk pick h ing k = Some d"
  shows "\<exists>l u. (l, u, d) \<in> clauses wl h ing \<and> hits ing l u k \<and> pd_id d > 0 \<and> pd_order d \<le> order \<and> (pd_order d = order \<longrightarrow> same_box bl bu l u)"
  using lk_Some[OF assms(1) _ assms(3,4)] assms(2) unfolding base_ok_def by blast

lemma enforced_lookup_comb:
  assumes "picks pick" and "base_ok wl order bl bu h" and "order < 0xffffffff" and "plain h" and "governs e fh wl h ing k"
  shows "enforced_lookup pick fh h k ing (\<not> external e ing k) s =
    (case comb pick e h ing k of Some d \<Rightarrow> d | None \<Rightarrow> fallback h k)\<lparr>pd_flags :=
      pd_flags (case comb pick e h ing k of Some d \<Rightarrow> d | None \<Rightarrow> fallback h k) OR
        (if external e ing k then POLICY_DESC_EXTERNAL else POLICY_DESC_INTERNAL)\<rparr>"
proof -
  have f: "pd_id (fallback h k) = 0" "pd_order (fallback h k) = 0xffffffff" for k
    using assms(4) by (simp_all add: plain_def)
  have "pd_id d > 0 \<and> pd_order d < 0xffffffff" if "lk pick h ing k' = Some d" "ing \<longleftrightarrow> rk_sip k' \<noteq> wl" for k' d
    using base_lk[OF assms(1,2) that(2,1)] assms(3) by auto
  then have l: "lk pick h ing k = Some d \<Longrightarrow> pd_id d > 0 \<and> pd_order d < 0xffffffff"
    "external e ing k \<Longrightarrow> lk pick h ing (peer0 ing k) = Some d \<Longrightarrow> pd_id d > 0 \<and> pd_order d < 0xffffffff" for d
    using governs_dir[OF assms(5)] by blast+
  have k0: "(if ing then k\<lparr>rk_sip := 0\<rparr> else k\<lparr>rk_dip := 0\<rparr>) = peer0 ing k"
    by (simp add: peer0_def)
  have n: "ph_flag h AND POLICY_HDL_FLAG_FQDN = 0"
    using assms(4) by (simp add: plain_def)
  show ?thesis
  proof (cases "external e ing k")
    case True
    then show ?thesis
      unfolding enforced_lookup_def Let_def k0 tables_lookup_lk comb_def
      using f l(1) l(2)[OF True] by (auto simp: n policy_desc_merge_def split: option.split)
  next
    case False
    then show ?thesis
      unfolding enforced_lookup_def Let_def k0 tables_lookup_lk comb_def by (simp add: n)
  qed
qed

lemma lookup_comb:
  assumes "picks pick" and "base_ok wl order bl bu h" and "order < 0xffffffff" and "plain h" and "governs e fh wl h ing k"
    and "\<not> is_chk_nbe p"
  shows "dpi_policy_lookup_by_key pick e fh (Some h) k ing desc p =
    (let d = (case comb pick e h ing k of Some d \<Rightarrow> d | None \<Rightarrow> fallback h k) in
     d\<lparr>pd_flags := pd_flags d OR (if external e ing k then POLICY_DESC_EXTERNAL else POLICY_DESC_INTERNAL), pd_hdl_ver := ph_ver h\<rparr>)"
proof -
  have t: "to_tables e fh (ph_apply_dir h) (ph_def_action h) ing k"
    using assms(5) unfolding governed_def by blast
  show ?thesis
    unfolding lookup_to_tables[OF t assms(6)] enforced_lookup_comb[OF assms(1-5)] by (simp add: Let_def)
qed

text \<open>The key with an external peer finds at least what the address 0 finds.\<close>

lemma comb_peer0: "external e ing k \<Longrightarrow> comb pick e h ing (peer0 ing k) \<noteq> None \<Longrightarrow> comb pick e h ing k \<noteq> None"
  by (auto simp: comb_def split: option.splits if_splits)

lemma comb_lk: "lk pick h ing k \<noteq> None \<Longrightarrow> comb pick e h ing k \<noteq> None"
  by (auto simp: comb_def split: option.splits)

lemma comb_None: "comb pick e h ing k = None \<longleftrightarrow> lk pick h ing k = None \<and> (external e ing k \<longrightarrow> lk pick h ing (peer0 ing k) = None)"
  by (auto simp: comb_def split: option.splits)

lemma hit_comb:
  assumes "picks pick" and "lists_ok h" and "governs e fh wl h ing k" and "(l, u, d) \<in> clauses wl h ing" and "chits e ing l u k"
  shows "comb pick e h ing k \<noteq> None"
  using assms(4,5) lk_None[OF assms(1,2) governs_dir(1)[OF assms(3)]] lk_None[OF assms(1,2) governs_dir(2)[OF assms(3)]]
  unfolding chits_def comb_None by blast

section \<open>Offering a clause\<close>

text \<open>The effect of a clause on the lookups: it matters only where nothing was found before.\<close>

definition offered :: "(dpi_policy_desc list \<Rightarrow> dpi_policy_desc option) \<Rightarrow> dp_env \<Rightarrow> dpi_fqdn_hdl \<Rightarrow> u32 \<Rightarrow> dpi_policy_hdl \<Rightarrow> dpi_policy_hdl
    \<Rightarrow> bool \<Rightarrow> clause list \<Rightarrow> bool" where
  "offered pick e fh wl h h' ing cs \<longleftrightarrow> (\<forall>ing2 k. governs e fh wl h ing2 k \<longrightarrow>
    comb pick e h' ing2 k = (case comb pick e h ing2 k of Some d \<Rightarrow> Some d
      | None \<Rightarrow> if ing2 = ing then first_of e ing cs k else None))"

lemma first_of_simps [simp]:
  "first_of e ing [] k = None"
  "first_of e ing ((l, u, d) # cs) k = (if chits e ing l u k then Some d else first_of e ing cs k)"
  by (simp_all add: first_of_def)

lemma first_of_append: "first_of e ing (cs @ cs') k = (case first_of e ing cs k of Some d \<Rightarrow> Some d | None \<Rightarrow> first_of e ing cs' k)"
  by (induction cs) auto

lemma first_of_None: "first_of e ing cs k = None \<longleftrightarrow> (\<forall>(l, u, d)\<in>set cs. \<not> chits e ing l u k)"
  by (induction cs) (auto split: if_splits)

definition settings_kept :: "dpi_policy_hdl \<Rightarrow> dpi_policy_hdl \<Rightarrow> bool" where
  "settings_kept h h' \<longleftrightarrow> ph_apply_dir h' = ph_apply_dir h \<and> ph_def_action h' = ph_def_action h \<and> ph_flag h' = ph_flag h \<and>
    ph_ver h' = ph_ver h \<and> ph_ref_cnt h' = ph_ref_cnt h \<and> fallback h' = fallback h \<and>
    (\<forall>key. rr_flag key = 0 \<longrightarrow> gget (ph_range_policy_map h') key = gget (ph_range_policy_map h) key)"

lemma offered_append:
  assumes "offered pick e fh wl h h1 ing cs" and "offered pick e fh wl h1 h2 ing cs'" and "settings_kept h h1"
  shows "offered pick e fh wl h h2 ing (cs @ cs')"
  using assms unfolding offered_def settings_kept_def by (auto simp: first_of_append split: option.split)

lemma offered_nil: "offered pick e fh wl h h ing []"
  by (simp add: offered_def split: option.split)

text \<open>Clauses that cannot be the first match need not be installed.\<close>

lemma offered_covered:
  assumes "\<And>k l u d. governs e fh wl h ing k \<Longrightarrow> (l, u, d) \<in> set cs \<Longrightarrow> chits e ing l u k \<Longrightarrow> comb pick e h ing k \<noteq> None"
  shows "offered pick e fh wl h h ing cs"
  unfolding offered_def
proof (intro allI impI)
  fix ing2 k
  assume g: "governs e fh wl h ing2 k"
  show "comb pick e h ing2 k = (case comb pick e h ing2 k of Some d \<Rightarrow> Some d | None \<Rightarrow> if ing2 = ing then first_of e ing cs k else None)"
  proof (cases "comb pick e h ing2 k")
    case None
    then have "first_of e ing cs k = None" if "ing2 = ing"
      unfolding first_of_None using assms g that by blast
    with None show ?thesis by simp
  qed simp
qed

lemma hits_same_box:
  assumes "same_box bl bu l u" and "same_box bl bu l2 u2" and "hits ing l u k" and "hits ing l2 u2 (peer0 ing k)"
  shows "hits ing l2 u2 k"
  using assms by (cases ing) (auto simp: same_box_def hits_def in_box_def peer0_def range_key_def)

lemma offer_item:
  assumes "picks pick" and "base_ok wl order bl bu h" and "same_box bl bu l u" and "pd_order d = order"
  shows "offered pick e fh wl h (add_item h ing l u d) ing [(l, u, d)]"
  unfolding offered_def
proof (intro allI impI)
  fix ing2 k
  assume g: "governs e fh wl h ing2 k"
  let ?k0 = "peer0 ing2 k"
  have ok: "lists_ok h" using assms(2) by (simp add: base_ok_def)
  note none = lk_None[OF assms(1) ok governs_dir(1)[OF g]]
  have old: "pd_order d2 \<le> order" if "lk pick h ing2 k = Some d2" for d2
    using base_lk[OF assms(1,2) governs_dir(1)[OF g] that] by blast
  have tie: "pd_order d2 < order" if x: "external e ing2 k" "lk pick h ing2 ?k0 = Some d2" "lk pick h ing2 k = None"
    and "ing2 = ing" "hits ing l u k" for d2
  proof (rule ccontr)
    assume "\<not> pd_order d2 < order"
    with base_lk[OF assms(1,2) governs_dir(2)[OF g x(1)] x(2)] obtain l2 u2
      where c: "(l2, u2, d2) \<in> clauses wl h ing2" "hits ing2 l2 u2 ?k0" "same_box bl bu l2 u2"
      by force
    from hits_same_box[OF assms(3) c(3)] that(4,5) c(2) have "hits ing2 l2 u2 k" by simp
    with c(1) x(3) none show False by blast
  qed
  show "comb pick e (add_item h ing l u d) ing2 k = (case comb pick e h ing2 k of Some d' \<Rightarrow> Some d'
      | None \<Rightarrow> if ing2 = ing then first_of e ing [(l, u, d)] k else None)"
    using old tie assms(4)
    by (cases "lk pick h ing2 k"; cases "lk pick h ing2 ?k0") (auto simp: comb_def lk_item chits_def not_less)
qed

lemma offer_exact:
  assumes "picks pick" and "base_ok wl order bl bu h" and "ing \<longleftrightarrow> rk_sip kk \<noteq> wl" and "pd_order d = order"
    and "governs e fh wl h ing kk \<Longrightarrow> comb pick e h ing kk = None"
  shows "offered pick e fh wl h (add_exact h kk d) ing [(kk, kk, d)]"
  unfolding offered_def
proof (intro allI impI)
  fix ing2 k
  assume g: "governs e fh wl h ing2 k"
  let ?k0 = "peer0 ing2 k"
  have dir: "ing2 = ing" if "k = kk \<or> external e ing2 k \<and> ?k0 = kk"
    using that governs_dir[OF g] assms(3) by blast
  have free: "lk pick h ing kk = None" if "k = kk \<or> external e ing2 k \<and> ?k0 = kk"
    using assms(5) g governs_peer0[OF g] dir[OF that] that unfolding comb_None by blast
  have old: "pd_order d2 \<le> order" if "lk pick h ing2 k = Some d2" for d2
    using base_lk[OF assms(1,2) governs_dir(1)[OF g] that] by blast
  show "comb pick e (add_exact h kk d) ing2 k = (case comb pick e h ing2 k of Some d' \<Rightarrow> Some d'
      | None \<Rightarrow> if ing2 = ing then first_of e ing [(kk, kk, d)] k else None)"
  proof (cases "k = kk \<or> external e ing2 k \<and> ?k0 = kk")
    case True
    note lk' = lk_exact[OF assms(1) free[OF True]]
    show ?thesis
    proof (cases "k = kk")
      case k: True
      then have "comb pick e h ing kk = None"
        using assms(5) g dir[OF True] by simp
      then show ?thesis
        using k dir[OF True] by (auto simp: comb_def lk' chits_def hits_exact split: option.splits if_splits)
    next
      case False
      with True free dir old assms(4) show ?thesis
        by (cases "lk pick h ing2 k") (auto simp: comb_def lk' chits_def hits_exact not_less)
    qed
  next
    case False
    then have "comb pick e (add_exact h kk d) ing2 k = comb pick e h ing2 k"
      by (cases "external e ing2 k") (simp_all add: comb_def lk_exact_other split: option.split)
    moreover have "\<not> chits e ing kk kk k" if "ing2 = ing"
      using False that by (auto simp: chits_def hits_exact)
    ultimately show ?thesis
      by (simp split: option.split)
  qed
qed

lemma refuse_exact:
  assumes "governs e fh wl h ing kk \<Longrightarrow> comb pick e h ing kk \<noteq> None"
  shows "offered pick e fh wl h h ing [(kk, kk, d)]"
proof (rule offered_covered)
  fix k l u d'
  assume g: "governs e fh wl h ing k" and m: "(l, u, d') \<in> set [(kk, kk, d)]" and c: "chits e ing l u k"
  then consider "k = kk" | "external e ing k" "peer0 ing k = kk"
    by (auto simp: chits_def hits_exact)
  then show "comb pick e h ing k \<noteq> None"
    using assms g governs_peer0[OF g] comb_peer0 by cases blast+
qed

text \<open>Adding one rule, exact or range.\<close>

lemma range_add:
  assumes "rk_proto l = rk_proto u"
  shows "dpi_range_rule_add h l u (dir_of ing) d E =
    (case find (\<lambda>i. ri_key_l i = l \<and> ri_key_h i = u) (items_of h (range_key ing l)) of
      Some i \<Rightarrow> (0, h, ri_desc i) | None \<Rightarrow> (1, add_item h ing l u d, E))"
proof -
  have key: "get_range_key l u (dir_of ing) = Some (range_key ing l)"
    using assms by (simp add: get_range_key_def dir_of_def range_key_def)
  have same: "gput (range_key ing l) (items_of h (range_key ing l)) (ph_range_policy_map h) = ph_range_policy_map h"
    if "find (\<lambda>i. ri_key_l i = l \<and> ri_key_h i = u) (items_of h (range_key ing l)) = Some i" for i
    using that by (auto simp: items_of_def update_triv split: option.splits)
  show ?thesis
    unfolding dpi_range_rule_add_def key items_of_def[symmetric] add_item_def Let_def option.case
    using same by (auto split: option.split)
qed

lemma fallback_cong:
  assumes "ph_def_action h' = ph_def_action h"
    and "\<And>proto. gget (ph_range_policy_map h') \<lparr>rr_ip = 0, rr_proto = proto, rr_flag = 0\<rparr> =
      gget (ph_range_policy_map h) \<lparr>rr_ip = 0, rr_proto = proto, rr_flag = 0\<rparr>"
  shows "fallback h' = fallback h"
  unfolding fallback_def assms ..

lemma range_key_flag: "range_key ing k \<noteq> \<lparr>rr_ip = 0, rr_proto = proto, rr_flag = 0\<rparr>"
  by (simp add: range_key_def DP_RANGE_RULE_INGRESS_def DP_RANGE_RULE_EGRESS_def)

lemma fallback_add [simp]:
  "fallback (add_exact h k d) = fallback h"
  "fallback (add_item h ing l u d) = fallback h"
  using range_key_flag by (intro fallback_cong; simp add: add_exact_def add_item_def; metis)+

lemma settings_kept_add:
  "settings_kept h (add_exact h k d)" "settings_kept h (add_item h ing l u d)" "settings_kept h h"
proof -
  have "rr_flag (range_key ing l) \<noteq> 0"
    by (simp add: range_key_def DP_RANGE_RULE_INGRESS_def DP_RANGE_RULE_EGRESS_def)
  then show "settings_kept h (add_exact h k d)" "settings_kept h (add_item h ing l u d)" "settings_kept h h"
    by (auto simp: settings_kept_def) (auto simp: add_exact_def add_item_def)
qed

lemma settings_kept_trans: "settings_kept h h1 \<Longrightarrow> settings_kept h1 h2 \<Longrightarrow> settings_kept h h2"
  by (simp add: settings_kept_def)

lemma plain_kept: "plain h \<Longrightarrow> settings_kept h h' \<Longrightarrow> plain h'"
  by (simp add: plain_def settings_kept_def)

lemma lists_ok_add:
  assumes "lists_ok h"
  shows "lists_ok (add_exact h k d)" "lists_ok (add_item h ing l u d)"
proof -
  show "lists_ok (add_exact h k d)"
    using assms unfolding lists_ok_def exact_simps .
  show "lists_ok (add_item h ing l u d)"
    unfolding lists_ok_def
  proof (intro allI ballI)
    fix ing2 k i
    assume i: "i \<in> set (items_of (add_item h ing l u d) (range_key ing2 k))"
    show "range_key ing2 (ri_key_l i) = range_key ing2 k"
    proof (cases "i \<in> set (items_of h (range_key ing2 k))")
      case True
      then show ?thesis using assms unfolding lists_ok_def by blast
    next
      case False
      with i have eq: "range_key ing2 k = range_key ing l" and l: "ri_key_l i = l"
        by (simp_all split: if_splits)
      from eq have "ing2 = ing" by (rule range_key_inject)
      with eq l show ?thesis by simp
    qed
  qed
qed

text \<open>
  The result of adding a clause: the tables are as before or hold the clause in addition, and the lookups are as
  if the clause had been appended to the list of clauses.
\<close>

definition added :: "(dpi_policy_desc list \<Rightarrow> dpi_policy_desc option) \<Rightarrow> dp_env \<Rightarrow> dpi_fqdn_hdl \<Rightarrow> u32 \<Rightarrow> dpi_policy_hdl \<Rightarrow> dpi_policy_hdl
    \<Rightarrow> bool \<Rightarrow> clause \<Rightarrow> int \<Rightarrow> bool" where
  "added pick e fh wl h h' ing c ret \<longleftrightarrow> offered pick e fh wl h h' ing [c] \<and> settings_kept h h' \<and> lists_ok h' \<and>
    (ret = 0 \<and> h' = h \<or> ret = 1 \<and> (\<forall>ing2. clauses wl h' ing2 = clauses wl h ing2 \<union> (if ing2 = ing then {c} else {})))"

definition top_key :: "dpi_rule_key \<Rightarrow> dpi_rule_key option \<Rightarrow> dpi_rule_key" where
  "top_key l kh = (case kh of None \<Rightarrow> l | Some u \<Rightarrow> u)"

lemma comb_id:
  assumes "picks pick" and "base_ok wl order bl bu h" and "governs e fh wl h ing k" and "comb pick e h ing k = Some d"
  shows "pd_id d > 0"
proof -
  have "lk pick h ing k = Some d \<or> external e ing k \<and> lk pick h ing (peer0 ing k) = Some d"
    using assms(4) by (auto simp: comb_def split: option.splits if_splits)
  then show ?thesis
    using base_lk[OF assms(1,2) governs_dir(1)[OF assms(3)]] base_lk[OF assms(1,2) governs_dir(2)[OF assms(3)]] by blast
qed

lemma lookup_found:
  assumes "picks pick" and "base_ok wl order bl bu h" and "order < 0xffffffff" and "plain h" and "governs e fh wl h ing k"
  shows "pd_id (dpi_policy_lookup_by_key pick e fh (Some h) k ing E None) \<noteq> 0 \<longleftrightarrow> comb pick e h ing k \<noteq> None"
    "comb pick e h ing k = Some d \<Longrightarrow> pd_action (dpi_policy_lookup_by_key pick e fh (Some h) k ing E None) = pd_action d"
proof -
  note l = lookup_comb[OF assms, of None E]
  have n: "\<not> is_chk_nbe None" by (simp add: is_chk_nbe_def)
  have f: "pd_id (fallback h k) = 0" using assms(4) by (simp add: plain_def)
  show "pd_id (dpi_policy_lookup_by_key pick e fh (Some h) k ing E None) \<noteq> 0 \<longleftrightarrow> comb pick e h ing k \<noteq> None"
    unfolding l[OF n] using f comb_id[OF assms(1,2,5)] by (cases "comb pick e h ing k") (auto simp: Let_def)
  show "pd_action (dpi_policy_lookup_by_key pick e fh (Some h) k ing E None) = pd_action d" if "comb pick e h ing k = Some d"
    unfolding l[OF n] using that by (simp add: Let_def)
qed

lemma rule_add_exact:
  assumes pick: "picks pick" and ok: "base_ok wl order bl bu h" and lt: "order < 0xffffffff" and pl: "plain h"
    and ord: "pd_order d = order" and dir: "ing \<longleftrightarrow> rk_sip l \<noteq> wl"
    and res: "dpi_rule_add_one pick e fh h l None (dir_of ing) d E = (ret, h', E')"
  shows "added pick e fh wl h h' ing (l, l, d) ret"
    "ret = 0 \<Longrightarrow> governs e fh wl h ing l \<Longrightarrow> \<exists>d2. comb pick e h ing l = Some d2 \<and> pd_action E' = pd_action d2"
proof -
  let ?E = "dpi_policy_lookup_by_key pick e fh (Some h) l ing E None"
  have lists: "lists_ok h" using ok by (simp add: base_ok_def)
  note found = lookup_found[OF pick ok lt pl]
  have r: "E' = ?E \<and> (if pd_id ?E \<noteq> 0 then ret = 0 \<and> h' = h else ret = 1 \<and> h' = add_exact h l d)"
    using res by (simp add: dpi_rule_add_one_def dir_of_def Let_def add_exact_def split: if_splits)
  show "added pick e fh wl h h' ing (l, l, d) ret"
  proof (cases "pd_id ?E \<noteq> 0")
    case True
    then have "offered pick e fh wl h h ing [(l, l, d)]"
      using found(1) by (intro refuse_exact) blast
    with True r lists show ?thesis
      by (simp add: added_def settings_kept_add)
  next
    case False
    then have "offered pick e fh wl h (add_exact h l d) ing [(l, l, d)]"
      using found(1) by (intro offer_exact[OF pick ok dir ord]) blast
    with False r show ?thesis
      unfolding added_def using dir by (simp add: settings_kept_add lists_ok_add[OF lists] clauses_exact)
  qed
  show "\<exists>d2. comb pick e h ing l = Some d2 \<and> pd_action E' = pd_action d2" if z: "ret = 0" and g: "governs e fh wl h ing l"
  proof -
    have "pd_id ?E \<noteq> 0" using r z by (simp split: if_splits)
    then obtain d2 where "comb pick e h ing l = Some d2" using found(1)[OF g] by auto
    then show ?thesis using found(2)[OF g] r by auto
  qed
qed

lemma rule_add_range:
  assumes pick: "picks pick" and ok: "base_ok wl order bl bu h"
    and box: "same_box bl bu l u" and ord: "pd_order d = order" and proto: "rk_proto u = rk_proto l"
    and res: "dpi_rule_add_one pick e fh h l (Some u) (dir_of ing) d E = (ret, h', E')"
  shows "added pick e fh wl h h' ing (l, u, d) ret"
    "ret = 0 \<Longrightarrow> (l, u, E') \<in> clauses wl h ing"
proof -
  have lists: "lists_ok h" using ok by (simp add: base_ok_def)
  have eq: "dpi_range_rule_add h l u (dir_of ing) d E = (ret, h', E')"
    using res by (simp add: dpi_rule_add_one_def)
  have "added pick e fh wl h h' ing (l, u, d) ret \<and> (ret = 0 \<longrightarrow> (l, u, E') \<in> clauses wl h ing)"
  proof (cases "find (\<lambda>i. ri_key_l i = l \<and> ri_key_h i = u) (items_of h (range_key ing l))")
    case None
    then have r: "ret = 1" "h' = add_item h ing l u d"
      using eq unfolding range_add[OF proto[symmetric]] by auto
    show ?thesis
      using offer_item[OF pick ok box ord] unfolding r added_def
      by (simp add: settings_kept_add lists_ok_add[OF lists] clauses_item)
  next
    case (Some i)
    then have i: "i \<in> set (items_of h (range_key ing l))" "ri_key_l i = l" "ri_key_h i = u"
      using find_SomeD[OF Some] by simp_all
    have r: "ret = 0" "h' = h" "E' = ri_desc i"
      using eq Some unfolding range_add[OF proto[symmetric]] by auto
    have "\<lparr>ri_desc = ri_desc i, ri_key_l = l, ri_key_h = u\<rparr> = i"
      using i(2,3) by (cases i) simp
    then have c: "(l, u, ri_desc i) \<in> clauses wl h ing"
      unfolding mem_clauses using i(1) by simp
    have "offered pick e fh wl h h ing [(l, u, d)]"
    proof (rule offered_covered)
      fix k l' u' d'
      assume "governs e fh wl h ing k" "(l', u', d') \<in> set [(l, u, d)]" "chits e ing l' u' k"
      then show "comb pick e h ing k \<noteq> None"
        using hit_comb[OF pick lists _ c] by simp
    qed
    then show ?thesis
      using c lists unfolding r added_def by (simp add: settings_kept_add)
  qed
  then show "added pick e fh wl h h' ing (l, u, d) ret" "ret = 0 \<Longrightarrow> (l, u, E') \<in> clauses wl h ing"
    by blast+
qed

lemma added_base_ok:
  assumes "added pick e fh wl h h' ing (l, u, d) ret" and "base_ok wl order bl bu h" and "same_box bl bu l u" and "pd_order d = order" and "pd_id d > 0"
  shows "base_ok wl order bl bu h'"
proof -
  have lists: "lists_ok h'" using assms(1) by (simp add: added_def)
  have "(l', u', d') \<in> clauses wl h ing2 \<or> (l', u', d') = (l, u, d)" if "(l', u', d') \<in> clauses wl h' ing2" for l' u' d' ing2
    using assms(1) that unfolding added_def by (cases "ing2 = ing") auto
  then have "pd_id d' > 0 \<and> pd_order d' \<le> order \<and> (pd_order d' = order \<longrightarrow> same_box bl bu l' u')"
    if "(l', u', d') \<in> clauses wl h' ing2" for l' u' d' ing2
    using that assms(2-5) unfolding base_ok_def by (metis order_refl prod.inject)
  with lists show ?thesis
    unfolding base_ok_def by blast
qed

lemma added_mono: "added pick e fh wl h h' ing c ret \<Longrightarrow> clauses wl h ing2 \<subseteq> clauses wl h' ing2"
  by (auto simp: added_def)

section \<open>Adding a rule\<close>

text \<open>A clause for the unidentified application that decides is accompanied by one for every application.\<close>

definition partners :: "u32 \<Rightarrow> dpi_policy_hdl \<Rightarrow> bool" where
  "partners wl h \<longleftrightarrow> (\<forall>ing l u d. (l, u, d) \<in> clauses wl h ing \<longrightarrow> rk_app l = 0 \<longrightarrow> pd_action d \<noteq> DP_POLICY_ACTION_CHECK_APP \<longrightarrow>
    (\<exists>d'. (l, u\<lparr>rk_app := 0xffffffff\<rparr>, d') \<in> clauses wl h ing))"

text \<open>What is fixed while a rule is compiled for one protocol.\<close>

definition leg_ok :: "(dpi_policy_desc list \<Rightarrow> dpi_policy_desc option) \<Rightarrow> u32 \<Rightarrow> u32 \<Rightarrow> dpi_policy_hdl \<Rightarrow> bool \<Rightarrow> dpi_rule_key \<Rightarrow> dpi_rule_key option
    \<Rightarrow> dpi_policy_desc \<Rightarrow> bool" where
  "leg_ok pick wl order h ing l kh d \<longleftrightarrow> picks pick \<and> order < 0xffffffff \<and> plain h \<and> base_ok wl order l (top_key l kh) h \<and>
    pd_order d = order \<and> pd_id d > 0 \<and> pd_hdl_ver d = 0 \<and> rk_proto (top_key l kh) = rk_proto l \<and> (kh = None \<longrightarrow> (ing \<longleftrightarrow> rk_sip l \<noteq> wl))"

lemma same_box_app [simp]: "same_box l u (l\<lparr>rk_app := a\<rparr>) (u\<lparr>rk_app := b\<rparr>)" "same_box l u l u"
  "same_box (l\<lparr>rk_app := a\<rparr>) u = same_box l u" "same_box l (u\<lparr>rk_app := b\<rparr>) = same_box l u"
  by (auto simp: same_box_def fun_eq_iff)

lemma key_app_top [simp]: "(top_key l kh)\<lparr>rk_app := rk_app (top_key l kh)\<rparr> = top_key l kh"
  by simp

definition app_top :: "dpi_policy_app_rule \<Rightarrow> dpi_rule_key \<Rightarrow> dpi_rule_key option \<Rightarrow> dpi_rule_key option" where
  "app_top a l kh = (case kh of Some u \<Rightarrow> Some (u\<lparr>rk_app := (if ar_app a \<noteq> 0 then ar_app a else 0xffffffff)\<rparr>)
    | None \<Rightarrow> if ar_app a \<noteq> 0 then None else Some (l\<lparr>rk_app := 0xffffffff\<rparr>))"

lemma add_app_rule_eq:
  assumes "pd_hdl_ver d = 0"
  shows "dpi_add_app_rule pick e fh h (l\<lparr>rk_app := x\<rparr>) (map_option (\<lambda>u. u\<lparr>rk_app := y\<rparr>) kh) a dir d E =
    dpi_rule_add_one pick e fh h (l\<lparr>rk_app := ar_app a\<rparr>) (app_top a l kh) dir (d\<lparr>pd_id := ar_rule_id a, pd_action := ar_action a\<rparr>) E"
proof -
  have "\<lparr>pd_id = ar_rule_id a, pd_action = ar_action a, pd_flags = pd_flags d, pd_hdl_ver = 0, pd_order = pd_order d\<rparr> =
      d\<lparr>pd_id := ar_rule_id a, pd_action := ar_action a\<rparr>"
    using assms by (cases d) simp
  then show ?thesis
    by (cases kh) (simp_all add: dpi_add_app_rule_def app_keys_def app_top_def)
qed

lemma app_top_clause:
  "(l\<lparr>rk_app := ar_app a\<rparr>, top_key (l\<lparr>rk_app := ar_app a\<rparr>) (app_top a l kh), d\<lparr>pd_id := ar_rule_id a, pd_action := ar_action a\<rparr>) =
    app_clause l (top_key l kh) d a"
  by (cases kh) (simp_all add: app_clause_def top_key_def app_top_def)

lemma leg_okD:
  assumes "leg_ok pick wl order h ing l kh d"
  shows "picks pick" "order < 0xffffffff" "plain h" "base_ok wl order l (top_key l kh) h" "pd_order d = order" "pd_id d > 0"
    "pd_hdl_ver d = 0" "rk_proto (top_key l kh) = rk_proto l" "kh = None \<Longrightarrow> (ing \<longleftrightarrow> rk_sip l \<noteq> wl)"
  using assms by (simp_all add: leg_ok_def)

lemma added_leg_ok:
  assumes "added pick e fh wl h h' ing2 (l', u', d') ret" and "leg_ok pick wl order h ing l kh d"
    and "same_box l (top_key l kh) l' u'" and "pd_order d' = order" and "pd_id d' > 0"
  shows "leg_ok pick wl order h' ing l kh d"
proof -
  note L = leg_okD[OF assms(2)]
  have k: "settings_kept h h'" using assms(1) by (simp add: added_def)
  show ?thesis
    unfolding leg_ok_def
    using L plain_kept[OF L(3) k] added_base_ok[OF assms(1) L(4) assms(3-5)] by simp
qed

lemma add_app_rule:
  assumes leg: "leg_ok pick wl order h ing l kh d" and id: "ar_rule_id a > 0"
    and res: "dpi_add_app_rule pick e fh h (l\<lparr>rk_app := x\<rparr>) (map_option (\<lambda>u. u\<lparr>rk_app := y\<rparr>) kh) a (dir_of ing) d E = (ret, h', E')"
  shows "added pick e fh wl h h' ing (app_clause l (top_key l kh) d a) ret" "leg_ok pick wl order h' ing l kh d"
proof -
  note L = leg_okD[OF leg]
  let ?l = "l\<lparr>rk_app := ar_app a\<rparr>" and ?d = "d\<lparr>pd_id := ar_rule_id a, pd_action := ar_action a\<rparr>"
  note res' = res[unfolded add_app_rule_eq[OF L(7)]]
  have box: "same_box l (top_key l kh) ?l (top_key ?l (app_top a l kh))"
    by (cases kh) (simp_all add: top_key_def app_top_def same_box_def)
  have ord: "pd_order ?d = order" using L(5) by simp
  show a: "added pick e fh wl h h' ing (app_clause l (top_key l kh) d a) ret"
  proof (cases "app_top a l kh")
    case None
    then have "kh = None"
      by (cases kh) (simp_all add: app_top_def)
    then have "ing \<longleftrightarrow> rk_sip ?l \<noteq> wl" using L(9) by simp
    from rule_add_exact(1)[OF L(1,4,2,3) ord this res'[unfolded None]] show ?thesis
      unfolding app_top_clause[symmetric] None by (simp add: top_key_def)
  next
    case (Some u)
    have "rk_proto u = rk_proto ?l"
      using L(8) Some by (cases kh) (auto simp: top_key_def app_top_def split: if_splits)
    from rule_add_range(1)[OF L(1,4) _ ord this res'[unfolded Some]] show ?thesis
      using box unfolding app_top_clause[symmetric] Some by (simp add: top_key_def)
  qed
  show "leg_ok pick wl order h' ing l kh d"
    by (rule added_leg_ok[OF a[unfolded app_top_clause[symmetric]] leg box ord]) (simp add: id)
qed

lemma u32_top [simp]: "(x :: u32) \<le> 0xffffffff"
proof -
  have "(0xffffffff :: u32) = - 1" by simp
  then show ?thesis by (simp only: word_n1_ge)
qed

lemma added_partners:
  assumes "added pick e fh wl h h' ing (l, u, d) ret" and "partners wl h"
    and "rk_app l = 0 \<Longrightarrow> u = u\<lparr>rk_app := 0xffffffff\<rparr>"
  shows "partners wl h'"
  unfolding partners_def
proof (intro allI impI)
  fix ing2 l2 u2 d2
  assume c: "(l2, u2, d2) \<in> clauses wl h' ing2" and z: "rk_app l2 = 0" and a: "pd_action d2 \<noteq> DP_POLICY_ACTION_CHECK_APP"
  show "\<exists>d'. (l2, u2\<lparr>rk_app := 0xffffffff\<rparr>, d') \<in> clauses wl h' ing2"
  proof (cases "(l2, u2, d2) \<in> clauses wl h ing2")
    case True
    then show ?thesis
      using assms(2) z a added_mono[OF assms(1)] unfolding partners_def by blast
  next
    case False
    with c assms(1) have "(l2, u2, d2) = (l, u, d)"
      unfolding added_def by (cases "ing2 = ing") auto
    then have "u2 = u2\<lparr>rk_app := 0xffffffff\<rparr>"
      using assms(3) z by simp
    with c show ?thesis by metis
  qed
qed

lemma app_loop:
  assumes "leg_ok pick wl order h ing l kh d" and "partners wl h" and "\<forall>a\<in>set as. ar_rule_id a > 0"
    and "app_rules_loop pick e fh h (l\<lparr>rk_app := x\<rparr>) (map_option (\<lambda>u. u\<lparr>rk_app := y\<rparr>) kh) as (dir_of ing) d E ret = (ret', h')"
  shows "offered pick e fh wl h h' ing (map (app_clause l (top_key l kh) d) as) \<and> leg_ok pick wl order h' ing l kh d \<and> settings_kept h h' \<and> partners wl h'"
  using assms
proof (induction as arbitrary: h x y E ret)
  case Nil
  then show ?case by (simp add: offered_nil settings_kept_add)
next
  case (Cons a as)
  obtain r h1 E1 where res: "dpi_add_app_rule pick e fh h (l\<lparr>rk_app := x\<rparr>) (map_option (\<lambda>u. u\<lparr>rk_app := y\<rparr>) kh) a (dir_of ing) d E = (r, h1, E1)"
    by (metis prod_cases3)
  have id: "ar_rule_id a > 0" "\<forall>a\<in>set as. ar_rule_id a > 0" using Cons.prems(3) by simp_all
  note one = add_app_rule[OF Cons.prems(1) id(1) res]
  obtain l' u' d' where c: "app_clause l (top_key l kh) d a = (l', u', d')" "rk_app l' = 0 \<Longrightarrow> u' = u'\<lparr>rk_app := 0xffffffff\<rparr>"
    by (simp add: app_clause_def)
  have p1: "partners wl h1"
    using added_partners[OF one(1)[unfolded c(1)] Cons.prems(2) c(2)] .
  have keys: "app_keys (l\<lparr>rk_app := x\<rparr>) (map_option (\<lambda>u. u\<lparr>rk_app := y\<rparr>) kh) (ar_app a) =
      (l\<lparr>rk_app := ar_app a\<rparr>, map_option (\<lambda>u. u\<lparr>rk_app := (if ar_app a \<noteq> 0 then ar_app a else 0xffffffff)\<rparr>) kh)"
    by (cases kh) (simp_all add: app_keys_def)
  from Cons.prems(4) have "app_rules_loop pick e fh h1 (l\<lparr>rk_app := ar_app a\<rparr>)
      (map_option (\<lambda>u. u\<lparr>rk_app := (if ar_app a \<noteq> 0 then ar_app a else 0xffffffff)\<rparr>) kh) as (dir_of ing) d E1
      (if r = 1 then ret + 1 else ret) = (ret', h')"
    unfolding app_rules_loop.simps res keys by simp
  from Cons.IH[OF one(2) p1 id(2) this]
  have r: "offered pick e fh wl h1 h' ing (map (app_clause l (top_key l kh) d) as)" "leg_ok pick wl order h' ing l kh d" "settings_kept h1 h'" "partners wl h'"
    by blast+
  have k: "settings_kept h h1" "offered pick e fh wl h h1 ing [app_clause l (top_key l kh) d a]"
    using one(1) by (simp_all add: added_def)
  show ?case
    using offered_append[OF k(2) r(1) k(1)] r settings_kept_trans[OF k(1) r(3)] by simp
qed

lemma governed_app [simp]: "governed e fh x y wl ing (k\<lparr>rk_app := a\<rparr>) = governed e fh x y wl ing k"
  by (cases ing) (simp_all add: governed_def to_tables_def external_def peer_def peer0_def)

lemma leg_clause_hits:
  assumes "(l', u', d') \<in> set (leg_clauses l u d apps)" and "rk_app l = 0" and "hits ing l' u' k"
  shows "hits ing l (u\<lparr>rk_app := 0xffffffff\<rparr>) k"
proof -
  have "\<exists>a b. l' = l\<lparr>rk_app := a\<rparr> \<and> u' = u\<lparr>rk_app := b\<rparr>"
    using assms(1,2) unfolding leg_clauses_def app_clause_def
    by (cases l; cases u) (auto split: if_splits)
  then show ?thesis
    using assms(2,3) by (auto simp: hits_def in_box_def range_key_def)
qed

lemma leg_covered:
  assumes "rk_app l = 0"
    and "\<And>k. governs e fh wl h ing k \<Longrightarrow> hits ing l (u\<lparr>rk_app := 0xffffffff\<rparr>) k \<Longrightarrow> comb pick e h ing k \<noteq> None"
  shows "offered pick e fh wl h h ing (leg_clauses l u d apps)"
proof (rule offered_covered)
  fix k l' u' d'
  assume g: "governs e fh wl h ing k" and c: "(l', u', d') \<in> set (leg_clauses l u d apps)" and h: "chits e ing l' u' k"
  note hit = leg_clause_hits[OF c assms(1)]
  show "comb pick e h ing k \<noteq> None"
    using h assms(2)[OF g hit] assms(2)[OF governs_peer0[OF g] hit] comb_peer0 unfolding chits_def by blast
qed

lemma hits_app:
  assumes "hits ing l2 u2 (k\<lparr>rk_app := 0\<rparr>)" and "rk_app l2 = 0"
  shows "hits ing l2 (u2\<lparr>rk_app := 0xffffffff\<rparr>) k"
  using assms by (cases ing) (auto simp: hits_def in_box_def range_key_def)

lemma covered_exact:
  assumes pick: "picks pick" and ok: "base_ok wl order bl bu h" and p: "partners wl h" and z: "rk_app l = 0"
    and f: "governs e fh wl h ing l \<Longrightarrow> \<exists>d2. comb pick e h ing l = Some d2 \<and> pd_action d2 \<noteq> DP_POLICY_ACTION_CHECK_APP"
    and g: "governs e fh wl h ing k" and hit: "hits ing l (l\<lparr>rk_app := 0xffffffff\<rparr>) k"
  shows "comb pick e h ing k \<noteq> None"
proof -
  have l: "l = k\<lparr>rk_app := 0\<rparr>"
    using hit z by (cases l; cases k; cases ing) (auto simp: hits_def in_box_def range_key_def dest: antisym)
  have lists: "lists_ok h" using ok by (simp add: base_ok_def)
  have gl: "governs e fh wl h ing l" using g unfolding l by simp
  have ext: "external e ing l = external e ing k" unfolding l by (simp add: external_def peer_def)
  have p0: "peer0 ing l = (peer0 ing k)\<lparr>rk_app := 0\<rparr>" unfolding l by (simp add: peer0_def)
  have step: "\<exists>u d'. (l2, u, d') \<in> clauses wl h ing \<and> hits ing l2 u k'"
    if c: "(l2, u2, d2) \<in> clauses wl h ing" "pd_action d2 \<noteq> DP_POLICY_ACTION_CHECK_APP" "hits ing l2 u2 (k'\<lparr>rk_app := 0\<rparr>)" for l2 u2 d2 k'
  proof -
    have "rk_app l2 = 0" using c(3) by (simp add: hits_def in_box_def)
    then show ?thesis
      using c p hits_app unfolding partners_def by blast
  qed
  obtain d2 where d2: "comb pick e h ing l = Some d2" "pd_action d2 \<noteq> DP_POLICY_ACTION_CHECK_APP"
    using f[OF gl] by blast
  then consider "lk pick h ing l = Some d2" | "external e ing l" "lk pick h ing (peer0 ing l) = Some d2"
    by (auto simp: comb_def split: option.splits if_splits)
  then show ?thesis
  proof cases
    case 1
    from base_lk[OF pick ok governs_dir(1)[OF gl] this] step[OF _ d2(2), of _ _ k]
    obtain l2 u d' where "(l2, u, d') \<in> clauses wl h ing" "hits ing l2 u k" unfolding l by blast
    then show ?thesis
      using hit_comb[OF pick lists g] unfolding chits_def by blast
  next
    case 2
    from base_lk[OF pick ok governs_dir(2)[OF gl 2(1)] 2(2)] step[OF _ d2(2), of _ _ "peer0 ing k"]
    obtain l2 u d' where "(l2, u, d') \<in> clauses wl h ing" "hits ing l2 u (peer0 ing k)" unfolding p0 by blast
    then show ?thesis
      using hit_comb[OF pick lists g] 2(1) unfolding chits_def ext by blast
  qed
qed

lemma rule_add_base:
  assumes leg: "leg_ok pick wl order h ing l kh d" and p: "partners wl h" and z: "rk_app l = 0"
    and res: "dpi_rule_add_one pick e fh h l kh (dir_of ing) d E0 = (ret, h', E)"
  shows "added pick e fh wl h h' ing (l, top_key l kh, d) ret"
    "ret = 0 \<Longrightarrow> pd_id E > 0"
    "ret = 0 \<Longrightarrow> pd_action E \<noteq> DP_POLICY_ACTION_CHECK_APP \<Longrightarrow> offered pick e fh wl h h ing (leg_clauses l (top_key l kh) d apps)"
proof -
  note L = leg_okD[OF leg]
  have lists: "lists_ok h" using L(4) by (simp add: base_ok_def)
  have "added pick e fh wl h h' ing (l, top_key l kh, d) ret \<and> (ret = 0 \<longrightarrow> pd_id E > 0) \<and>
    (ret = 0 \<longrightarrow> pd_action E \<noteq> DP_POLICY_ACTION_CHECK_APP \<longrightarrow> offered pick e fh wl h h ing (leg_clauses l (top_key l kh) d apps))"
  proof (cases kh)
    case None
    note x = rule_add_exact[OF L(1,4,2,3,5) L(9)[OF None] res[unfolded None]]
    have "ret = 0 \<Longrightarrow> pd_id E > 0"
      using res None by (auto simp: dpi_rule_add_one_def Let_def word_gt_0 split: if_splits)
    moreover have "offered pick e fh wl h h ing (leg_clauses l (top_key l kh) d apps)"
      if "ret = 0" "pd_action E \<noteq> DP_POLICY_ACTION_CHECK_APP"
    proof (rule leg_covered[OF z])
      fix k
      assume g: "governs e fh wl h ing k" and hit: "hits ing l ((top_key l kh)\<lparr>rk_app := 0xffffffff\<rparr>) k"
      show "comb pick e h ing k \<noteq> None"
        by (rule covered_exact[OF L(1,4) p z _ g]) (use x(2)[OF that(1)] that(2) hit None in \<open>auto simp: top_key_def\<close>)
    qed
    ultimately show ?thesis
      using x(1) None by (simp add: top_key_def)
  next
    case (Some u)
    then have t: "top_key l kh = u" by (simp add: top_key_def)
    have "same_box l (top_key l kh) l u" unfolding t by simp
    note x = rule_add_range[OF L(1,4) this L(5) L(8)[unfolded t] res[unfolded Some]]
    have "pd_id E > 0" if "ret = 0"
      using x(2)[OF that] L(4) unfolding base_ok_def by blast
    moreover have "offered pick e fh wl h h ing (leg_clauses l (top_key l kh) d apps)"
      if r: "ret = 0" "pd_action E \<noteq> DP_POLICY_ACTION_CHECK_APP"
    proof (rule leg_covered[OF z])
      fix k
      assume g: "governs e fh wl h ing k" and hit: "hits ing l ((top_key l kh)\<lparr>rk_app := 0xffffffff\<rparr>) k"
      obtain d' where "(l, u\<lparr>rk_app := 0xffffffff\<rparr>, d') \<in> clauses wl h ing"
        using p x(2)[OF r(1)] r(2) z unfolding partners_def by blast
      then show "comb pick e h ing k \<noteq> None"
        using hit_comb[OF L(1) lists g] hit unfolding t chits_def by blast
    qed
    ultimately show ?thesis
      using x(1) unfolding t by blast
  qed
  then show "added pick e fh wl h h' ing (l, top_key l kh, d) ret" "ret = 0 \<Longrightarrow> pd_id E > 0"
    "ret = 0 \<Longrightarrow> pd_action E \<noteq> DP_POLICY_ACTION_CHECK_APP \<Longrightarrow> offered pick e fh wl h h ing (leg_clauses l (top_key l kh) d apps)"
    by blast+
qed

text \<open>The clause for every application.\<close>

lemma key_app_id: "rk_app l = x \<Longrightarrow> l\<lparr>rk_app := x\<rparr> = (l :: dpi_rule_key)"
  by (cases l) simp

lemma kh_app_id: "rk_app (top_key l kh) = y \<Longrightarrow> map_option (\<lambda>u. u\<lparr>rk_app := y\<rparr>) kh = kh"
  by (cases kh) (simp_all add: top_key_def key_app_id)

lemma desc_id: "d\<lparr>pd_id := pd_id d, pd_action := pd_action d\<rparr> = (d :: dpi_policy_desc)"
  by (cases d) simp

lemma rule_add_any:
  assumes leg: "leg_ok pick wl order h ing l kh d" and z: "rk_app l = 0" and a: "a = \<lparr>ar_rule_id = pd_id d, ar_app = 0, ar_action = pd_action d\<rparr>"
    and res: "dpi_add_app_rule pick e fh h l kh a (dir_of ing) d E0 = (ret, h', E)"
  shows "added pick e fh wl h h' ing (l, (top_key l kh)\<lparr>rk_app := 0xffffffff\<rparr>, d) ret" "leg_ok pick wl order h' ing l kh d"
    "\<exists>d'. (l, (top_key l kh)\<lparr>rk_app := 0xffffffff\<rparr>, d') \<in> clauses wl h' ing"
proof -
  note L = leg_okD[OF leg]
  have keys: "l = l\<lparr>rk_app := rk_app l\<rparr>" "kh = map_option (\<lambda>u. u\<lparr>rk_app := rk_app (top_key l kh)\<rparr>) kh"
    by (simp_all add: kh_app_id)
  have res1: "dpi_add_app_rule pick e fh h (l\<lparr>rk_app := rk_app l\<rparr>) (map_option (\<lambda>u. u\<lparr>rk_app := rk_app (top_key l kh)\<rparr>) kh) a (dir_of ing) d E0 = (ret, h', E)"
    using res keys by simp
  have c: "app_clause l (top_key l kh) d a = (l, (top_key l kh)\<lparr>rk_app := 0xffffffff\<rparr>, d)"
    unfolding app_clause_def a by (simp add: key_app_id[OF z])
  have "ar_rule_id a > 0" using L(6) a by simp
  note one = add_app_rule[OF leg this res1]
  show ad: "added pick e fh wl h h' ing (l, (top_key l kh)\<lparr>rk_app := 0xffffffff\<rparr>, d) ret" and "leg_ok pick wl order h' ing l kh d"
    using one unfolding c by blast+
  have t: "app_top a l kh = Some ((top_key l kh)\<lparr>rk_app := 0xffffffff\<rparr>)"
    unfolding a by (cases kh) (simp_all add: app_top_def top_key_def)
  have res2: "dpi_rule_add_one pick e fh h l (Some ((top_key l kh)\<lparr>rk_app := 0xffffffff\<rparr>)) (dir_of ing) d E0 = (ret, h', E)"
    using res1 unfolding add_app_rule_eq[OF L(7)] t by (simp add: a key_app_id[OF z] desc_id)
  have "(l, (top_key l kh)\<lparr>rk_app := 0xffffffff\<rparr>, E) \<in> clauses wl h ing" if "ret = 0"
    by (rule rule_add_range(2)[OF L(1,4) _ L(5) _ res2 that]) (use L(8) in \<open>simp_all add: same_box_def\<close>)
  then show "\<exists>d'. (l, (top_key l kh)\<lparr>rk_app := 0xffffffff\<rparr>, d') \<in> clauses wl h' ing"
    using ad unfolding added_def by auto
qed

lemma partners_two:
  assumes a: "added pick e fh wl h h1 ing (l, u, d) ret" and p: "partners wl h"
    and b: "added pick e fh wl h1 h2 ing (l, u\<lparr>rk_app := 0xffffffff\<rparr>, d) ret2"
    and c: "(l, u\<lparr>rk_app := 0xffffffff\<rparr>, d2) \<in> clauses wl h2 ing"
  shows "partners wl h2"
  unfolding partners_def
proof (intro allI impI)
  fix ing2 l2 u2 d2
  assume x: "(l2, u2, d2) \<in> clauses wl h2 ing2" and z: "rk_app l2 = 0" and n: "pd_action d2 \<noteq> DP_POLICY_ACTION_CHECK_APP"
  have "(l2, u2, d2) \<in> clauses wl h ing2 \<or> ing2 = ing \<and> l2 = l \<and> (u2 = u \<or> u2 = u\<lparr>rk_app := 0xffffffff\<rparr>)"
    using x a b unfolding added_def by (cases "ing2 = ing") auto
  then show "\<exists>d'. (l2, u2\<lparr>rk_app := 0xffffffff\<rparr>, d') \<in> clauses wl h2 ing2"
  proof
    assume "(l2, u2, d2) \<in> clauses wl h ing2"
    then show ?thesis
      using p z n added_mono[OF a] added_mono[OF b] unfolding partners_def by blast
  qed (use c in auto)
qed

text \<open>A rule for one protocol: the result is that of offering its clauses in order.\<close>

definition high_ok :: "dpi_policy_desc \<Rightarrow> u32 \<Rightarrow> bool" where
  "high_ok d y \<longleftrightarrow> y = 0 \<or> y = 0xffffffff \<and> pd_action d \<noteq> DP_POLICY_ACTION_CHECK_APP"

lemma rule_add_rest:
  assumes leg: "leg_ok pick wl order h ing l kh d" and p: "partners wl h" and z: "rk_app l = 0"
    and ids: "\<forall>a\<in>set apps. ar_rule_id a > 0"
    and base: "added pick e fh wl h h1 ing (l, top_key l kh, d) ret"
    and any: "if pd_action d \<noteq> DP_POLICY_ACTION_CHECK_APP
      then dpi_add_app_rule pick e fh h1 l kh \<lparr>ar_rule_id = pd_id d, ar_app = 0, ar_action = pd_action d\<rparr> (dir_of ing) d E = (r2, h2, E2)
      else h2 = h1"
    and loop: "app_rules_loop pick e fh h2 (l\<lparr>rk_app := x\<rparr>) (map_option (\<lambda>u. u\<lparr>rk_app := y\<rparr>) kh) apps (dir_of ing) d E3 r3 = (r4, h3)"
  shows "offered pick e fh wl h h3 ing (leg_clauses l (top_key l kh) d apps) \<and> leg_ok pick wl order h3 ing l kh d \<and> settings_kept h h3 \<and> partners wl h3"
proof -
  note L = leg_okD[OF leg]
  have leg1: "leg_ok pick wl order h1 ing l kh d"
    by (rule added_leg_ok[OF base leg _ L(5,6)]) simp
  have k1: "settings_kept h h1" "offered pick e fh wl h h1 ing [(l, top_key l kh, d)]"
    using base by (simp_all add: added_def)
  let ?any = "if pd_action d \<noteq> DP_POLICY_ACTION_CHECK_APP then [(l, (top_key l kh)\<lparr>rk_app := 0xffffffff\<rparr>, d)] else []"
  have two: "offered pick e fh wl h1 h2 ing ?any \<and> settings_kept h1 h2 \<and> leg_ok pick wl order h2 ing l kh d \<and> partners wl h2"
  proof (cases "pd_action d \<noteq> DP_POLICY_ACTION_CHECK_APP")
    case True
    note a = rule_add_any[OF leg1 z refl any[unfolded if_P[OF True]]]
    from a(3) obtain d2 where "(l, (top_key l kh)\<lparr>rk_app := 0xffffffff\<rparr>, d2) \<in> clauses wl h2 ing" by blast
    from partners_two[OF base p a(1) this] a(1,2) True show ?thesis
      by (simp add: added_def)
  next
    case False
    then have h2: "h2 = h1" using any by simp
    have "partners wl h1"
      unfolding partners_def
    proof (intro allI impI)
      fix ing2 l2 u2 d2
      assume c: "(l2, u2, d2) \<in> clauses wl h1 ing2" "rk_app l2 = 0" "pd_action d2 \<noteq> DP_POLICY_ACTION_CHECK_APP"
      then have "(l2, u2, d2) \<in> clauses wl h ing2"
        using base False unfolding added_def by (cases "ing2 = ing") auto
      then show "\<exists>d'. (l2, u2\<lparr>rk_app := 0xffffffff\<rparr>, d') \<in> clauses wl h1 ing2"
        using p c(2,3) added_mono[OF base] unfolding partners_def by blast
    qed
    with False leg1 show ?thesis
      unfolding h2 by (simp add: offered_nil settings_kept_add)
  qed
  have three: "offered pick e fh wl h2 h3 ing (map (app_clause l (top_key l kh) d) apps) \<and> leg_ok pick wl order h3 ing l kh d \<and> settings_kept h2 h3 \<and> partners wl h3"
    using two by (intro app_loop[OF _ _ ids loop]) blast+
  have k12: "settings_kept h h2" using k1(1) two settings_kept_trans by blast
  have "offered pick e fh wl h h2 ing ((l, top_key l kh, d) # ?any)"
    using offered_append[OF k1(2) _ k1(1), of h2 ?any] two by simp
  from offered_append[OF this _ k12, of h3 "map (app_clause l (top_key l kh) d) apps"] three
  have "offered pick e fh wl h h3 ing (leg_clauses l (top_key l kh) d apps)"
    unfolding leg_clauses_def by simp
  moreover have "settings_kept h h3" using k12 three settings_kept_trans by blast
  ultimately show ?thesis using three by blast
qed

lemma rule_add:
  assumes leg: "leg_ok pick wl order h ing l kh d" and p: "partners wl h" and z: "rk_app l = 0"
    and hi: "high_ok d (rk_app (top_key l kh))" and ids: "\<forall>a\<in>set apps. ar_rule_id a > 0"
    and res: "dpi_rule_add pick e fh h l kh apps (dir_of ing) d = (r, h', l', kh')"
  shows "offered pick e fh wl h h' ing (leg_clauses l (top_key l kh) d apps) \<and> leg_ok pick wl order h' ing l kh d \<and> settings_kept h h' \<and> partners wl h'"
    "l' = l \<and> (\<exists>y. high_ok d y \<and> kh' = map_option (\<lambda>u. u\<lparr>rk_app := y\<rparr>) kh)"
proof -
  note L = leg_okD[OF leg]
  obtain ret h1 E where one: "dpi_rule_add_one pick e fh h l kh (dir_of ing) d desc0 = (ret, h1, E)"
    by (metis prod_cases3)
  note b = rule_add_base[OF leg p z one]
  have ret: "ret = 0 \<or> ret = 1" "ret = 0 \<Longrightarrow> h1 = h"
    using b(1) by (auto simp: added_def)
  have "offered pick e fh wl h h' ing (leg_clauses l (top_key l kh) d apps) \<and> leg_ok pick wl order h' ing l kh d \<and> settings_kept h h' \<and> partners wl h' \<and>
    l' = l \<and> (\<exists>y. high_ok d y \<and> kh' = map_option (\<lambda>u. u\<lparr>rk_app := y\<rparr>) kh)"
  proof (cases "ret = 0 \<and> pd_action E \<noteq> DP_POLICY_ACTION_CHECK_APP")
    case True
    then have "h' = h" "l' = l" "kh' = kh"
      using res one b(2) ret(2) by (simp_all add: dpi_rule_add_def)
    then show ?thesis
      using b(3)[of apps] True leg p hi kh_app_id[OF refl, of l kh] by (auto simp: settings_kept_add intro!: exI[of _ "rk_app (top_key l kh)"])
  next
    case False
    let ?a = "\<lparr>ar_rule_id = pd_id d, ar_app = 0, ar_action = pd_action d\<rparr>"
    let ?inst = "pd_action d \<noteq> DP_POLICY_ACTION_CHECK_APP"
    let ?y = "if ?inst then 0xffffffff else rk_app (top_key l kh)"
    have install: "(if ret = 0 \<and> pd_id E > 0 then ?inst else ret > 0 \<and> pd_id d > 0 \<and> ?inst) = ?inst"
      using ret(1) b(2) L(6) by auto
    obtain r2 h2 E2 where two: "(if ?inst then dpi_add_app_rule pick e fh h1 l kh ?a (dir_of ing) d E else (ret, h1, E)) = (r2, h2, E2)"
      by (metis prod_cases3)
    obtain r4 h3 where three: "app_rules_loop pick e fh h2 l (map_option (\<lambda>u. u\<lparr>rk_app := ?y\<rparr>) kh) apps (dir_of ing) d E2 r2 = (r4, h3)"
      by (metis prod.exhaust)
    have keys: "(if ?inst then app_keys l kh 0 else (l, kh)) = (l, map_option (\<lambda>u. u\<lparr>rk_app := ?y\<rparr>) kh)"
      by (cases kh) (simp_all add: app_keys_def key_app_id[OF z] top_key_def)
    have any: "if ?inst then dpi_add_app_rule pick e fh h1 l kh ?a (dir_of ing) d E = (r2, h2, E2) else h2 = h1"
      using two by auto
    have rest: "offered pick e fh wl h h3 ing (leg_clauses l (top_key l kh) d apps) \<and> leg_ok pick wl order h3 ing l kh d \<and> settings_kept h h3 \<and> partners wl h3"
      by (rule rule_add_rest[OF leg p z ids b(1) any, where x = 0 and y = ?y]) (use three in \<open>simp add: key_app_id[OF z]\<close>)
    have "\<not> ret < 0" using ret(1) by auto
    then have out: "dpi_rule_add pick e fh h l kh apps (dir_of ing) d =
      (if apps = [] then (r2, h2, l, map_option (\<lambda>u. u\<lparr>rk_app := ?y\<rparr>) kh)
       else (r4, h3, l\<lparr>rk_app := 0\<rparr>, map_option (\<lambda>k. k\<lparr>rk_app := 0\<rparr>) (map_option (\<lambda>u. u\<lparr>rk_app := ?y\<rparr>) kh)))"
      unfolding dpi_rule_add_def one prod.case Let_def install two keys three using False b(2) by auto
    have "apps = [] \<Longrightarrow> h3 = h2" using three by simp
    then have "h' = h3" "l' = l" "kh' = map_option (\<lambda>u. u\<lparr>rk_app := (if apps = [] then ?y else 0)\<rparr>) kh"
      using res out by (cases kh; auto simp: key_app_id[OF z] split: if_splits)+
    moreover have "high_ok d (if apps = [] then ?y else 0)"
      using hi by (auto simp: high_ok_def)
    ultimately show ?thesis using rest by blast
  qed
  then show "offered pick e fh wl h h' ing (leg_clauses l (top_key l kh) d apps) \<and> leg_ok pick wl order h' ing l kh d \<and> settings_kept h h' \<and> partners wl h'"
    "l' = l \<and> (\<exists>y. high_ok d y \<and> kh' = map_option (\<lambda>u. u\<lparr>rk_app := y\<rparr>) kh)"
    by blast+
qed

section \<open>Compiling the rule list\<close>

lemma leg_ok_keys:
  assumes "leg_ok pick wl order h ing l kh d"
  shows "leg_ok pick wl order h ing (l\<lparr>rk_proto := p\<rparr>) (map_option (\<lambda>u. u\<lparr>rk_proto := p, rk_app := y\<rparr>) kh) d"
proof -
  note L = leg_okD[OF assms]
  have t: "top_key (l\<lparr>rk_proto := p\<rparr>) (map_option (\<lambda>u. u\<lparr>rk_proto := p, rk_app := y\<rparr>) kh) =
    (case kh of None \<Rightarrow> l\<lparr>rk_proto := p\<rparr> | Some u \<Rightarrow> u\<lparr>rk_proto := p, rk_app := y\<rparr>)"
    by (cases kh) (simp_all add: top_key_def)
  have "same_box (l\<lparr>rk_proto := p\<rparr>) (top_key (l\<lparr>rk_proto := p\<rparr>) (map_option (\<lambda>u. u\<lparr>rk_proto := p, rk_app := y\<rparr>) kh)) = same_box l (top_key l kh)"
    unfolding t by (cases kh) (simp_all add: fun_eq_iff same_box_def top_key_def)
  then show ?thesis
    using L unfolding leg_ok_def base_ok_def t by (cases kh) auto
qed

lemma first_of_high:
  assumes "high_ok d y" and "rk_app l = 0"
  shows "first_of e ing (leg_clauses l (u\<lparr>rk_app := y\<rparr>) d apps) k = first_of e ing (leg_clauses l (u\<lparr>rk_app := 0\<rparr>) d apps) k"
proof (cases "y = 0")
  case False
  then have y: "y = 0xffffffff" "pd_action d \<noteq> DP_POLICY_ACTION_CHECK_APP"
    using assms(1) by (auto simp: high_ok_def)
  have "app_clause l (u\<lparr>rk_app := y\<rparr>) d = app_clause l (u\<lparr>rk_app := 0\<rparr>) d"
    by (simp add: fun_eq_iff app_clause_def)
  moreover have "chits e ing l (u\<lparr>rk_app := 0\<rparr>) k \<Longrightarrow> chits e ing l (u\<lparr>rk_app := 0xffffffff\<rparr>) k"
    by (auto simp: chits_def hits_def in_box_def)
  ultimately show ?thesis
    using y by (auto simp: leg_clauses_def)
qed simp

lemma offered_cong:
  assumes "offered pick e fh wl h h' ing cs" and "\<And>k. first_of e ing cs k = first_of e ing cs' k"
  shows "offered pick e fh wl h h' ing cs'"
  using assms(1) unfolding offered_def assms(2) .

definition low_top :: "dpi_rule_key \<Rightarrow> dpi_rule_key option \<Rightarrow> u16 \<Rightarrow> dpi_rule_key" where
  "low_top l kh p = (top_key l kh)\<lparr>rk_proto := p, rk_app := 0\<rparr>"

lemma protos_add:
  assumes "leg_ok pick wl order h ing l kh d" and "partners wl h" and "rk_app l = 0"
    and "high_ok d (rk_app (top_key l kh))" and "\<forall>a\<in>set apps. ar_rule_id a > 0"
  shows "offered pick e fh wl h (add_protos pick e fh h l kh apps (dir_of ing) d ps) ing
      (concat (map (\<lambda>p. leg_clauses (l\<lparr>rk_proto := p\<rparr>) (low_top l kh p) d apps) ps)) \<and>
    settings_kept h (add_protos pick e fh h l kh apps (dir_of ing) d ps) \<and> partners wl (add_protos pick e fh h l kh apps (dir_of ing) d ps) \<and>
    base_ok wl order l (top_key l kh) (add_protos pick e fh h l kh apps (dir_of ing) d ps)"
  using assms
proof (induction ps arbitrary: h l kh)
  case Nil
  then show ?case by (simp add: offered_nil settings_kept_add leg_okD(4))
next
  case (Cons p ps)
  let ?l = "l\<lparr>rk_proto := p\<rparr>" and ?kh = "map_option (\<lambda>u. u\<lparr>rk_proto := p\<rparr>) kh"
  obtain r h1 l1 kh1 where res: "dpi_rule_add pick e fh h ?l ?kh apps (dir_of ing) d = (r, h1, l1, kh1)"
    by (metis prod_cases4)
  have kh: "?kh = map_option (\<lambda>u. u\<lparr>rk_proto := p, rk_app := rk_app (top_key l kh)\<rparr>) kh"
    by (cases kh) (simp_all add: top_key_def)
  have leg: "leg_ok pick wl order h ing ?l ?kh d"
    unfolding kh by (rule leg_ok_keys[OF Cons.prems(1)])
  have t: "top_key ?l ?kh = (low_top l kh p)\<lparr>rk_app := rk_app (top_key l kh)\<rparr>"
    by (cases kh) (simp_all add: top_key_def low_top_def)
  have hi: "high_ok d (rk_app (top_key ?l ?kh))" and z: "rk_app ?l = 0"
    unfolding t using Cons.prems(3,4) by simp_all
  note one = rule_add[OF leg Cons.prems(2) z hi Cons.prems(5) res]
  have off: "offered pick e fh wl h h1 ing (leg_clauses ?l (low_top l kh p) d apps)"
  proof (rule offered_cong)
    show "offered pick e fh wl h h1 ing (leg_clauses ?l (top_key ?l ?kh) d apps)" using one(1) by blast
    have "(low_top l kh p)\<lparr>rk_app := 0\<rparr> = low_top l kh p" by (simp add: low_top_def)
    then show "first_of e ing (leg_clauses ?l (top_key ?l ?kh) d apps) k = first_of e ing (leg_clauses ?l (low_top l kh p) d apps) k" for k
      unfolding t using first_of_high[OF Cons.prems(4) z, of e ing "low_top l kh p" apps k] by simp
  qed
  from one(2) obtain y where l1: "l1 = ?l" and y: "high_ok d y" and kh1: "kh1 = map_option (\<lambda>u. u\<lparr>rk_app := y\<rparr>) ?kh" by blast
  have kh1': "kh1 = map_option (\<lambda>u. u\<lparr>rk_proto := p, rk_app := y\<rparr>) ?kh"
    unfolding kh1 by (cases kh) simp_all
  have "?l = ?l\<lparr>rk_proto := p\<rparr>" by simp
  with one(1) leg_ok_keys[of pick wl order h1 ing ?l ?kh d p y]
  have leg1: "leg_ok pick wl order h1 ing l1 kh1 d" unfolding l1 kh1' by simp
  have hi1: "high_ok d (rk_app (top_key l1 kh1))"
    using y unfolding l1 kh1 by (cases kh) (simp_all add: top_key_def Cons.prems(3) high_ok_def)
  have z1: "rk_app l1 = 0" using Cons.prems(3) by (simp add: l1)
  have eqs: "l1\<lparr>rk_proto := q\<rparr> = l\<lparr>rk_proto := q\<rparr>" "low_top l1 kh1 q = low_top l kh q" for q
    unfolding l1 kh1 by (cases kh; simp add: low_top_def top_key_def)+
  have box: "same_box l1 (top_key l1 kh1) = same_box l (top_key l kh)"
    unfolding l1 kh1 by (cases kh) (simp_all add: fun_eq_iff same_box_def top_key_def)
  from Cons.IH[OF leg1 _ z1 hi1 Cons.prems(5)] one(1)
  show ?case
    using offered_append[OF off] settings_kept_trans[of h h1] unfolding eqs add_protos.simps res prod.case base_ok_def box list.map concat.simps by blast
qed

text \<open>
  The rules the theorem is about: they have identifiers, they name addresses, and the direction of a rule on a
  single address pair is that of the workload.
\<close>

definition exact_rule :: "dpi_policy_rule \<Rightarrow> bool" where
  "exact_rule r \<longleftrightarrow> dr_dport r = dr_dport_r r \<and> dr_sip r = dr_sip_r r \<and> dr_dip r = dr_dip_r r"

definition rules_ok :: "u32 \<Rightarrow> dpi_policy_rule list \<Rightarrow> bool" where
  "rules_ok wl rs \<longleftrightarrow> (\<forall>r\<in>set rs. dr_id r > 0 \<and> dr_fqdn r = [] \<and> (\<forall>a\<in>set (dr_app_rules r). ar_rule_id a > 0) \<and>
    (exact_rule r \<longrightarrow> (dr_ingress r \<longleftrightarrow> dr_sip r \<noteq> wl)))"

lemma cfg_rule_offers:
  assumes "picks pick" and "order < 0xffffffff" and "plain h" and "base_ok wl order bl bu h" and "partners wl h"
    and "\<forall>ing l u d. (l, u, d) \<in> clauses wl h ing \<longrightarrow> pd_order d < order" and "rules_ok wl [r]"
  shows "offered pick e fh wl h (cfg_rule pick e fh h order r) (dr_ingress r) (rule_clauses e order r) \<and>
    settings_kept h (cfg_rule pick e fh h order r) \<and> partners wl (cfg_rule pick e fh h order r) \<and>
    (\<exists>bl bu. base_ok wl order bl bu (cfg_rule pick e fh h order r))"
proof -
  let ?l = "\<lparr>rk_sip = dr_sip r, rk_dip = dr_dip r, rk_dport = dr_dport r, rk_proto = dr_proto r, rk_app = 0\<rparr>"
  let ?d = "\<lparr>pd_id = dr_id r, pd_action = dr_action r, pd_flags = POLICY_DESC_CHECK_VER, pd_hdl_ver = 0, pd_order = order\<rparr>"
  let ?kh = "if dr_dport r \<noteq> dr_dport_r r \<or> dr_sip r \<noteq> dr_sip_r r \<or> dr_dip r \<noteq> dr_dip_r r
    then Some (?l\<lparr>rk_dport := dr_dport_r r, rk_sip := dr_sip_r r, rk_dip := dr_dip_r r\<rparr>) else None"
  have t: "top_key ?l ?kh = \<lparr>rk_sip = dr_sip_r r, rk_dip = dr_dip_r r, rk_dport = dr_dport_r r, rk_proto = dr_proto r, rk_app = 0\<rparr>"
    by (auto simp: top_key_def)
  have "base_ok wl order ?l (top_key ?l ?kh) h"
    using assms(4,6) unfolding base_ok_def by (meson order.strict_implies_not_eq)
  then have leg: "leg_ok pick wl order h (dr_ingress r) ?l ?kh ?d"
    using assms(1-3,7) unfolding leg_ok_def t by (auto simp: rules_ok_def exact_rule_def)
  have hi: "high_ok ?d (rk_app (top_key ?l ?kh))"
    unfolding t by (simp add: high_ok_def)
  have ids: "\<forall>a\<in>set (dr_app_rules r). ar_rule_id a > 0"
    using assms(7) by (simp add: rules_ok_def)
  have z: "rk_app ?l = 0" by simp
  have eq: "cfg_rule pick e fh h order r = add_protos pick e fh h ?l ?kh (dr_app_rules r) (dir_of (dr_ingress r)) ?d (rule_protos e (dr_proto r))"
    by (simp add: cfg_rule_def Let_def dir_of_def)
  have cs: "concat (map (\<lambda>p. leg_clauses (?l\<lparr>rk_proto := p\<rparr>) (low_top ?l ?kh p) ?d (dr_app_rules r)) (rule_protos e (dr_proto r))) = rule_clauses e order r"
    unfolding low_top_def t rule_clauses_def by simp
  show ?thesis
    using protos_add[OF leg assms(5) z hi ids, of e fh "rule_protos e (dr_proto r)"] unfolding cs eq by blast
qed

lemma rule_list_first:
  assumes "picks pick" and "plain h" and "base_ok wl order bl bu h" and "partners wl h"
    and "unat order + length rs < 0xffffffff" and "rules_ok wl rs"
  shows "\<exists>h'. cfg_rule_list pick e fh h order rs = Some (fh, h', order + of_nat (length rs)) \<and> settings_kept h h' \<and>
    (\<exists>bl bu. base_ok wl (order + of_nat (length rs)) bl bu h') \<and>
    (\<forall>ing k. governs e fh wl h ing k \<longrightarrow> comb pick e h' ing k =
      (case comb pick e h ing k of Some d \<Rightarrow> Some d | None \<Rightarrow> first_of e ing (policy_clauses e ing order rs) k))"
  using assms
proof (induction rs arbitrary: h order bl bu)
  case Nil
  then show ?case by (auto simp: settings_kept_add split: option.split)
next
  case (Cons r rs)
  have r: "rules_ok wl [r]" "rules_ok wl rs" "dr_fqdn r = []"
    using Cons.prems(6) by (simp_all add: rules_ok_def)
  have o: "unat (order + 1) = unat order + 1"
    using Cons.prems(5) by (simp add: unat_word_ariths)
  have lt: "order < order + 1" "order + 1 < 0xffffffff"
    using Cons.prems(5) o by (simp_all add: word_less_nat_alt)
  have below: "\<forall>ing l u d. (l, u, d) \<in> clauses wl h ing \<longrightarrow> pd_order d < order + 1"
    using Cons.prems(3) lt(1) unfolding base_ok_def by (meson order.strict_trans1)
  then have "pd_order d \<le> order + 1 \<and> pd_order d \<noteq> order + 1" if "(l, u, d) \<in> clauses wl h ing" for ing l u d
    using that by fastforce
  then have base: "base_ok wl (order + 1) bl bu h"
    using Cons.prems(3) unfolding base_ok_def by blast
  let ?h = "cfg_rule pick e fh h (order + 1) r"
  obtain bl' bu' where one: "offered pick e fh wl h ?h (dr_ingress r) (rule_clauses e (order + 1) r)" "settings_kept h ?h" "partners wl ?h"
    "base_ok wl (order + 1) bl' bu' ?h"
    using cfg_rule_offers[OF Cons.prems(1) lt(2) Cons.prems(2) base Cons.prems(4) below r(1), where e = e and fh = fh] by blast
  have len: "unat (order + 1) + length rs < 0xffffffff" using Cons.prems(5) o by simp
  from Cons.IH[OF Cons.prems(1) plain_kept[OF Cons.prems(2) one(2)] one(4,3) len r(2)]
  obtain h' where h': "cfg_rule_list pick e fh ?h (order + 1) rs = Some (fh, h', order + 1 + of_nat (length rs))" "settings_kept ?h h'"
    "\<exists>bl bu. base_ok wl (order + 1 + of_nat (length rs)) bl bu h'"
    "\<And>ing k. governs e fh wl ?h ing k \<Longrightarrow> comb pick e h' ing k =
      (case comb pick e ?h ing k of Some d \<Rightarrow> Some d | None \<Rightarrow> first_of e ing (policy_clauses e ing (order + 1) rs) k)"
    by blast
  have step: "cfg_rule_list pick e fh h order (r # rs) = Some (fh, h', order + of_nat (length (r # rs)))"
    using h'(1) by (simp add: rule_fqdn_def r(3) add.assoc)
  have "comb pick e h' ing k = (case comb pick e h ing k of Some d \<Rightarrow> Some d
      | None \<Rightarrow> first_of e ing (policy_clauses e ing order (r # rs)) k)" if g: "governs e fh wl h ing k" for ing k
  proof -
    have g': "governs e fh wl ?h ing k" using g one(2) by (simp add: settings_kept_def)
    have "comb pick e ?h ing k = (case comb pick e h ing k of Some d \<Rightarrow> Some d
        | None \<Rightarrow> if ing = dr_ingress r then first_of e (dr_ingress r) (rule_clauses e (order + 1) r) k else None)"
      using one(1) g unfolding offered_def by blast
    then show ?thesis
      unfolding h'(4)[OF g'] by (auto simp: first_of_append split: option.split)
  qed
  with step settings_kept_trans[OF one(2) h'(2)] h'(3) show ?case
    by (auto simp: add.assoc)
qed

section \<open>The policy of a workload\<close>

text \<open>The answer where no clause matches: ICMP passes when it is not policed, everything else gets the default action.\<close>

definition icmp_item :: dpi_range_rule_item where
  "icmp_item = \<lparr>ri_desc = \<lparr>pd_id = 0, pd_action = DP_POLICY_ACTION_ALLOW, pd_flags = 0, pd_hdl_ver = 0, pd_order = 0xffffffff\<rparr>,
    ri_key_l = \<lparr>rk_sip = 0, rk_dip = 0, rk_dport = 0, rk_proto = DP_IPPROTO_ICMP, rk_app = 0\<rparr>,
    ri_key_h = \<lparr>rk_sip = 0xffffffff, rk_dip = 0xffffffff, rk_dport = 0, rk_proto = DP_IPPROTO_ICMP, rk_app = 0\<rparr>\<rparr>"

definition none_key :: "u16 \<Rightarrow> dpi_range_rule_key" where
  "none_key proto = \<lparr>rr_ip = 0, rr_proto = proto, rr_flag = 0\<rparr>"

definition default_desc :: "dp_env \<Rightarrow> int \<Rightarrow> dpi_rule_key \<Rightarrow> dpi_policy_desc" where
  "default_desc e def_action k =
    (if \<not> enable_icmp_policy e \<and> rk_proto k = DP_IPPROTO_ICMP \<and> rk_dport k = 0 \<and> rk_app k = 0
     then \<lparr>pd_id = 0, pd_action = DP_POLICY_ACTION_ALLOW, pd_flags = 0, pd_hdl_ver = 0, pd_order = 0xffffffff\<rparr>
     else \<lparr>pd_id = 0, pd_action = word_of_int def_action, pd_flags = POLICY_DESC_CHECK_VER, pd_hdl_ver = 0, pd_order = 0xffffffff\<rparr>)"

definition with_icmp :: "dpi_policy_hdl \<Rightarrow> dpi_policy_hdl" where
  "with_icmp h = h\<lparr>ph_range_policy_map := gput (none_key DP_IPPROTO_ICMP) [icmp_item] (ph_range_policy_map h)\<rparr>"

lemma add_default_policy:
  assumes "gget (ph_range_policy_map h) (none_key DP_IPPROTO_ICMP) = None"
  shows "dpi_add_default_policy pick e fh h = with_icmp h"
  using assms
  by (simp add: dpi_add_default_policy_def dpi_rule_add_def dpi_rule_add_one_def dpi_range_rule_add_def get_range_key_def
      Let_def none_key_def with_icmp_def icmp_item_def)

lemma with_icmp_lk [simp]:
  "policy_map_lookup pick (with_icmp h) k = policy_map_lookup pick h k"
  "items_of (with_icmp h) (range_key ing k) = items_of h (range_key ing k)"
  "ph_policy_map (with_icmp h) = ph_policy_map h" "ph_apply_dir (with_icmp h) = ph_apply_dir h"
  "ph_def_action (with_icmp h) = ph_def_action h" "ph_flag (with_icmp h) = ph_flag h" "ph_ver (with_icmp h) = ph_ver h"
  "ph_ref_cnt (with_icmp h) = ph_ref_cnt h"
  using range_key_flag[of ing k DP_IPPROTO_ICMP] by (simp_all add: with_icmp_def policy_map_lookup_def items_of_def none_key_def)

lemma with_icmp_clauses [simp]:
  "clauses wl (with_icmp h) ing = clauses wl h ing" "lists_ok (with_icmp h) = lists_ok h" "comb pick e (with_icmp h) = comb pick e h"
proof -
  have l: "lk pick (with_icmp h) = lk pick h"
    unfolding fun_eq_iff lk_items with_icmp_lk by simp
  show "comb pick e (with_icmp h) = comb pick e h"
    unfolding fun_eq_iff comb_def l by simp
qed (simp_all add: clauses_def lists_ok_def)

lemma with_icmp_base [simp]: "base_ok wl order bl bu (with_icmp h) = base_ok wl order bl bu h"
  by (simp add: base_ok_def)

lemma fallback_icmp:
  assumes "\<And>proto. gget (ph_range_policy_map h) (none_key proto) = None"
  shows "fallback h k = default_desc (e\<lparr>enable_icmp_policy := True\<rparr>) (ph_def_action h) k"
    "fallback (with_icmp h) k = default_desc (e\<lparr>enable_icmp_policy := False\<rparr>) (ph_def_action h) k"
proof -
  have ff: "ntohl 0xffffffff = 0xffffffff" "ntohl 0 = 0"
    by (simp_all add: ntohl_def)
  have hit: "rule_key_in_range icmp_item k \<longleftrightarrow> rk_dport k = 0 \<and> rk_app k = 0"
    by (auto simp: rule_key_in_range_def icmp_item_def ff)
  show "fallback h k = default_desc (e\<lparr>enable_icmp_policy := True\<rparr>) (ph_def_action h) k"
    using assms by (simp add: fallback_def none_key_def default_desc_def)
  show "fallback (with_icmp h) k = default_desc (e\<lparr>enable_icmp_policy := False\<rparr>) (ph_def_action h) k"
    using assms hit by (auto simp: fallback_def none_key_def default_desc_def with_icmp_def dpi_range_rule_match_def)
      (simp_all add: icmp_item_def)
qed

lemma picks_nil: "picks pick \<Longrightarrow> pick [] = None"
  unfolding picks_def by blast

lemma init_tables:
  assumes "ph_policy_map h = []" and "ph_range_policy_map h = []" and "ph_flag h AND POLICY_HDL_FLAG_FQDN = 0"
  shows "plain h" "base_ok wl 0 bl bu h" "partners wl h"
    "picks pick \<Longrightarrow> comb pick e h ing k = None"
proof -
  have i: "items_of h key = []" for key by (simp add: items_of_def assms(2))
  have c: "clauses wl h ing = {}" for ing wl by (simp add: clauses_def assms(1) i)
  show "base_ok wl 0 bl bu h" "partners wl h"
    using c i by (simp_all add: base_ok_def partners_def lists_ok_def)
  show "plain h" by (simp add: plain_def fallback_def assms(2,3))
  have "picks pick \<Longrightarrow> lk pick h ing k = None" for k
    unfolding lk_items policy_map_lookup_def assms(1) i by (simp add: picks_nil dpi_range_rule_match_def)
  then show x: "picks pick \<Longrightarrow> comb pick e h ing k = None"
    by (simp add: comb_None)
qed

lemma compiled_first:
  assumes "picks pick" and "rules_ok wl rs" and "length rs < 0xffffffff"
    and "ph_policy_map h = []" and "ph_range_policy_map h = []" and "ph_flag h = 0"
    and "governed e fh (ph_apply_dir h) (ph_def_action h) wl ing k" and "\<not> is_chk_nbe p"
  shows "\<exists>h'. cfg_rule_list pick e fh h 0 rs = Some (fh, h', of_nat (length rs)) \<and>
    dpi_policy_lookup_by_key pick e fh (Some (finish_rules pick e MSG_END fh h')) k ing desc p =
      (let d = (case first_of e ing (policy_clauses e ing 0 rs) k of Some d \<Rightarrow> d | None \<Rightarrow> default_desc e (ph_def_action h) k) in
       d\<lparr>pd_flags := pd_flags d OR (if external e ing k then POLICY_DESC_EXTERNAL else POLICY_DESC_INTERNAL), pd_hdl_ver := ph_ver h\<rparr>)"
proof -
  have f: "ph_flag h AND POLICY_HDL_FLAG_FQDN = 0" by (simp add: assms(6))
  note init = init_tables[OF assms(4,5) f]
  have n: "unat (0 :: u32) + length rs < 0xffffffff" using assms(3) by simp
  from rule_list_first[OF assms(1) init(1,2,3) n assms(2), where e = e and fh = fh]
  obtain h' bl bu where h': "cfg_rule_list pick e fh h 0 rs = Some (fh, h', of_nat (length rs))" "settings_kept h h'"
    "base_ok wl (of_nat (length rs)) bl bu h'"
    "comb pick e h' ing k = first_of e ing (policy_clauses e ing 0 rs) k"
    using assms(7) init(4)[OF assms(1)] by auto
  let ?H = "finish_rules pick e MSG_END fh h'"
  have none: "gget (ph_range_policy_map h') (none_key proto) = None" for proto
    using h'(2) assms(5) by (simp add: settings_kept_def none_key_def)
  have H: "?H = (if enable_icmp_policy e then h' else with_icmp h')"
    using add_default_policy[OF none] by (simp add: finish_rules_def MSG_END_def)
  have fb: "fallback ?H k = default_desc e (ph_def_action h) k" for k
    using fallback_icmp[OF none, where e = e and k = k] h'(2) unfolding H by (cases "enable_icmp_policy e") (simp_all add: settings_kept_def default_desc_def)
  have H': "base_ok wl (of_nat (length rs)) bl bu ?H" "comb pick e ?H = comb pick e h'" "ph_apply_dir ?H = ph_apply_dir h"
    "ph_def_action ?H = ph_def_action h" "ph_flag ?H = 0" "ph_ver ?H = ph_ver h"
    using h' assms(6) unfolding H settings_kept_def by simp_all
  have pl: "plain ?H"
    unfolding plain_def fb H'(5) by (simp add: default_desc_def)
  have lt: "(of_nat (length rs) :: u32) < 0xffffffff"
    using assms(3) by (simp add: word_less_nat_alt unat_of_nat take_bit_nat_eq_self)
  have "governs e fh wl ?H ing k" using assms(7) by (simp add: H')
  from lookup_comb[OF assms(1) H'(1) lt pl this assms(8)] h'(1,4) show ?thesis
    unfolding H'(2,6) fb by simp
qed


definition example_env :: dp_env where
  "example_env = \<lparr>internal_subnet4 = Some [(0x0000000a, 0x000000ff)], specialip_subnet4 = None, policy_addr = None,
    disable_net_policy = False, detect_unmanaged_wl = False, strict_group_mode = False, enable_icmp_policy = False, xff_enabled = False\<rparr>"

definition example_rules :: "dpi_policy_rule list" where
  "example_rules =
    [\<lparr>dr_id = 5, dr_sip = 0, dr_sip_r = 0, dr_dip = 0x0100000a, dr_dip_r = 0x0100000a, dr_dport = 80, dr_dport_r = 80, dr_proto = 6,
      dr_action = 2, dr_ingress = True, dr_vh = False, dr_fqdn = [], dr_app_rules = []\<rparr>,
     \<lparr>dr_id = 6, dr_sip = 0, dr_sip_r = 0xffffffff, dr_dip = 0x0100000a, dr_dip_r = 0x0100000a, dr_dport = 0, dr_dport_r = 0xffff,
      dr_proto = 0, dr_action = 7, dr_ingress = True, dr_vh = False, dr_fqdn = [], dr_app_rules = []\<rparr>]"

definition first_pick :: "dpi_policy_desc list \<Rightarrow> dpi_policy_desc option" where
  "first_pick l = (case l of [] \<Rightarrow> None | d # _ \<Rightarrow> Some d)"

lemma first_pick_picks: "picks first_pick"
  by (auto simp: picks_def first_pick_def split: list.splits)

definition example_key :: "u16 \<Rightarrow> dpi_rule_key" where
  "example_key dport = \<lparr>rk_sip = 0x08080808, rk_dip = 0x0100000a, rk_dport = dport, rk_proto = 6, rk_app = 0\<rparr>"

lemma example_external: "external example_env True (example_key p)" "ntohl 0x08080808 = 0x08080808" "ntohl 0x0100000a = 0x0a000001"
  "ntohl 0 = 0" "ntohl 0xffffffff = 0xffffffff" "enable_icmp_policy example_env = False"
  by (simp_all add: external_def peer_def example_key_def example_env_def dpi_is_ip4_internal_def IS_IN_LOOPBACK_def ntohl_def htonl_def)

lemma example_governed: "governed example_env fh 0 7 0x0100000a True (example_key p)"
proof -
  have "to_tables example_env fh 0 7 True k" if "k = example_key p \<or> k = peer0 True (example_key p)" for k
    using that
    by (auto simp: to_tables_def example_key_def peer_def peer0_def Let_def example_env_def IS_IN_LINKLOCAL_def
        dpi_is_ip4_internal_def dpi_ip4_iptype_def DP_IPTYPE_NONE_def DP_IPTYPE_UWLIP_def ntohl_def htonl_def IS_IN_LOOPBACK_def)
  then show ?thesis
    by (simp add: governed_def peer0_def) (simp add: example_key_def)
qed

lemma example_first:
  "map_option pd_id (first_of example_env True (policy_clauses example_env True 0 example_rules) (example_key 80)) = Some 5"
  "map_option pd_id (first_of example_env True (policy_clauses example_env True 0 example_rules) (example_key 443)) = Some 6"
  by (simp_all add: example_rules_def rule_clauses_def rule_protos_def leg_clauses_def chits_def example_external
      action_defs hits_def range_key_def in_box_def peer0_def DP_IPPROTO_TCP_def DP_IPPROTO_UDP_def)
    (simp_all add: example_key_def example_external)


text \<open>
  The compiler must see the same address classes as the packets.  It runs on the control thread, which reads the copy of
  the subnets that the first packet thread took with its last packet.  Before the first packet every address counts
  as internal, the compile-time lookup takes a shortcut, and a later exact rule overrides an earlier range rule.
\<close>

definition shadow_rules :: "dpi_policy_rule list" where
  "shadow_rules =
    [\<lparr>dr_id = 5, dr_sip = 0x08, dr_sip_r = 0xffffff08, dr_dip = 0x0100000a, dr_dip_r = 0x0100000a, dr_dport = 0, dr_dport_r = 0xffff, dr_proto = 6,
      dr_action = 7, dr_ingress = True, dr_vh = False, dr_fqdn = [], dr_app_rules = []\<rparr>,
     \<lparr>dr_id = 6, dr_sip = 0x08080808, dr_sip_r = 0x08080808, dr_dip = 0x0100000a, dr_dip_r = 0x0100000a, dr_dport = 80, dr_dport_r = 80,
      dr_proto = 6, dr_action = 2, dr_ingress = True, dr_vh = False, dr_fqdn = [], dr_app_rules = []\<rparr>]"

lemma stale_subnets_reorder_rules:
  "map_option (\<lambda>(fh, h, n). pd_id (dpi_policy_lookup_by_key first_pick example_env fh (Some h) (example_key 80) True desc0 None))
    (cfg_rule_list first_pick (example_env\<lparr>internal_subnet4 := None\<rparr>) example_names ((dpi_policy_hdl_init 7)\<lparr>ph_apply_dir := 1\<rparr>) 0 shadow_rules) = Some 6"
  "map_option (\<lambda>(fh, h, n). pd_id (dpi_policy_lookup_by_key first_pick example_env fh (Some h) (example_key 80) True desc0 None))
    (cfg_rule_list first_pick example_env example_names ((dpi_policy_hdl_init 7)\<lparr>ph_apply_dir := 1\<rparr>) 0 shadow_rules) = Some 5"
  by code_simp+

end
