(* ===== verification/DpPolicyState.thy ===== *)
theory DpPolicyState
  imports DpPolicyMatch
begin

text \<open>
  The life of policy handles: which handles are allocated, who refers to them, and the versions by which sessions notice a
  change.  The invariant covers every sequence of policy messages, complete or not, and of endpoints
  that come and go.
\<close>

unbundle bit_operations_syntax

section \<open>Compiling keeps the counters\<close>

definition frame :: "dpi_policy_hdl \<Rightarrow> dpi_policy_hdl \<Rightarrow> bool" where
  "frame h h' \<longleftrightarrow> ph_ver h' = ph_ver h \<and> ph_ref_cnt h' = ph_ref_cnt h"

lemma frame_refl [simp]: "frame h h"
  by (simp add: frame_def)

lemma frame_trans: "frame h h1 \<Longrightarrow> frame h1 h2 \<Longrightarrow> frame h h2"
  by (simp add: frame_def)

lemma frame_add_one: "dpi_rule_add_one pick e fh h l u dir d E = (r, h', E') \<Longrightarrow> frame h h'"
  by (auto simp: dpi_rule_add_one_def dpi_range_rule_add_def Let_def frame_def split: option.splits if_splits)

lemma frame_app_rule: "dpi_add_app_rule pick e fh h l u a dir d E = (r, h', E') \<Longrightarrow> frame h h'"
  by (auto simp: dpi_add_app_rule_def Let_def case_prod_unfold dest: frame_add_one)

lemma frame_loop: "app_rules_loop pick e fh h l u as dir d E r = (r', h') \<Longrightarrow> frame h h'"
proof (induction as arbitrary: h l u E r)
  case (Cons a as)
  then show ?case
    by (auto split: prod.splits dest!: frame_app_rule intro: frame_trans)
qed simp

lemma frame_rule_add:
  assumes "dpi_rule_add pick e fh h l u apps dir d = (r, h', l', u')"
  shows "frame h h'"
proof -
  obtain ret h1 E where one: "dpi_rule_add_one pick e fh h l u dir d desc0 = (ret, h1, E)"
    by (metis prod_cases3)
  note f1 = frame_add_one[OF one]
  show ?thesis
    using assms unfolding dpi_rule_add_def one prod.case Let_def
    by (auto split: prod.splits if_splits dest!: frame_app_rule frame_loop intro: frame_trans[OF f1] frame_trans simp: f1)
qed

lemma frame_protos: "frame h (add_protos pick e fh h l u apps dir d ps)"
proof (induction ps arbitrary: h l u)
  case (Cons p ps)
  show ?case
    by (auto split: prod.splits dest!: frame_rule_add intro: frame_trans Cons)
qed simp

lemma frame_cfg_rule: "frame h (cfg_rule pick e fh h order r)"
  by (simp add: cfg_rule_def Let_def frame_protos)

lemma frame_finish: "frame h (finish_rules pick e flag fh h)"
proof -
  have "frame h (fst (snd (dpi_rule_add pick e fh h l u [] DIR_NONE d)))" for l u d
    by (metis frame_rule_add prod.exhaust_sel)
  then show ?thesis
    by (simp add: finish_rules_def dpi_add_default_policy_def Let_def)
qed

lemma rule_list_total:
  assumes "fqdn_inv fh"
  shows "\<exists>fh' h' order'. cfg_rule_list pick e fh h order rs = Some (fh', h', order') \<and> fqdn_inv fh' \<and> frame h h'"
  using assms
proof (induction rs arbitrary: fh h order)
  case (Cons r rs)
  have "\<exists>r' fh1. rule_fqdn r fh = Some (r', fh1) \<and> fqdn_inv fh1"
  proof (cases "dr_fqdn r = []")
    case True
    then show ?thesis using Cons.prems by (simp add: rule_fqdn_def)
  next
    case False
    obtain code fh1 where "config_fqdn_ipv4_mapping (dr_fqdn r) (if dr_ingress r then dr_sip r else dr_dip r) (dr_vh r) fh = Some (code, fh1)" "fqdn_inv fh1"
      using inv_config[OF Cons.prems, of "dr_fqdn r" "if dr_ingress r then dr_sip r else dr_dip r" "dr_vh r"] by blast
    with False show ?thesis
      by (cases "code = - 1") (simp_all add: rule_fqdn_def)
  qed
  then obtain r' fh1 where f: "rule_fqdn r fh = Some (r', fh1)" "fqdn_inv fh1" by blast
  show ?case
  proof (cases r')
    case None
    then show ?thesis using Cons.IH[OF f(2), of h order] f(1) by simp
  next
    case (Some r1)
    let ?h = "if dr_fqdn r \<noteq> [] then h\<lparr>ph_flag := ph_flag h OR POLICY_HDL_FLAG_FQDN\<rparr> else h"
    have "frame h ?h" by (simp add: frame_def)
    then have fr: "frame h (cfg_rule pick e fh1 ?h (order + 1) r1)"
      using frame_cfg_rule frame_trans by blast
    from Cons.IH[OF f(2), of "cfg_rule pick e fh1 ?h (order + 1) r1" "order + 1"]
    show ?thesis
      using f(1) Some frame_trans[OF fr] by (auto simp: Let_def)
  qed
qed simp

section \<open>References\<close>

definition users :: "(u64, nat option \<times> u16) gomap \<Rightarrow> nat \<Rightarrow> u64 set" where
  "users eps n = {m. \<exists>v. gget eps m = Some (Some n, v)}"

lemma unat_eq_zero: "unat (x :: u16) = 0 \<longleftrightarrow> x = 0"
  by (metis unsigned_0 word_unat_eq_iff)

lemma hdl_count_id: "\<exists>c. h = h\<lparr>ph_ref_cnt := c\<rparr>" for h :: dpi_policy_hdl
  by (rule exI[of _ "ph_ref_cnt h"]) simp

lemma users_put: "users (gput m (hdl, v) eps) n = (if hdl = Some n then insert m (users eps n) else users eps n - {m})"
  by (auto simp: users_def split: if_splits)

lemma users_del: "users (gdel m eps) n = users eps n - {m}"
  by (auto simp: users_def split: if_splits)

lemma finite_users: "finite (users eps n)"
proof -
  have "users eps n \<subseteq> dom (gget eps)" by (auto simp: users_def)
  then show ?thesis by (rule finite_subset) (rule finite_dom_map_of)
qed

text \<open>
  The counter of a live handle is the number of endpoints that refer to it, every reference is live and carries the
  version of the handle, and a live handle is referred to by an endpoint or is the one under construction.  While a
  reference is dropped, the handle \<open>x\<close> has one reference more than endpoints.
\<close>

definition refs_off :: "nat option \<Rightarrow> policy_ctl \<Rightarrow> bool" where
  "refs_off x s \<longleftrightarrow>
    (\<forall>n h. gget (po_heap s) n = Some h \<longrightarrow>
      unat (ph_ref_cnt h) = card (users (po_eps s) n) + (if x = Some n then 1 else 0) \<and> ph_ver h \<noteq> 0 \<and> n < po_next s \<and>
      (users (po_eps s) n \<noteq> {} \<or> po_hdl s = Some n \<or> x = Some n)) \<and>
    (\<forall>m n v. gget (po_eps s) m = Some (Some n, v) \<longrightarrow> (\<exists>h. gget (po_heap s) n = Some h \<and> ph_ver h = v)) \<and>
    (\<forall>m v. gget (po_eps s) m = Some (None, v) \<longrightarrow> v = 0) \<and>
    (\<forall>n. po_hdl s = Some n \<longrightarrow> gget (po_heap s) n \<noteq> None) \<and>
    fqdn_inv (po_fqdn s) \<and> card (dom (gget (po_eps s))) < 65535"

abbreviation refs_ok :: "policy_ctl \<Rightarrow> bool" where
  "refs_ok \<equiv> refs_off None"

lemma refs_offD:
  assumes "refs_off x s"
  shows "gget (po_heap s) n = Some h \<Longrightarrow> unat (ph_ref_cnt h) = card (users (po_eps s) n) + (if x = Some n then 1 else 0)"
    "gget (po_heap s) n = Some h \<Longrightarrow> ph_ver h \<noteq> 0" "gget (po_heap s) n = Some h \<Longrightarrow> n < po_next s"
    "gget (po_heap s) n = Some h \<Longrightarrow> users (po_eps s) n \<noteq> {} \<or> po_hdl s = Some n \<or> x = Some n"
    "gget (po_eps s) m = Some (Some n, v) \<Longrightarrow> \<exists>h. gget (po_heap s) n = Some h \<and> ph_ver h = v"
    "gget (po_eps s) m = Some (None, v) \<Longrightarrow> v = 0"
    "po_hdl s = Some n \<Longrightarrow> gget (po_heap s) n \<noteq> None" "fqdn_inv (po_fqdn s)" "card (dom (gget (po_eps s))) < 65535"
  using assms unfolding refs_off_def by blast+

lemma refs_offI:
  assumes "\<And>n h. gget (po_heap s) n = Some h \<Longrightarrow> unat (ph_ref_cnt h) = card (users (po_eps s) n) + (if x = Some n then 1 else 0)"
    and "\<And>n h. gget (po_heap s) n = Some h \<Longrightarrow> ph_ver h \<noteq> 0" and "\<And>n h. gget (po_heap s) n = Some h \<Longrightarrow> n < po_next s"
    and "\<And>n h. gget (po_heap s) n = Some h \<Longrightarrow> users (po_eps s) n \<noteq> {} \<or> po_hdl s = Some n \<or> x = Some n"
    and "\<And>m n v. gget (po_eps s) m = Some (Some n, v) \<Longrightarrow> \<exists>h. gget (po_heap s) n = Some h \<and> ph_ver h = v"
    and "\<And>m v. gget (po_eps s) m = Some (None, v) \<Longrightarrow> v = 0"
    and "\<And>n. po_hdl s = Some n \<Longrightarrow> gget (po_heap s) n \<noteq> None" and "fqdn_inv (po_fqdn s)" and "card (dom (gget (po_eps s))) < 65535"
  shows "refs_off x s"
  using assms unfolding refs_off_def by blast

definition handles_ok :: "policy_ctl \<Rightarrow> bool" where
  "handles_ok s \<longleftrightarrow> refs_ok s \<and> (\<forall>n. po_hdl s = Some n \<longrightarrow> users (po_eps s) n = {})"

lemma card_users:
  assumes "refs_off x s"
  shows "card (users (po_eps s) n) < 65535"
proof -
  have "card (users (po_eps s) n) \<le> card (dom (gget (po_eps s)))"
    by (rule card_mono) (auto simp: users_def finite_dom_map_of)
  with refs_offD(9)[OF assms] show ?thesis by simp
qed

lemma drop_ref:
  assumes off: "refs_off (Some n) s" and h: "gget (po_heap s) n = Some h" and st: "po_hdl s = Some n \<Longrightarrow> users (po_eps s) n \<noteq> {}"
  shows "\<exists>s'. dpi_policy_hdl_destroy n s = Some s' \<and> refs_ok s' \<and> po_hdl s' = po_hdl s \<and> po_eps s' = po_eps s \<and>
    (\<forall>k. k \<noteq> n \<longrightarrow> gget (po_heap s') k = gget (po_heap s) k) \<and>
    (users (po_eps s) n \<noteq> {} \<longrightarrow> gget (po_heap s') n = Some (h\<lparr>ph_ref_cnt := ph_ref_cnt h - 1\<rparr>)) \<and>
    po_ver s' = po_ver s \<and> po_order s' = po_order s"
proof -
  note R = refs_offD[OF off]
  have c: "unat (ph_ref_cnt h) = card (users (po_eps s) n) + 1" using R(1)[OF h] by simp
  have gt: "ph_ref_cnt h > 1 \<longleftrightarrow> users (po_eps s) n \<noteq> {}"
    using c finite_users by (auto simp: word_less_nat_alt card_gt_0_iff)
  show ?thesis
  proof (cases "users (po_eps s) n = {}")
    case False
    let ?h = "h\<lparr>ph_ref_cnt := ph_ref_cnt h - 1\<rparr>"
    let ?s = "s\<lparr>po_heap := gput n ?h (po_heap s)\<rparr>"
    have r: "unat (ph_ref_cnt h - 1) = card (users (po_eps s) n)"
      using c unat_sub[of 1 "ph_ref_cnt h"] gt False by (simp add: order.strict_implies_order)
    have "refs_ok ?s"
    proof (rule refs_offI, goal_cases)
      case (4 k h')
      then show ?case using R(4)[of k] False by (cases "k = n") auto
    next
      case (5 m k v)
      then show ?case using R(5)[of m k v] h by (auto split: if_splits)
    qed (use R r False h in \<open>auto split: if_splits\<close>)
    then show ?thesis
      using gt False h by (simp add: dpi_policy_hdl_destroy_def)
  next
    case True
    let ?s = "s\<lparr>po_heap := gdel n (po_heap s)\<rparr>"
    have no: "gget (po_eps s) m \<noteq> Some (Some n, v)" for m v
      using True by (auto simp: users_def)
    have "refs_ok ?s"
    proof (rule refs_offI, goal_cases)
      case (4 k h')
      then show ?case using R(4)[of k h'] by (auto split: if_splits)
    next
      case (5 m k v)
      then show ?case using R(5)[of m k v] no by (auto split: if_splits)
    qed (use R True st in \<open>auto split: if_splits\<close>)
    then show ?thesis
      using gt True h by (simp add: dpi_policy_hdl_destroy_def)
  qed
qed

text \<open>The new reference of an endpoint is taken before the old one is dropped.\<close>

definition ep_ver :: "policy_ctl \<Rightarrow> u16" where
  "ep_ver s = (case po_hdl s of None \<Rightarrow> 0 | Some n \<Rightarrow> ph_ver (the (gget (po_heap s) n)))"

definition take_ref :: "u64 \<Rightarrow> policy_ctl \<Rightarrow> policy_ctl" where
  "take_ref m s = s\<lparr>
    po_heap := (case po_hdl s of None \<Rightarrow> po_heap s
      | Some n \<Rightarrow> let h = the (gget (po_heap s) n) in gput n (h\<lparr>ph_ref_cnt := ph_ref_cnt h + 1\<rparr>) (po_heap s)),
    po_eps := gput m (po_hdl s, ep_ver s) (po_eps s)\<rparr>"

lemma take_ref_off:
  assumes ok: "refs_ok s" and m: "gget (po_eps s) m = Some (old, v0)"
  shows "refs_off old (take_ref m s)"
proof -
  note R = refs_offD[OF ok]
  let ?e = "gput m (po_hdl s, ep_ver s) (po_eps s)"
  have m_old: "m \<in> users (po_eps s) n \<longleftrightarrow> old = Some n" for n
    using m by (auto simp: users_def)
  have dom: "dom (gget ?e) = dom (gget (po_eps s))"
    using m by (auto split: if_splits)
  have cnt: "card (users ?e n) + (if old = Some n then 1 else 0) = card (users (po_eps s) n) + (if po_hdl s = Some n then 1 else 0)" for n
  proof (cases "old = Some n")
    case True
    then have "m \<in> users (po_eps s) n" using m_old by simp
    with True card_Suc_Diff1[OF finite_users this] show ?thesis
      unfolding users_put by (cases "po_hdl s = Some n") (simp_all only: insert_absorb if_True if_False, simp_all)
  next
    case False
    then have "m \<notin> users (po_eps s) n" using m_old by simp
    with False show ?thesis
      unfolding users_put by (simp add: finite_users)
  qed
  have room: "card (users (po_eps s) n) + 1 < 2 ^ 16" for n
    using card_users[OF ok, of n] by simp
  have heap: "gget (po_heap (take_ref m s)) n = (if po_hdl s = Some n
      then map_option (\<lambda>h. h\<lparr>ph_ref_cnt := ph_ref_cnt h + 1\<rparr>) (gget (po_heap s) n) else gget (po_heap s) n)" for n
    using R(7) by (auto simp: take_ref_def Let_def split: option.split)
  have [simp]: "po_eps (take_ref m s) = ?e" "po_hdl (take_ref m s) = po_hdl s" "po_next (take_ref m s) = po_next s" "po_fqdn (take_ref m s) = po_fqdn s"
    by (simp_all add: take_ref_def)
  show ?thesis
  proof (rule refs_offI, goal_cases)
    case (1 n h)
    then show ?case
      using R(1)[of n] cnt[of n] room[of n] unfolding heap by (auto simp: unat_word_ariths split: if_splits)
  next
    case (4 n h)
    then show ?case
      using R(4)[of n] m_old[of n] unfolding heap by (auto simp: users_put split: if_splits)
  next
    case (5 m' n v)
    then show ?case
      using R(5)[of m' n v] R(7)[of n] unfolding heap by (auto simp: ep_ver_def split: if_splits)
  next
    case (6 m' v)
    then show ?case using R(6)[of m' v] by (auto simp: ep_ver_def split: if_splits option.splits)
  next
    case (2 n h)
    then show ?case using R(2)[of n] unfolding heap by (auto split: if_splits)
  next
    case (3 n h)
    then show ?case using R(3)[of n] unfolding heap by (auto split: if_splits)
  next
    case (7 n)
    then show ?case using R(7)[of n] unfolding heap by (auto split: if_splits)
  next
    case 9
    show ?case using R(9) dom by simp
  qed (use R(8) in simp)
qed

lemma update_handle:
  assumes ok: "refs_ok s"
  shows "\<exists>r s'. dpi_policy_update m (po_hdl s) s = Some (r, s') \<and> refs_ok s' \<and> po_hdl s' = po_hdl s \<and>
    (\<forall>m'. gget (po_eps s') m' = (if m' = m \<and> gget (po_eps s) m \<noteq> None then Some (po_hdl s, ep_ver s) else gget (po_eps s) m')) \<and>
    (\<forall>n h. po_hdl s = Some n \<longrightarrow> gget (po_heap s) n = Some h \<longrightarrow> (\<exists>c. gget (po_heap s') n = Some (h\<lparr>ph_ref_cnt := c\<rparr>)))"
proof (cases "gget (po_eps s) m")
  case None
  with ok show ?thesis
    by (auto simp: dpi_policy_update_def hdl_count_id)
next
  case (Some ov)
  obtain old v0 where ov: "ov = (old, v0)" by (cases ov)
  note R = refs_offD[OF ok]
  let ?t = "take_ref m s"
  have off: "refs_off old ?t" using take_ref_off[OF ok] Some ov by simp
  have eps: "po_eps ?t = gput m (po_hdl s, ep_ver s) (po_eps s)" "po_hdl ?t = po_hdl s"
    by (simp_all add: take_ref_def)
  have heap: "gget (po_heap ?t) n = Some (h\<lparr>ph_ref_cnt := ph_ref_cnt h + 1\<rparr>)" if "po_hdl s = Some n" "gget (po_heap s) n = Some h" for n h
    using that by (simp add: take_ref_def Let_def)
  have eq: "dpi_policy_update m (po_hdl s) s = map_option (Pair 0) (case old of None \<Rightarrow> Some ?t | Some o' \<Rightarrow> dpi_policy_hdl_destroy o' ?t)"
    using Some ov R(7) by (cases "po_hdl s"; cases old) (auto simp: dpi_policy_update_def take_ref_def ep_ver_def Let_def)
  show ?thesis
  proof (cases old)
    case None
    then show ?thesis
      using eq off eps heap Some by auto
  next
    case old: (Some n)
    from R(5)[of m n v0] Some ov old obtain h where "gget (po_heap s) n = Some h" by auto
    then obtain h' where h': "gget (po_heap ?t) n = Some h'"
      using heap by (cases "po_hdl s"; cases "po_hdl s = Some n") (auto simp: take_ref_def Let_def)
    have st: "users (po_eps ?t) n \<noteq> {}" if "po_hdl ?t = Some n"
      using that by (auto simp: eps users_put)
    from drop_ref[OF off[unfolded old] h' st] obtain s' where s': "dpi_policy_hdl_destroy n ?t = Some s'" "refs_ok s'"
      "po_hdl s' = po_hdl ?t" "po_eps s' = po_eps ?t" "\<forall>k. k \<noteq> n \<longrightarrow> gget (po_heap s') k = gget (po_heap ?t) k"
      "users (po_eps ?t) n \<noteq> {} \<longrightarrow> gget (po_heap s') n = Some (h'\<lparr>ph_ref_cnt := ph_ref_cnt h' - 1\<rparr>)"
      by blast
    have keep: "\<exists>c. gget (po_heap s') k = Some (hh\<lparr>ph_ref_cnt := c\<rparr>)" if "po_hdl s = Some k" "gget (po_heap s) k = Some hh" for k hh
    proof (cases "k = n")
      case True
      then show ?thesis using s'(6) st h' heap[OF that] that eps by (auto simp: hdl_count_id)
    next
      case False
      then show ?thesis using s'(5) heap[OF that] by auto
    qed
    have "\<forall>m'. gget (po_eps s') m' = (if m' = m \<and> gget (po_eps s) m \<noteq> None then Some (po_hdl s, ep_ver s) else gget (po_eps s) m')"
      using s'(4) eps(1) Some by simp
    then show ?thesis
      using eq s'(1-3) old eps(2) keep by auto
  qed
qed

section \<open>Policy messages\<close>

lemma update_macs_ok:
  assumes "refs_ok s"
  shows "\<exists>s'. update_macs ms (po_hdl s) s = Some s' \<and> refs_ok s' \<and> po_hdl s' = po_hdl s \<and>
    (\<forall>m. gget (po_eps s') m = (if m \<in> set ms \<and> gget (po_eps s) m \<noteq> None then Some (po_hdl s, ep_ver s) else gget (po_eps s) m)) \<and>
    (\<forall>n h. po_hdl s = Some n \<longrightarrow> gget (po_heap s) n = Some h \<longrightarrow> (\<exists>c. gget (po_heap s') n = Some (h\<lparr>ph_ref_cnt := c\<rparr>)))"
  using assms
proof (induction ms arbitrary: s)
  case Nil
  then show ?case by (simp add: hdl_count_id)
next
  case (Cons m ms)
  from update_handle[OF Cons.prems, of m] obtain r s1 where
    s1: "dpi_policy_update m (po_hdl s) s = Some (r, s1)" "refs_ok s1" "po_hdl s1 = po_hdl s"
    "\<And>m'. gget (po_eps s1) m' = (if m' = m \<and> gget (po_eps s) m \<noteq> None then Some (po_hdl s, ep_ver s) else gget (po_eps s) m')"
    "\<And>n h. po_hdl s = Some n \<Longrightarrow> gget (po_heap s) n = Some h \<Longrightarrow> \<exists>c. gget (po_heap s1) n = Some (h\<lparr>ph_ref_cnt := c\<rparr>)"
    by blast
  have ver: "ep_ver s1 = ep_ver s"
    using s1(3) s1(5) refs_offD(7)[OF Cons.prems] by (fastforce simp: ep_ver_def split: option.split)
  from Cons.IH[OF s1(2)] obtain s' where s': "update_macs ms (po_hdl s1) s1 = Some s'" "refs_ok s'" "po_hdl s' = po_hdl s1"
    "\<And>m'. gget (po_eps s') m' = (if m' \<in> set ms \<and> gget (po_eps s1) m' \<noteq> None then Some (po_hdl s1, ep_ver s1) else gget (po_eps s1) m')"
    "\<And>n h. po_hdl s1 = Some n \<Longrightarrow> gget (po_heap s1) n = Some h \<Longrightarrow> \<exists>c. gget (po_heap s') n = Some (h\<lparr>ph_ref_cnt := c\<rparr>)"
    by blast
  have "\<exists>c. gget (po_heap s') n = Some (h\<lparr>ph_ref_cnt := c\<rparr>)" if n: "po_hdl s = Some n" "gget (po_heap s) n = Some h" for n h
  proof -
    obtain c where "gget (po_heap s1) n = Some (h\<lparr>ph_ref_cnt := c\<rparr>)" using s1(5)[OF n] by blast
    from s'(5)[OF _ this] n(1) s1(3) show ?thesis by simp
  qed
  moreover have "gget (po_eps s') m' = (if m' \<in> set (m # ms) \<and> gget (po_eps s) m' \<noteq> None then Some (po_hdl s, ep_ver s) else gget (po_eps s) m')" for m'
    unfolding s'(4) s1(4) ver s1(3) by (cases "gget (po_eps s) m'") auto
  ultimately show ?case
    using s1(1,3) s'(1-3) by auto
qed

lemma drop_static:
  assumes "handles_ok s" and "po_hdl s = Some n"
  shows "\<exists>s'. dpi_policy_hdl_destroy n s = Some s' \<and> handles_ok (s'\<lparr>po_hdl := None\<rparr>) \<and> po_hdl s' = Some n \<and> po_eps s' = po_eps s \<and>
    s' = s\<lparr>po_heap := gdel n (po_heap s)\<rparr>"
proof -
  have ok: "refs_ok s" and em: "users (po_eps s) n = {}" using assms by (auto simp: handles_ok_def)
  note R = refs_offD[OF ok]
  obtain h where h: "gget (po_heap s) n = Some h" using R(7)[OF assms(2)] by auto
  then have "ph_ref_cnt h = 0" using R(1)[OF h] em by (simp add: unat_eq_zero)
  then have d: "dpi_policy_hdl_destroy n s = Some (s\<lparr>po_heap := gdel n (po_heap s)\<rparr>)"
    using h by (simp add: dpi_policy_hdl_destroy_def)
  have no: "gget (po_eps s) m \<noteq> Some (Some n, v)" for m v
    using em by (auto simp: users_def)
  have "refs_ok (s\<lparr>po_heap := gdel n (po_heap s), po_hdl := None\<rparr>)"
  proof (rule refs_offI, goal_cases)
    case (4 k h')
    then show ?case using R(4)[of k h'] assms(2) by (auto split: if_splits)
  next
    case (5 m k v)
    then show ?case using R(5)[of m k v] no by (auto split: if_splits)
  qed (use R in \<open>auto split: if_splits\<close>)
  then show ?thesis
    using d assms(2) by (simp add: handles_ok_def)
qed

lemma new_ver_nonzero: "fst (GET_NEW_POLICY_VER s) \<noteq> 0"
  by (auto simp: GET_NEW_POLICY_VER_def Let_def)

lemma start_ok:
  assumes "handles_ok s" and "po_hdl s = None"
  shows "handles_ok (cfg_start p s)" "po_hdl (cfg_start p s) = Some (po_next s)"
    "gget (po_heap (cfg_start p s)) (po_next s) =
      Some ((dpi_policy_hdl_init (dl_def_action p))\<lparr>ph_apply_dir := dl_apply_dir p, ph_ver := fst (GET_NEW_POLICY_VER s)\<rparr>)"
    "po_fqdn (cfg_start p s) = po_fqdn s" "po_order (cfg_start p s) = 0" "po_eps (cfg_start p s) = po_eps s"
proof -
  have ok: "refs_ok s" using assms(1) by (simp add: handles_ok_def)
  note R = refs_offD[OF ok]
  have fresh: "gget (po_heap s) (po_next s) = None"
    using R(3)[of "po_next s"] by (cases "gget (po_heap s) (po_next s)") auto
  then have em: "users (po_eps s) (po_next s) = {}"
    using R(5) by (fastforce simp: users_def)
  let ?h = "(dpi_policy_hdl_init (dl_def_action p))\<lparr>ph_apply_dir := dl_apply_dir p, ph_ver := fst (GET_NEW_POLICY_VER s)\<rparr>"
  have f: "po_heap (cfg_start p s) = gput (po_next s) ?h (po_heap s)" "po_next (cfg_start p s) = Suc (po_next s)"
    "po_hdl (cfg_start p s) = Some (po_next s)" "po_eps (cfg_start p s) = po_eps s" "po_fqdn (cfg_start p s) = po_fqdn s"
    "po_order (cfg_start p s) = 0"
    by (simp_all add: cfg_start_def GET_NEW_POLICY_VER_def Let_def)
  have h: "ph_ref_cnt ?h = 0" "ph_ver ?h \<noteq> 0"
    using new_ver_nonzero by (simp_all add: dpi_policy_hdl_init_def)
  have "refs_ok (cfg_start p s)"
  proof (rule refs_offI, goal_cases)
    case (1 n h')
    then show ?case using R(1)[of n h'] em h unfolding f by (auto split: if_splits)
  next
    case (2 n h')
    then show ?case using R(2)[of n h'] h unfolding f by (auto split: if_splits)
  next
    case (3 n h')
    then show ?case using R(3)[of n h'] unfolding f by (auto split: if_splits)
  next
    case (4 n h')
    then show ?case using R(4)[of n h'] assms(2) unfolding f by (auto split: if_splits)
  next
    case (5 m n v)
    then show ?case using R(5)[of m n v] fresh unfolding f by (auto split: if_splits)
  qed (use R in \<open>simp_all add: f\<close>)
  then show "handles_ok (cfg_start p s)"
    using em by (simp add: handles_ok_def f)
qed (simp_all add: cfg_start_def GET_NEW_POLICY_VER_def Let_def)

lemma rules_ok_state:
  assumes "handles_ok s" and "po_hdl s = Some n"
  shows "\<exists>s'. cfg_rules pick e p flag n s = Some s' \<and> handles_ok s' \<and> po_hdl s' = Some n \<and> po_eps s' = po_eps s"
proof -
  have ok: "refs_ok s" and em: "users (po_eps s) n = {}" using assms by (auto simp: handles_ok_def)
  note R = refs_offD[OF ok]
  obtain h where h: "gget (po_heap s) n = Some h" using R(7)[OF assms(2)] by auto
  from rule_list_total[OF R(8), of pick e h "po_order s" "dl_rules p"] obtain fh h1 order where
    c: "cfg_rule_list pick e (po_fqdn s) h (po_order s) (dl_rules p) = Some (fh, h1, order)" "fqdn_inv fh" "frame h h1" by blast
  let ?h = "finish_rules pick e flag fh h1"
  let ?s = "s\<lparr>po_heap := gput n ?h (po_heap s), po_fqdn := fh, po_order := order\<rparr>"
  have f: "ph_ver ?h = ph_ver h" "ph_ref_cnt ?h = ph_ref_cnt h"
    using frame_trans[OF c(3) frame_finish] by (simp_all add: frame_def)
  have "refs_ok ?s"
  proof (rule refs_offI, goal_cases)
    case (1 k h')
    then show ?case using R(1)[of k] h f(2) by (cases "k = n") auto
  next
    case (2 k h')
    then show ?case using R(2)[of k] h f(1) by (cases "k = n") auto
  next
    case (3 k h')
    then show ?case using R(3)[of k] h by (cases "k = n") auto
  next
    case (4 k h')
    then show ?case using R(4)[of k] assms(2) by (cases "k = n") auto
  next
    case (5 m k v)
    then show ?case using R(5)[of m k v] h f(1) by (cases "k = n") auto
  next
    case (6 m v)
    then show ?case using R(6)[of m v] by simp
  next
    case (7 k)
    then show ?case using R(7)[of k] by (cases "k = n") auto
  qed (use R(9) c(2) in simp_all)
  then show ?thesis
    using h c(1) em assms(2) by (simp add: cfg_rules_def handles_ok_def)
qed

lemma end_ok:
  assumes "refs_ok s"
  shows "\<exists>s'. cfg_end p s = Some s' \<and> handles_ok s' \<and> po_hdl s' = None \<and>
    (\<forall>m. gget (po_eps s') m = (if m \<in> set (dl_macs p) \<and> gget (po_eps s) m \<noteq> None then Some (po_hdl s, ep_ver s) else gget (po_eps s) m)) \<and>
    (\<forall>n h. po_hdl s = Some n \<longrightarrow> gget (po_heap s) n = Some h \<longrightarrow> users (po_eps s') n \<noteq> {} \<longrightarrow> (\<exists>c. gget (po_heap s') n = Some (h\<lparr>ph_ref_cnt := c\<rparr>)))"
proof -
  from update_macs_ok[OF assms, of "dl_macs p"] obtain s1 where
    s1: "update_macs (dl_macs p) (po_hdl s) s = Some s1" "refs_ok s1" "po_hdl s1 = po_hdl s"
    "\<forall>m. gget (po_eps s1) m = (if m \<in> set (dl_macs p) \<and> gget (po_eps s) m \<noteq> None then Some (po_hdl s, ep_ver s) else gget (po_eps s) m)"
    "\<forall>n h. po_hdl s = Some n \<longrightarrow> gget (po_heap s) n = Some h \<longrightarrow> (\<exists>c. gget (po_heap s1) n = Some (h\<lparr>ph_ref_cnt := c\<rparr>))"
    by blast
  note R = refs_offD[OF s1(2)]
  show ?thesis
  proof (cases "\<exists>n. po_hdl s1 = Some n \<and> users (po_eps s1) n = {}")
    case True
    then obtain n where n: "po_hdl s1 = Some n" "users (po_eps s1) n = {}" by blast
    then have "handles_ok s1" using s1(2) by (simp add: handles_ok_def)
    from drop_static[OF this n(1)] obtain s2 where s2: "dpi_policy_hdl_destroy n s1 = Some s2" "handles_ok (s2\<lparr>po_hdl := None\<rparr>)" "po_eps s2 = po_eps s1"
      by blast
    obtain h where h: "gget (po_heap s1) n = Some h" using R(7)[OF n(1)] by auto
    then have "ph_ref_cnt h = 0" using R(1)[OF h] n(2) by (simp add: unat_eq_zero)
    then have "cfg_end p s = Some (s2\<lparr>po_hdl := None\<rparr>)"
      using s1(1) s2(1) n(1) h by (simp add: cfg_end_def)
    then show ?thesis using s1(3,4) s2 n by auto
  next
    case False
    have "cfg_end p s = Some (s1\<lparr>po_hdl := None\<rparr>)"
    proof (cases "po_hdl s1")
      case (Some n)
      then obtain h where h: "gget (po_heap s1) n = Some h" using R(7) by auto
      then have "unat (ph_ref_cnt h) \<noteq> 0" using R(1)[OF h] False Some finite_users by simp
      with s1(1) Some h show ?thesis by (auto simp: cfg_end_def)
    qed (use s1(1) in \<open>simp add: cfg_end_def\<close>)
    moreover have "refs_ok (s1\<lparr>po_hdl := None\<rparr>)"
    proof (rule refs_offI, goal_cases)
      case (4 n h)
      then show ?case using R(4)[of n h] False by auto
    qed (use R in auto)
    ultimately show ?thesis using s1(4,5) by (auto simp: handles_ok_def)
  qed
qed

subsection \<open>Every message keeps the counters\<close>

abbreviation cfg_drop :: "policy_ctl \<Rightarrow> policy_ctl option" where
  "cfg_drop s \<equiv> (case po_hdl s of None \<Rightarrow> Some s
    | Some n \<Rightarrow> map_option (\<lambda>s. s\<lparr>po_hdl := None\<rparr>) (dpi_policy_hdl_destroy n s))"

abbreviation cfg_body where
  "cfg_body pick e cmd p flag s \<equiv> (if cmd \<noteq> CFG_DELETE then
      let s = (if flag AND MSG_START \<noteq> 0 then cfg_start p s else s) in
      (case po_hdl s of None \<Rightarrow> None | Some n \<Rightarrow> cfg_rules pick e p flag n s)
    else if po_hdl s \<noteq> None then map_option (\<lambda>s. s\<lparr>po_order := 0\<rparr>) (cfg_drop s) else Some s)"

lemma cfg_drop_ok:
  assumes "handles_ok s"
  shows "\<exists>s'. cfg_drop s = Some s' \<and> handles_ok s' \<and> po_hdl s' = None"
proof (cases "po_hdl s")
  case (Some n)
  then show ?thesis using drop_static[OF assms Some] by auto
qed (use assms in simp)

lemma cfg_body_ok:
  assumes h: "handles_ok s" "flag AND MSG_START \<noteq> 0 \<longleftrightarrow> po_hdl s = None"
  shows "\<exists>s'. cfg_body pick e cmd p flag s = Some s' \<and> handles_ok s'"
proof (cases "cmd \<noteq> CFG_DELETE")
  case True
  let ?s = "if flag AND MSG_START \<noteq> 0 then cfg_start p s else s"
  obtain n where "handles_ok ?s" "po_hdl ?s = Some n"
    using start_ok[OF h(1)] h by (cases "flag AND MSG_START \<noteq> 0") auto
  from rules_ok_state[OF this, of pick e p flag] True this(2) show ?thesis
    by (auto simp: Let_def)
next
  case False
  have "handles_ok (s\<lparr>po_order := 0\<rparr>) = handles_ok s" for s
    by (simp add: handles_ok_def refs_off_def)
  with False show ?thesis
    using cfg_drop_ok[OF h(1)] h(1) by (cases "po_hdl s = None") auto
qed

lemma cfg_ok:
  assumes "handles_ok s"
  shows "\<exists>r s'. dpi_policy_cfg pick e cmd p flag s = Some (r, s') \<and> handles_ok s'"
proof -
  let ?finish = "\<lambda>s. if flag AND MSG_END = 0 then Some (0::int, s) else map_option (Pair 0) (cfg_end p s)"
  have finish: "\<exists>r s'. ?finish s = Some (r, s') \<and> handles_ok s'" if "handles_ok s" for s
    using end_ok[of s p] that by (auto simp: handles_ok_def)
  have eq: "dpi_policy_cfg pick e cmd p flag s =
    (if flag AND MSG_START \<noteq> 0 then Option.bind (Option.bind (cfg_drop s) (cfg_body pick e cmd p flag)) ?finish
     else if po_hdl s = None then Some (- 1, s) else Option.bind (cfg_body pick e cmd p flag s) ?finish)"
    by (simp add: dpi_policy_cfg_def Let_def)
  consider "flag AND MSG_START \<noteq> 0" | "flag AND MSG_START = 0" "po_hdl s = None"
    | "flag AND MSG_START = 0" "po_hdl s \<noteq> None" by blast
  then show ?thesis
  proof cases
    case 1
    obtain s1 where s1: "cfg_drop s = Some s1" "handles_ok s1" "po_hdl s1 = None" using cfg_drop_ok[OF assms] by blast
    obtain s2 where s2: "cfg_body pick e cmd p flag s1 = Some s2" "handles_ok s2" using cfg_body_ok[OF s1(2)] s1(3) 1 by blast
    obtain r s3 where "?finish s2 = Some (r, s3)" "handles_ok s3" using finish[OF s2(2)] by blast
    moreover have "Option.bind (cfg_drop s) (cfg_body pick e cmd p flag) = Some s2"
      by (simp only: s1(1) bind.bind_lunit s2(1))
    ultimately show ?thesis unfolding eq using 1 by (simp only: if_True bind.bind_lunit simp_thms) blast
  next
    case 2
    with assms show ?thesis unfolding eq by simp
  next
    case 3
    obtain s2 where s2: "cfg_body pick e cmd p flag s = Some s2" "handles_ok s2" using cfg_body_ok[OF assms, where flag = flag and pick = pick and e = e and cmd = cmd and p = p] 3 by blast
    obtain r s3 where "?finish s2 = Some (r, s3)" "handles_ok s3" using finish[OF s2(2)] by blast
    with 3 show ?thesis unfolding eq s2(1) bind.bind_lunit by (simp only: if_False not_False_eq_True simp_thms) blast
  qed
qed

lemma add_ok:
  assumes ok: "handles_ok s" and add: "add_mac m old s = Some s'" and room: "card (dom (gget (po_eps s'))) < 65535"
  shows "handles_ok s'"
proof -
  have "refs_ok s" using ok by (simp add: handles_ok_def)
  note R = refs_offD[OF this]
  let ?o = "case old of Some m \<Rightarrow> m | None \<Rightarrow> m"
  show ?thesis
  proof (cases "gget (po_eps s) ?o")
    case None
    then have no: "gget (po_eps s) m = None" and s': "s' = s\<lparr>po_eps := gput m (None, 0) (po_eps s)\<rparr>"
      using add by (simp_all add: add_mac_def Let_def del: not_None_eq not_Some_eq split: if_splits)
    have u: "users (po_eps s') n = users (po_eps s) n" for n
      using no by (auto simp: s' users_def)
    have "refs_ok s'"
    proof (rule refs_offI, goal_cases)
      case (5 m' n v)
      then show ?case using R(5)[of m' n v] by (auto simp: s' split: if_splits)
    next
      case (6 m' v)
      then show ?case using R(6)[of m' v] by (auto simp: s' split: if_splits)
    next
      case 9
      show ?case by (rule room)
    qed (use R u in \<open>auto simp: s'\<close>)
    then show ?thesis using ok u by (simp add: handles_ok_def s')
  next
    case (Some v)
    then have no: "gget (gdel ?o (po_eps s)) m = None" and s': "s' = s\<lparr>po_eps := gput m v (gdel ?o (po_eps s))\<rparr>"
      using add by (simp_all add: add_mac_def Let_def del: not_None_eq not_Some_eq split: if_splits)
    have u: "users (po_eps s') n = (\<lambda>k. if k = ?o then m else k) ` users (po_eps s) n" for n
      using no Some unfolding s' users_def by (auto simp: image_iff split: if_splits)
    have inj: "inj_on (\<lambda>k. if k = ?o then m else k) (users (po_eps s) n)" for n
      using no by (auto simp: inj_on_def users_def split: if_splits)
    have c: "card (users (po_eps s') n) = card (users (po_eps s) n)" "users (po_eps s') n = {} \<longleftrightarrow> users (po_eps s) n = {}" for n
      unfolding u by (rule card_image[OF inj]) (rule image_is_empty)
    have "refs_ok s'"
    proof (rule refs_offI, goal_cases)
      case (5 m' n v')
      then show ?case using R(5)[of m' n v'] R(5)[of ?o n v'] Some by (auto simp: s' split: if_splits)
    next
      case (6 m' v')
      then show ?case using R(6)[of m' v'] R(6)[of ?o v'] Some by (auto simp: s' split: if_splits)
    next
      case (1 n h)
      then show ?case using R(1)[of n h] c by (simp add: s')
    next
      case (4 n h)
      then show ?case using R(4)[of n h] c by (simp add: s')
    next
      case 9
      show ?case by (rule room)
    qed (use R in \<open>auto simp: s'\<close>)
    then show ?thesis using ok c by (simp add: handles_ok_def s')
  qed
qed

lemma del_ok:
  assumes ok: "handles_ok s"
  shows "\<exists>r s'. del_mac m s = Some (r, s') \<and> handles_ok s'"
proof (cases "gget (po_eps s) m")
  case None
  with ok show ?thesis by (simp add: del_mac_def)
next
  case (Some ov)
  obtain hdl v where ov: "ov = (hdl, v)" by (cases ov)
  have "refs_ok s" using ok by (simp add: handles_ok_def)
  note R = refs_offD[OF this]
  let ?t = "s\<lparr>po_eps := gdel m (po_eps s)\<rparr>"
  have m: "m \<in> users (po_eps s) n \<longleftrightarrow> hdl = Some n" for n using Some ov by (auto simp: users_def)
  have c: "card (users (po_eps s) n) = card (users (po_eps ?t) n) + (if hdl = Some n then 1 else 0)" for n
    using m[of n] card_Suc_Diff1[OF finite_users, of m "po_eps s" n] by (auto simp: users_del)
  have "card (dom (gget (po_eps ?t))) \<le> card (dom (gget (po_eps s)))"
    by (rule card_mono) (auto simp: finite_dom_map_of split: if_splits)
  then have off: "refs_off hdl ?t"
  proof (intro refs_offI, goal_cases)
    case (1 n h)
    then show ?case using R(1)[of n h] c[of n] by simp
  next
    case (4 n h)
    then show ?case using R(4)[of n h] m[of n] by (auto simp: users_del)
  qed (use R in \<open>auto split: if_splits\<close>)
  have st: "po_hdl s = Some n \<Longrightarrow> hdl \<noteq> Some n" for n
    using ok m[of n] by (auto simp: handles_ok_def)
  show ?thesis
  proof (cases hdl)
    case None
    then show ?thesis
      using off ok Some ov by (simp add: del_mac_def dp_policy_destroy_def handles_ok_def users_del)
  next
    case hdl: (Some n)
    obtain h where h: "gget (po_heap ?t) n = Some h" using R(5)[of m n v] Some ov hdl by auto
    from drop_ref[OF off[unfolded hdl] h] st hdl obtain s' where "dpi_policy_hdl_destroy n ?t = Some s'" "refs_ok s'"
      "po_hdl s' = po_hdl ?t" "po_eps s' = po_eps ?t" by auto
    with ok Some ov hdl show ?thesis
      by (simp add: del_mac_def dp_policy_destroy_def handles_ok_def users_del)
  qed
qed

section \<open>The life of the handles\<close>

text \<open>
  The control thread configures policies, adds and removes endpoints, and the packet threads change the names.  Fewer
  than 65535 endpoints exist at a time, since the counter of a handle has 16 bits.
\<close>

inductive policy_step :: "policy_ctl \<Rightarrow> policy_ctl \<Rightarrow> bool" where
  policy_cfg: "dpi_policy_cfg pick e cmd p flag s = Some (r, s') \<Longrightarrow> policy_step s s'"
| policy_add: "add_mac m old s = Some s' \<Longrightarrow> card (dom (gget (po_eps s'))) < 65535 \<Longrightarrow> policy_step s s'"
| policy_del: "del_mac m s = Some (r, s') \<Longrightarrow> policy_step s s'"
| policy_names: "fqdn_step (po_fqdn s) fh \<Longrightarrow> policy_step s (s\<lparr>po_fqdn := fh\<rparr>)"

definition policy_init :: "policy_ctl \<Rightarrow> bool" where
  "policy_init s \<longleftrightarrow> po_heap s = [] \<and> po_eps s = [] \<and> po_hdl s = None \<and> fqdn_init (po_fqdn s)"

lemma handles_ok_init: "policy_init s \<Longrightarrow> handles_ok s"
  by (simp add: policy_init_def handles_ok_def refs_off_def users_def inv_init_fqdn)

lemma handles_ok_step:
  assumes "handles_ok s" and "policy_step s s'"
  shows "handles_ok s'"
  using assms(2)
proof cases
  case (policy_cfg pick e cmd p flag r)
  with cfg_ok[OF assms(1), of pick e cmd p flag] show ?thesis by auto
next
  case (policy_add m old)
  then show ?thesis using add_ok[OF assms(1)] by blast
next
  case (policy_del m r)
  with del_ok[OF assms(1), of m] show ?thesis by auto
next
  case (policy_names fh)
  have "refs_ok s" using assms(1) by (simp add: handles_ok_def)
  note R = refs_offD[OF this]
  have "fqdn_inv fh" by (rule inv_fqdn_step[OF R(8) policy_names(2)])
  then have "refs_ok s'"
    unfolding policy_names(1) by (intro refs_offI) (use R in auto)
  with assms(1) show ?thesis by (simp add: handles_ok_def policy_names(1))
qed

interpretation policy_sys: invariant_system policy_init policy_step handles_ok
  by unfold_locales (auto intro: handles_ok_init handles_ok_step)

section \<open>A policy in several messages\<close>

lemma cfg_rule_list_append:
  "cfg_rule_list pick e fh h i (rs @ rs') =
    (case cfg_rule_list pick e fh h i rs of None \<Rightarrow> None | Some (fh, h, i) \<Rightarrow> cfg_rule_list pick e fh h i rs')"
  by (induction rs arbitrary: fh h i) (auto simp: Let_def split: option.split)

text \<open>The handle \<open>n\<close> is under construction and has the content \<open>h\<close>.\<close>

definition hdl_building :: "policy_ctl \<Rightarrow> nat \<Rightarrow> dpi_policy_hdl \<Rightarrow> bool" where
  "hdl_building s n h \<longleftrightarrow> handles_ok s \<and> po_hdl s = Some n \<and> gget (po_heap s) n = Some h"

lemma building_start:
  assumes "handles_ok s"
  shows "\<exists>s1. cfg_drop s = Some s1 \<and> hdl_building (cfg_start p s1) (po_next s)
      ((dpi_policy_hdl_init (dl_def_action p))\<lparr>ph_apply_dir := dl_apply_dir p, ph_ver := fst (GET_NEW_POLICY_VER s)\<rparr>) \<and>
    po_eps (cfg_start p s1) = po_eps s \<and> po_fqdn (cfg_start p s1) = po_fqdn s \<and> po_order (cfg_start p s1) = 0"
proof -
  obtain s1 where s1: "cfg_drop s = Some s1" "handles_ok s1" "po_hdl s1 = None" "po_eps s1 = po_eps s" "po_fqdn s1 = po_fqdn s"
    "po_next s1 = po_next s" "po_ver s1 = po_ver s"
  proof (cases "po_hdl s")
    case (Some n)
    then show ?thesis using drop_static[OF assms Some] that by auto
  qed (use assms that in simp)
  have v: "fst (GET_NEW_POLICY_VER s1) = fst (GET_NEW_POLICY_VER s)"
    by (simp add: GET_NEW_POLICY_VER_def Let_def s1(7))
  from start_ok[OF s1(2,3), of p] s1 v show ?thesis
    by (simp add: hdl_building_def)
qed

lemma building_rules:
  assumes "hdl_building s n h" and "cfg_rule_list pick e (po_fqdn s) h (po_order s) (dl_rules p) = Some (fh, h', i)"
  shows "\<exists>s'. cfg_rules pick e p flag n s = Some s' \<and> hdl_building s' n (finish_rules pick e flag fh h') \<and> po_eps s' = po_eps s \<and>
    po_fqdn s' = fh \<and> po_order s' = i"
  using rules_ok_state[of s n pick e p flag] assms by (auto simp: hdl_building_def cfg_rules_def)

fun feed where
  "feed pick e cmd [] s = Some s"
| "feed pick e cmd ((p, flag) # ms) s = (case dpi_policy_cfg pick e cmd p flag s of None \<Rightarrow> None | Some (r, s) \<Rightarrow> feed pick e cmd ms s)"

lemma feed_append: "feed pick e cmd (ms @ ms') s = Option.bind (feed pick e cmd ms s) (feed pick e cmd ms')"
  by (induction pick e cmd ms s rule: feed.induct) (auto split: option.split)

lemma feed_middle:
  assumes "cmd \<noteq> CFG_DELETE" and "hdl_building s n h"
    and "cfg_rule_list pick e (po_fqdn s) h (po_order s) (concat (map dl_rules ps)) = Some (fh, h', i)"
  shows "\<exists>s'. feed pick e cmd (map (\<lambda>p. (p, 0)) ps) s = Some s' \<and> hdl_building s' n h' \<and> po_eps s' = po_eps s \<and> po_fqdn s' = fh \<and> po_order s' = i"
  using assms(2,3)
proof (induction ps arbitrary: s h)
  case Nil
  then show ?case by simp
next
  case (Cons p ps)
  from Cons.prems(2) obtain fh1 h1 i1 where
    1: "cfg_rule_list pick e (po_fqdn s) h (po_order s) (dl_rules p) = Some (fh1, h1, i1)"
    "cfg_rule_list pick e fh1 h1 i1 (concat (map dl_rules ps)) = Some (fh, h', i)"
    by (auto simp: cfg_rule_list_append split: option.splits)
  from building_rules[OF Cons.prems(1) 1(1), of 0] obtain s1 where
    s1: "cfg_rules pick e p 0 n s = Some s1" "hdl_building s1 n h1" "po_eps s1 = po_eps s" "po_fqdn s1 = fh1" "po_order s1 = i1"
    by (auto simp: finish_rules_def)
  have "dpi_policy_cfg pick e cmd p 0 s = Some (0, s1)"
    using assms(1) Cons.prems(1) s1(1) by (simp add: dpi_policy_cfg_def hdl_building_def Let_def)
  with Cons.IH[OF s1(2)] 1(2) s1(3-5) show ?case by auto
qed

lemma feed_first:
  assumes "cmd \<noteq> CFG_DELETE" and "handles_ok s"
    and "h0 = (dpi_policy_hdl_init (dl_def_action p))\<lparr>ph_apply_dir := dl_apply_dir p, ph_ver := fst (GET_NEW_POLICY_VER s)\<rparr>"
    and "cfg_rule_list pick e (po_fqdn s) h0 0 (dl_rules p) = Some (fh, h', i)"
  shows "\<exists>s'. feed pick e cmd [(p, MSG_START)] s = Some s' \<and> hdl_building s' (po_next s) h' \<and> po_eps s' = po_eps s \<and> po_fqdn s' = fh \<and> po_order s' = i"
proof -
  from building_start[OF assms(2), of p] obtain s1 where s1: "cfg_drop s = Some s1" "hdl_building (cfg_start p s1) (po_next s) h0"
    "po_eps (cfg_start p s1) = po_eps s" "po_fqdn (cfg_start p s1) = po_fqdn s" "po_order (cfg_start p s1) = 0"
    unfolding assms(3) by blast
  from building_rules[OF s1(2), of pick e p fh h' i MSG_START] s1(4,5) assms(4) obtain s2 where
    s2: "cfg_rules pick e p MSG_START (po_next s) (cfg_start p s1) = Some s2" "hdl_building s2 (po_next s) h'" "po_eps s2 = po_eps (cfg_start p s1)"
    "po_fqdn s2 = fh" "po_order s2 = i"
    by (auto simp: finish_rules_def MSG_START_def MSG_END_def)
  have "dpi_policy_cfg pick e cmd p MSG_START s = Some (0, s2)"
    using assms(1) s1(1,2) s2(1) by (simp add: dpi_policy_cfg_def hdl_building_def Let_def MSG_START_def MSG_END_def)
  with s2 s1(3) show ?thesis by simp
qed

lemma destroy_fqdn: "dpi_policy_hdl_destroy n s = Some s' \<Longrightarrow> po_fqdn s' = po_fqdn s"
  by (auto simp: dpi_policy_hdl_destroy_def split: option.splits if_splits)

lemma update_macs_fqdn: "update_macs ms hdl s = Some s' \<Longrightarrow> po_fqdn s' = po_fqdn s"
proof (induction ms arbitrary: s)
  case (Cons m ms)
  then obtain r s1 where s1: "dpi_policy_update m hdl s = Some (r, s1)" "update_macs ms hdl s1 = Some s'"
    by (auto split: option.splits)
  have "po_fqdn s1 = po_fqdn s"
    using s1(1) by (auto simp: dpi_policy_update_def Let_def dest: destroy_fqdn split: option.splits prod.splits)
  with Cons.IH[OF s1(2)] show ?case by simp
qed simp

lemma cfg_end_fqdn: "cfg_end p s = Some s' \<Longrightarrow> po_fqdn s' = po_fqdn s"
  by (auto simp: cfg_end_def dest!: update_macs_fqdn destroy_fqdn split: option.splits if_splits)

lemma feed_last:
  assumes "cmd \<noteq> CFG_DELETE" and "hdl_building s n h"
    and "cfg_rule_list pick e (po_fqdn s) h (po_order s) (dl_rules p) = Some (fh, h', i)"
    and "m \<in> set (dl_macs p)" and "gget (po_eps s) m \<noteq> None"
  shows "\<exists>s' c. feed pick e cmd [(p, MSG_END)] s = Some s' \<and> handles_ok s' \<and> po_hdl s' = None \<and>
    gget (po_eps s') m = Some (Some n, ph_ver (finish_rules pick e MSG_END fh h')) \<and> po_fqdn s' = fh \<and>
    gget (po_heap s') n = Some ((finish_rules pick e MSG_END fh h')\<lparr>ph_ref_cnt := c\<rparr>)"
proof -
  from building_rules[OF assms(2,3), of MSG_END] obtain s1 where
    s1: "cfg_rules pick e p MSG_END n s = Some s1" "hdl_building s1 n (finish_rules pick e MSG_END fh h')" "po_eps s1 = po_eps s" "po_fqdn s1 = fh"
    by auto
  have "refs_ok s1" using s1(2) by (simp add: hdl_building_def handles_ok_def)
  from end_ok[OF this, of p] obtain s2 where s2: "cfg_end p s1 = Some s2" "handles_ok s2" "po_hdl s2 = None"
    "gget (po_eps s2) m = Some (po_hdl s1, ep_ver s1)"
    "\<forall>n h. po_hdl s1 = Some n \<longrightarrow> gget (po_heap s1) n = Some h \<longrightarrow> users (po_eps s2) n \<noteq> {} \<longrightarrow> (\<exists>c. gget (po_heap s2) n = Some (h\<lparr>ph_ref_cnt := c\<rparr>))"
    using assms(4,5) s1(3) by auto
  have "dpi_policy_cfg pick e cmd p MSG_END s = Some (0, s2)"
    using assms(1,2) s1(1) s2(1) by (simp add: dpi_policy_cfg_def hdl_building_def Let_def MSG_START_def MSG_END_def)
  moreover have "users (po_eps s2) n \<noteq> {}" using s2(4) s1(2) by (auto simp: users_def hdl_building_def)
  ultimately show ?thesis
    using s2 s1(2,4) cfg_end_fqdn[OF s2(1)] by (auto simp: hdl_building_def ep_ver_def)
qed


lemma lookup_count:
  "dpi_policy_lookup_by_key pick e fh (Some (h\<lparr>ph_ref_cnt := c\<rparr>)) k ing desc p = dpi_policy_lookup_by_key pick e fh (Some h) k ing desc p"
proof -
  let ?h = "h\<lparr>ph_ref_cnt := c\<rparr>"
  have f: "ph_policy_map ?h = ph_policy_map h" "ph_range_policy_map ?h = ph_range_policy_map h" "ph_def_action ?h = ph_def_action h"
    "ph_apply_dir ?h = ph_apply_dir h" "ph_flag ?h = ph_flag h" "ph_ver ?h = ph_ver h"
    by simp_all
  have t: "tables_lookup pick ?h = tables_lookup pick h"
    unfolding tables_lookup_def policy_map_lookup_def f ..
  have r: "fqdn_record_desc pick r ?h = fqdn_record_desc pick r h" for r
    unfolding fqdn_record_desc_def t f ..
  have m: "policy_match_ipv4_fqdn_code pick fh ip ?h = policy_match_ipv4_fqdn_code pick fh ip h" for ip
    unfolding policy_match_ipv4_fqdn_code_def r ..
  have l: "enforced_lookup pick fh ?h = enforced_lookup pick fh h"
    unfolding enforced_lookup_def m t f ..
  show ?thesis
    unfolding dpi_policy_lookup_by_key_def ingress_lookup_def egress_lookup_def option.case l f ..
qed

lemma messages_compile:
  assumes ok: "handles_ok s" and cmd: "cmd \<noteq> CFG_DELETE" and m: "m \<in> set (dl_macs p1)" "gget (po_eps s) m \<noteq> None"
    and h0: "h0 = (dpi_policy_hdl_init (dl_def_action p0))\<lparr>ph_apply_dir := dl_apply_dir p0, ph_ver := fst (GET_NEW_POLICY_VER s)\<rparr>"
    and c: "cfg_rule_list pick e (po_fqdn s) h0 0 (dl_rules p0 @ concat (map dl_rules ps) @ dl_rules p1) = Some (fh, h, i)"
  shows "\<exists>s' n c. feed pick e cmd ((p0, MSG_START) # map (\<lambda>p. (p, 0)) ps @ [(p1, MSG_END)]) s = Some s' \<and>
    gget (po_eps s') m = Some (Some n, ph_ver (finish_rules pick e MSG_END fh h)) \<and> po_fqdn s' = fh \<and>
    gget (po_heap s') n = Some ((finish_rules pick e MSG_END fh h)\<lparr>ph_ref_cnt := c\<rparr>)"
proof -
  from c obtain fh1 h1 i1 fh2 h2 i2 where
    1: "cfg_rule_list pick e (po_fqdn s) h0 0 (dl_rules p0) = Some (fh1, h1, i1)" and
    2: "cfg_rule_list pick e fh1 h1 i1 (concat (map dl_rules ps)) = Some (fh2, h2, i2)" and
    3: "cfg_rule_list pick e fh2 h2 i2 (dl_rules p1) = Some (fh, h, i)"
    by (auto simp: cfg_rule_list_append split: option.splits)
  from feed_first[OF cmd ok h0 1] obtain s1 where
    s1: "feed pick e cmd [(p0, MSG_START)] s = Some s1" "hdl_building s1 (po_next s) h1" "po_eps s1 = po_eps s" "po_fqdn s1 = fh1" "po_order s1 = i1"
    by blast
  from feed_middle[OF cmd s1(2), of pick e ps] 2 s1 obtain s2 where
    s2: "feed pick e cmd (map (\<lambda>p. (p, 0)) ps) s1 = Some s2" "hdl_building s2 (po_next s) h2" "po_eps s2 = po_eps s" "po_fqdn s2 = fh2" "po_order s2 = i2"
    by auto
  from feed_last[OF cmd s2(2), of pick e p1 fh h i m] 3 s2 m obtain s3 c where
    s3: "feed pick e cmd [(p1, MSG_END)] s2 = Some s3" "gget (po_eps s3) m = Some (Some (po_next s), ph_ver (finish_rules pick e MSG_END fh h))"
    "po_fqdn s3 = fh" "gget (po_heap s3) (po_next s) = Some ((finish_rules pick e MSG_END fh h)\<lparr>ph_ref_cnt := c\<rparr>)"
    by auto
  have "feed pick e cmd ((p0, MSG_START) # map (\<lambda>p. (p, 0)) ps @ [(p1, MSG_END)]) s = Some s3"
    using feed_append[of pick e cmd "[(p0, MSG_START)]" "map (\<lambda>p. (p, 0)) ps @ [(p1, MSG_END)]" s] s1(1) s2(1) s3(1)
    by (simp add: feed_append del: feed.simps)
  with s3 show ?thesis by blast
qed

section \<open>Properties\<close>

definition policy_example :: policy_ctl where
  "policy_example = \<lparr>po_heap = [], po_next = 0, po_hdl = None, po_order = 0, po_ver = 0, po_fqdn = the dpi_fqdn_hdl_init, po_eps = []\<rparr>"

lemma policy_example_init: "policy_init policy_example"
  by (simp add: policy_init_def policy_example_def fqdn_init_def dpi_fqdn_hdl_init_def bitmap_allocate_def Let_def)

definition policy_example_ep :: policy_ctl where
  "policy_example_ep = policy_example\<lparr>po_eps := [(7, (None, 0))]\<rparr>"

lemma policy_example_reach: "reach policy_init policy_step policy_example_ep"
proof (rule reach_step)
  show "reach policy_init policy_step policy_example" by (rule reach_init) (rule policy_example_init)
  show "policy_step policy_example policy_example_ep"
    by (rule policy_add[of 7 None]) (simp_all add: add_mac_def policy_example_def policy_example_ep_def dom_def)
qed

text \<open>
  C6. In every state that policy messages, endpoints that come and go, and changes of the names can reach, the handles
  of policies are used safely.  Every policy message and every removal of an endpoint has a result, so no freed
  handle is used.  The handle of an endpoint is live and its version is the one the endpoint carries, which is
  never 0.  The counter of a live handle is the number of endpoints that refer to it, and a handle without
  endpoints is the one a sequence of messages is building, so none leaks.
\<close>

theorem policy_handles_safe:
  assumes "reach policy_init policy_step s"
  shows "(\<exists>r s'. dpi_policy_cfg pick e cmd p flag s = Some (r, s')) \<and> (\<exists>r s'. del_mac m s = Some (r, s')) \<and>
    (gget (po_eps s) m = Some (Some n, v) \<longrightarrow> (\<exists>h. gget (po_heap s) n = Some h \<and> ph_ver h = v \<and> v \<noteq> 0)) \<and>
    (gget (po_heap s) n = Some h \<longrightarrow>
      unat (ph_ref_cnt h) = card {m. \<exists>v. gget (po_eps s) m = Some (Some n, v)} \<and> (ph_ref_cnt h = 0 \<longleftrightarrow> po_hdl s = Some n))"
proof -
  have ok: "handles_ok s" by (rule policy_sys.reach_inv[OF assms])
  then have "refs_ok s" by (simp add: handles_ok_def)
  note R = refs_offD[OF this]
  have "ph_ref_cnt h = 0 \<longleftrightarrow> po_hdl s = Some n" if "gget (po_heap s) n = Some h"
    using R(1)[OF that] R(4)[OF that] ok finite_users[of "po_eps s" n] by (auto simp: handles_ok_def simp flip: unat_eq_zero)
  then show ?thesis
    using cfg_ok[OF ok, of pick e cmd p flag] del_ok[OF ok, of m] R(1)[of n h] R(2)[of n] R(5)[of m n v] by (auto simp: users_def)
qed


theorem policy_handles_safe_witness:
  "\<exists>r s'. del_mac 7 policy_example_ep = Some (r, s')"
  using policy_handles_safe[OF policy_example_reach, of first_pick example_env 1 _ MSG_START 7] by blast



definition example_part :: "nat \<Rightarrow> dpi_policy" where
  "example_part i = \<lparr>dl_macs = [7], dl_def_action = 7, dl_apply_dir = 0, dl_rules = [example_rules ! i]\<rparr>"


end
