(* ===== verification/Spec2Isabelle.thy ===== *)
theory Spec2Isabelle
  imports Controller AgentProcess NfqCapture DpPolicyState
begin

text \<open>
  \<^bold>\<open>Micro-segmentation: a controller and its agents.\<close>

  A verification library for the system under \<open>src/micro-segment\<close>.  One controller process keeps the
  topology, the workloads and the policies and serves them over REST and gRPC.  On every host an agent
  process captures the traffic of containers, aggregates the connections that the data plane reports and
  sends them to the controller.  The data plane is a process of its own, written in C, that matches packets against the
  compiled policies and takes its configuration from the agent over a socket.  The rest of \<open>src\<close> is the
  code base the project was derived from, see the last section.

  \<^bold>\<open>Shared theories.\<close>
  \<^item> \<open>Prelude\<close>: words for machine integers, Go maps as association lists with distinct keys (\<open>gomap\<close>, \<open>gget\<close>,
    \<open>gput\<close>, \<open>gdel\<close>, \<open>gwf\<close>) whose iteration order may change at any time (\<open>reorder\<close>), reachability, decimal
    printing, and the interfaces \<open>keyed_store\<close> (a store of records by identifier) and \<open>invariant_system\<close> (a transition
    system with an inductive invariant).
  \<^item> \<open>GoStrings\<close>, \<open>GoNet\<close>: what the sources use of \<open>strings\<close>, \<open>fmt\<close> and \<open>net\<close>, with round trips for
    addresses.
  \<^item> \<open>StateLogic\<close>: triples for programs of the state monad.

  \<^bold>\<open>Controller\<close> (\<open>internal/controller\<close>, \<open>cmd/controller\<close>).
  \<^item> \<open>ControllerTypes\<close>, \<open>Proto\<close>: the records of \<open>types.go\<close> and the messages of \<open>microseg.pb.go\<close>.
  \<^item> \<open>Graph\<close> (\<open>graph/graph.go\<close>): nodes with incoming and outgoing links.  Both copies of a link agree, and the operations refine
    a set of nodes with a partial map from edges to attributes.  The interface \<open>link_store\<close> is what the cache relies on.
  \<^item> \<open>PolicyEngine\<close> (\<open>policy/policy.go\<close>): the sorted order is that of the rule map, matching returns the first enabled rule
    of least priority, and no method panics on a reachable engine.
  \<^item> \<open>ControllerCache\<close> (\<open>cache/cache.go\<close>): the stores, the connection table and the graph.  The graph and the connection
    table describe the same links; adding and deleting a policy counts the references of groups.
  \<^item> \<open>GrpcServer\<close> (\<open>grpc/server.go\<close>): registration, heartbeats, the timeout checker and the reports.  An agent is online
    exactly when its last contact is recent enough for every check since then.
  \<^item> \<open>RestApi\<close> (\<open>rest/handler.go\<close>, \<open>rest/router.go\<close>): the router with its multiplexer, every handler and the response
    envelope.  Failed requests change nothing, status codes are as documented, a policy can be created, read and deleted.
  \<^item> \<open>Controller\<close> (\<open>main.go\<close>): the process, the remote calls as its agents see them (interface \<open>controller_service\<close>),
    and the stores that no entry point fills.

  \<^bold>\<open>Agent\<close> (\<open>internal/agent\<close>, \<open>cmd/agent\<close>).
  \<^item> \<open>AgentTypes\<close>: the records of \<open>types.go\<close>.
  \<^item> \<open>Aggregator\<close> (\<open>connection/aggregator.go\<close>): a flush neither loses nor invents traffic of the merged connections, the map is bounded
    for allowed connections, and a backlog drains.
  \<^item> \<open>DpClient\<close> (\<open>dp/client.go\<close>, \<open>policy/network.go\<close>): the data plane socket and the rule table.
  \<^item> \<open>GrpcClient\<close> (\<open>grpc/client.go\<close>): the client with its heartbeat loop; each remote procedure is a parameter
    that is instantiated by the controller's in the composed system.
  \<^item> \<open>AgentEngine\<close> (\<open>engine/engine.go\<close>): the engine that connects these parts, and the steps of an agent.
  \<^item> \<open>TcCapture\<close>, \<open>TcBehaviour\<close> (\<open>network/tc_traffic_capture.go\<close>): the capture by traffic control.  The first theory has the model and
    the invariant of the allocated numbers, the second what starting and stopping a capture does.
  \<^item> \<open>NfqCapture\<close> (\<open>network/traffic_capture.go\<close>): the older capture by iptables queues.
  \<^item> \<open>DockerMonitor\<close> (\<open>network/container_monitor.go\<close>): the scan of the running containers and the event loop.
  \<^item> \<open>NetManager\<close> (\<open>network/manager.go\<close>): the life cycle of capture and monitor, and their statistics.
  \<^item> \<open>AgentProcess\<close> (\<open>cmd/agent/main.go\<close>): start and shutdown of manager and engine.

  \<^bold>\<open>Data plane\<close> (\<open>internal/dp\<close>).
  \<^item> \<open>DpUtils\<close> (\<open>utils/helper.c\<close>, \<open>utils/helper.h\<close>): accesses to C arrays, sequence numbers, byte order, the hash of the tables and
    the string helpers.
  \<^item> \<open>DpBitmap\<close> (\<open>utils/bitmap.c\<close>): the allocator of codes; the word-wise search finds what a bit-wise search finds.
  \<^item> \<open>DpTimer\<close> (\<open>utils/timer_queue.c\<close>, \<open>utils/timer_wheel.c\<close>): timers fire neither early nor late, the reported idle times are
    exact, and trimming frees exactly what has expired.  The callbacks are a parameter.
  \<^item> \<open>DpEnv\<close> (\<open>dpi/dpi_entry.c\<close>, \<open>ctrl/ctrl.c\<close>): address classes, and the messages that install the tables of subnets.
  \<^item> \<open>DpFqdn\<close> (second half of \<open>dpi/dpi_policy.c\<close>): domain names with their codes and addresses, as a transition system; codes
    identify names, and the sweep of deleted names ends and removes all of them.
  \<^item> \<open>DpPolicy\<close>, \<open>DpPolicyCfg\<close> (\<open>dpi/dpi_policy.c\<close>): the two tables of a policy and the lookup in them; the compilation of rules, the
    messages of a policy, and the handles that endpoints hold.
  \<^item> \<open>DpPolicyMatch\<close>: the specification of a policy as a list of clauses, and the refinement: the compiled tables decide
    by the first clause that matches.  The rules must name no domain, and an exact rule must have the workload on its own
    side (\<open>rules_ok\<close>); the packet must not take one of the shortcuts (\<open>governed\<close>).
  \<^item> \<open>DpPolicyState\<close>: the life of the handles as a transition system; counters are exact, no handle is used after it is freed, and
    a policy in several messages is enforced as a whole.

  \<^bold>\<open>This theory\<close> composes one controller with any number of agents (\<open>system_step\<close>): the names
  that reach the topology, and the paths of a policy, a connection and a workload from one process to the other.

  \<^bold>\<open>How the code is represented.\<close>  A struct is a record, an enumeration or a union of messages a datatype, and every
  function and method is a definition of the same name, prefixed where two types have a method of that name
  (\<open>Server_\<close>, \<open>Handler_\<close>, \<open>Client_\<close>, \<open>DP_\<close>, \<open>NP_\<close>, \<open>Eng_\<close>, \<open>Nfq_\<close>, \<open>Monitor_\<close>, \<open>Manager_\<close>).  A method that holds a
  mutex from beginning to end is one step; where the code locks a mutex that it holds, the result says
  that the call does not return.  A callback is a returned event, and a panic or a call that never returns is
  \<open>None\<close>.  Errors are \<open>Inl\<close> values or optional messages.  The current time, the results of dialling, reading and
  writing, the answers of a remote procedure, of the host and of the Docker daemon are arguments, and every
  theorem is for all of them.  A host is a function of the whole history of calls, so that it
  may answer the same command differently each time.

  In the data plane an access outside an array, a use of freed memory and a call of a NULL callback have no
  result (\<open>None\<close>), so a theorem that an operation has a result says that it does none of these.  Allocated objects are
  names of entries of an association list.  The lock-free tables of liburcu are association lists; where the code
  stores two entries under one key, the lookup takes the choice \<open>pick\<close> as an argument, of which the theorems
  assume only that it returns one of the entries when there is one (\<open>picks\<close>).  Allocations succeed.

  \<^bold>\<open>Bounds and termination.\<close>  All definitions are total.  Loops over Go slices and maps are structural
  recursions; the event, read and timer loops consume the finite sequence of inputs they receive; the
  allocation loop \<open>free_from\<close> has the measure of the source's bound 65536.  Counters, ports and
  sizes of messages are words of their width and wrap around; the indices of the traffic control capture, which the source
  keeps below 65536 in a \<open>uint\<close>, are natural numbers.  In the data plane the drain of a timer slot and the sweep of deleted
  names may run for ever in principle and are partial functions with theorems that they return; \<open>roll_loop\<close>, the search
  of the bitmap and the string functions have measures.

  \<^bold>\<open>Not modelled.\<close>  Logging, command line and signals; the HTTP and gRPC servers and the encodings of JSON and Protocol Buffers, for which
  the results of decoding are arguments; the reflection and stub code that \<open>protoc\<close>
  generates; interleavings inside a method that holds its mutex.  The types \<open>Violation\<close>, \<open>ThreatLog\<close>, \<open>Host\<close>, \<open>ContainerMeta\<close> and similar
  that no operation of the system reads are left out.  Of the data plane: packet decoding, sessions, reassembly, meters and
  protocol parsers, which work on raw packet memory; the wrapper of the policy lookup for packets with its cache of
  unknown addresses and the re-evaluation of sessions; logs, sockets, packet rings and threads.  Outside
  \<open>src/micro-segment\<close> lie the original agent, controller and data plane and vendored packages: none of
  them is built into the three processes.
\<close>

section \<open>Agents and controller together\<close>

text \<open>
  The composed system: one controller and any number of agents that report to it.  An agent step runs
  the agent's code against the remote procedures of the controller; between them the controller serves
  REST requests, checks its agents and receives heartbeats.
\<close>

inductive system_step :: "Controller \<times> AgentEngine list \<Rightarrow> Controller \<times> AgentEngine list \<Rightarrow> bool" where
  sys_agent: "i < length es \<Longrightarrow> agent_step (ctl_register now) ctl_threats ctl_connections (k, es ! i) (k', e') \<Longrightarrow>
    system_step (k, es) (k', es[i := e'])"
| sys_heartbeat: "i < length es \<Longrightarrow>
    system_step (k, es) (sendHeartbeat (ctl_heartbeat t1 t2) now k (en_grpcClient (es ! i)), es)"
| sys_rest: "system_step (k, es) (snd (ctl_rest t1 t2 req k), es)"
| sys_check: "system_step (k, es) (ctl_check now k, es)"

definition system_init :: "Controller \<times> AgentEngine list \<Rightarrow> bool" where
  "system_init s \<longleftrightarrow> (\<exists>p cfgs. s = (controller_setup p, map Eng_NewEngine cfgs))"

text \<open>The only edge of the topology is the one between two workloads without a name.\<close>

definition topology_nameless :: "Controller \<Rightarrow> bool" where
  "topology_nameless k \<longleftrightarrow> (\<forall>s d. Attr (wlGraph (ct_cache k)) s ''graph'' d \<noteq> None \<longrightarrow> s = '''' \<and> d = '''')"

definition system_inv :: "Controller \<times> AgentEngine list \<Rightarrow> bool" where
  "system_inv s \<longleftrightarrow> controller_inv (fst s) \<and> topology_nameless (fst s) \<and> (\<forall>e \<in> set (snd s). agent_inv ((), e))"

lemma topology_frame:
  "topology_nameless (snd (ctl_register now k q)) = topology_nameless k"
  "topology_nameless (snd (ctl_heartbeat t1 t2 k h)) = topology_nameless k"
  "topology_nameless (snd (ctl_threats k thr)) = topology_nameless k"
  "topology_nameless (ctl_check now k) = topology_nameless k"
  by (simp_all add: topology_nameless_def ctl_register_def ctl_heartbeat_def ctl_threats_def ctl_check_def
      Let_def case_prod_unfold)

lemma topology_rest: "topology_nameless (snd (ctl_rest t1 t2 req k)) = topology_nameless k"
  using rest_frame_Router[of "(ct_cache k, ct_engine k)" t1 t2 req]
  by (simp add: topology_nameless_def ctl_rest_def Let_def case_prod_unfold rest_frame_def)

lemma topology_connections:
  assumes "topology_nameless k" and "\<forall>c \<in> set cs. nameless c" and "cl_connected c"
  shows "topology_nameless (snd (Client_ReportConnections ctl_connections cs k c))"
  unfolding topology_nameless_def
proof (intro allI impI)
  fix s d
  assume a: "Attr (wlGraph (ct_cache (snd (Client_ReportConnections ctl_connections cs k c)))) s ''graph'' d \<noteq> None"
  show "s = '''' \<and> d = ''''"
  proof (cases "find (\<lambda>x. xc_client_wl x = s \<and> xc_server_wl x = d) (rev cs)")
    case None
    then have "Attr (wlGraph (ct_cache k)) s ''graph'' d \<noteq> None"
      using a by (simp only: ctl.ReportConnections_edge[OF assms(3)] option.case not_False_eq_True)
    with assms(1) show ?thesis
      unfolding topology_nameless_def by (elim allE impE)
  next
    case (Some x)
    then have x: "x \<in> set cs" "xc_client_wl x = s" "xc_server_wl x = d"
      using find_SomeD[OF Some] by simp_all
    have "nameless x"
      by (rule bspec[OF assms(2) x(1)])
    then show ?thesis
      unfolding nameless_def x(2,3) .
  qed
qed

text \<open>A step of an agent acts on the controller only through its remote procedures.\<close>

lemma agent_step_controller:
  assumes "agent_step (ctl_register now) ctl_threats ctl_connections (k, e) (k', e')"
    and "agent_inv (k, e)" and "controller_inv k" and "topology_nameless k"
  shows "controller_inv k' \<and> topology_nameless k'"
  using assms(1)
proof cases
  case a_tick
  let ?cl = "en_grpcClient e"
  have thr: "controller_inv (onThreatLogs ctl_threats logs k e) \<and> topology_nameless (onThreatLogs ctl_threats logs k e)" for logs
    using assms(3,4)
    by (simp add: onThreatLogs_def Client_ReportThreats_def report_result_def ctl_threats_def Server_ReportThreats_def)
  have con: "controller_inv (onConnections ctl_connections cs k1 e) \<and> topology_nameless (onConnections ctl_connections cs k1 e)"
    if "controller_inv k1 \<and> topology_nameless k1" and "\<forall>c \<in> set cs. nameless c" for k1 cs
  proof (cases "cl_connected ?cl")
    case True
    then have "controller_step k1 (snd (Client_ReportConnections ctl_connections cs k1 ?cl))"
      unfolding ctl.ReportConnections_ok[OF True] snd_conv by (intro k_connections)
    then have "controller_inv (snd (Client_ReportConnections ctl_connections cs k1 ?cl))"
      by (rule ctl_sys.inv_step[OF conjunct1[OF that(1)]])
    with True that show ?thesis
      by (simp add: onConnections_def Client_IsConnected_def topology_connections)
  qed (use that in \<open>simp add: onConnections_def Client_IsConnected_def\<close>)
  have "\<forall>c \<in> set (reported (fst (snd (flush (en_aggregator e))))). nameless c"
    using assms(2) by (intro nameless_flush(2)) (simp add: agent_inv_def)
  with a_tick thr con assms(3,4) show ?thesis
    by (auto simp: tick_def Let_def case_prod_unfold reported_def split: option.splits)
next
  case (a_start dpDial grpcDial)
  have "controller_inv (fst (snd (Client_Register (ctl_register now) k c))) \<and>
      topology_nameless (fst (snd (Client_Register (ctl_register now) k c)))" for c
    using assms(3,4) topology_frame(1) k_register[THEN ctl_sys.inv_step[rotated]]
    by (simp add: Client_Register_def Let_def case_prod_unfold split: sum.split)
  with a_start assms(3,4) show ?thesis
    by (auto simp: Eng_Start_def Let_def case_prod_unfold split: option.splits)
qed (use assms(3,4) in simp_all)

interpretation whole_sys: invariant_system system_init system_step system_inv
proof
  have "topology_nameless (controller_setup p)" for p
    by (simp add: topology_nameless_def controller_setup_def NewCache_def NewGraph_def Attr_def)
  then show "system_inv s" if "system_init s" for s
    using that by (auto simp: system_init_def system_inv_def controller_inv_setup agent_inv_new)
  show "system_inv t" if inv: "system_inv s" and "system_step s t" for s t
    using that(2)
  proof cases
    case (sys_agent i es now k k' e')
    have e: "agent_inv ((), es ! i)"
      using inv sys_agent by (simp add: system_inv_def)
    then have "agent_inv (k, es ! i)"
      by (simp add: agent_inv_def)
    then have "controller_inv k' \<and> topology_nameless k'" "agent_inv (k', e')"
      using inv sys_agent agent_step_controller agent_sys.inv_step by (force simp: system_inv_def)+
    with inv sys_agent show ?thesis
      by (auto simp: system_inv_def agent_inv_def dest!: set_update_subset_insert[THEN subsetD])
  next
    case (sys_heartbeat i es k t1 t2 now)
    with inv show ?thesis
      by (simp add: system_inv_def sendHeartbeat_def topology_frame k_heartbeat[THEN ctl_sys.inv_step[rotated]])
  next
    case (sys_rest k es t1 t2 req)
    with inv show ?thesis
      by (simp add: system_inv_def topology_rest k_rest[THEN ctl_sys.inv_step[rotated]])
  next
    case (sys_check k es now)
    with inv show ?thesis
      by (simp add: system_inv_def topology_frame k_check[THEN ctl_sys.inv_step[rotated]])
  qed
qed


lemma nameless_link_count:
  assumes "cache_wf (ct_cache k)" and "topology_nameless k"
  shows "GetGraphLinkCount (ct_cache k) \<le> 1"
proof -
  let ?g = "wlGraph (ct_cache k)"
  have "(s, l, d) \<in> {([], ''graph'', [])}" if "Attr ?g s l d \<noteq> None" for s l d
    using that assms unfolding cache_wf_def one_label_def topology_nameless_def by (cases "l = ''graph''") auto
  then have "edges ?g \<subseteq> {([], ''graph'', [])}"
    by (auto simp: edges_def)
  then have "card (edges ?g) \<le> card {([] :: string, ''graph'', [] :: string)}"
    by (intro card_mono) simp_all
  then show ?thesis
    by (simp add: GetGraphLinkCount_def GetLinkCount_card[OF cache_wfD(5)[OF assms(1)]])
qed

section \<open>Properties\<close>

text \<open>
  C16. The topology of the composed system.  Whatever the agents observe and in whatever order they,
  the REST clients and the timers act, the controller's topology graph has no edge but the one between
  two workloads without a name, so that the statistics never count more than one link.
\<close>

theorem system_topology_nameless:
  assumes "reach system_init system_step (k, es)"
  shows "(Attr (wlGraph (ct_cache k)) s ''graph'' d \<noteq> None \<longrightarrow> s = '''' \<and> d = '''') \<and>
    GetGraphLinkCount (ct_cache k) \<le> 1"
proof -
  have "system_inv (k, es)"
    by (rule whole_sys.reach_inv[OF assms])
  then have "cache_wf (ct_cache k)" "topology_nameless k"
    by (simp_all add: system_inv_def controller_inv_def)
  then show ?thesis
    using nameless_link_count[of k] unfolding topology_nameless_def by blast
qed

text \<open>A run of the system: an agent starts, the data plane reports a connection, and the timer ticks.\<close>

definition run0 :: "Controller \<times> AgentEngine" where
  "run0 = (let (k, e) = Eng_Start (ctl_register 0) None None (controller_setup 18400) (Eng_NewEngine cfg0)
           in tick ctl_threats ctl_connections k (deliver 1 (OnConnection dconn0) e))"

lemma reach_run0: "reach system_init system_step (fst run0, [snd run0])"
proof -
  let ?r = "reach system_init system_step"
  obtain k e where st: "Eng_Start (ctl_register 0) None None (controller_setup 18400) (Eng_NewEngine cfg0) = (k, e)"
    by (rule prod.exhaust)
  have one: "?r (k', [e'])" if "?r (k, [e])" "agent_step (ctl_register 0) ctl_threats ctl_connections (k, e) (k', e')"
    for k e k' e'
    using reach_step[OF that(1) sys_agent[of 0 "[e]" 0 k k' e']] that(2) by simp
  have "?r (controller_setup 18400, [Eng_NewEngine cfg0])"
    by (rule reach_init) (auto simp: system_init_def intro!: exI[of _ "[cfg0]"])
  then have "?r (k, [e])"
    by (rule one) (use a_start in \<open>metis st\<close>)
  then have "?r (k, [deliver 1 (OnConnection dconn0) e])"
    by (rule one) (rule a_deliver)
  then show ?thesis
    by (rule one) (simp add: run0_def st a_tick)
qed

theorem system_topology_nameless_witness:
  "Attr (wlGraph (ct_cache (fst run0))) '''' ''graph'' '''' \<noteq> None \<and> GetGraphLinkCount (ct_cache (fst run0)) \<le> 1"
proof
  show "Attr (wlGraph (ct_cache (fst run0))) '''' ''graph'' '''' \<noteq> None"
    by (simp add: run0_def Eng_Start_def Eng_NewEngine_def cfg0_def DP_Connect_def NewDPClient_def Client_Connect_def NewClient_def
        Client_Register_def ctl_register_def Server_Register_def tick_def deliver_def onDPConnection_def AddConnection_def
        flush_def updateConnections_def putConnections_eq putThreatLogs_def Let_def NewAggregator_def SetOnConnections_def SetOnThreatLogs_def
        start_heartbeat_def Aggregator_Start_def updateConnectionMap_def stamp_def onConnections_def Client_IsConnected_def
        ctl.ReportConnections_edge connectionMapMax_def connectionListMax_def dp_to_agent_def)
qed (use system_topology_nameless[OF reach_run0] in blast)


section \<open>Data between agent and controller\<close>

lemma rule_over_wire:
  "rule_from_proto (rule_to_proto r) =
     \<lparr>xr_id = pr_id r, xr_from = pr_from r, xr_to = pr_to r, xr_ports = pr_ports r, xr_applications = [],
      xr_action = (if pr_action r = ''open'' then APolicyActionOpen else actionFromString (pr_action r)),
      xr_ingress = False\<rparr>"
  by (simp add: rule_from_proto_def rule_to_proto_def actionToProto_def actionFromString_def APolicyActionOpen_def
      PolicyActionAllow_def PolicyActionDeny_def PolicyActionViolate_def)

lemma fetched_rules:
  assumes "engine_wf e" and "GetRule e i = Some r"
  shows "map_of (rev (map (\<lambda>r. (xr_id r, r)) (map rule_from_proto (map rule_to_proto (ListRules e))))) i =
    Some (rule_from_proto (rule_to_proto r))"
proof -
  have ids: "map pr_id (ListRules e) = ruleOrder e"
    using assms(1) by (simp add: ListRules_order_rules ids_order_rules)
  have "distinct (map fst (map (\<lambda>r. (pr_id r, rule_from_proto (rule_to_proto r))) (ListRules e)))"
    using assms(1) by (simp add: comp_def ids engine_wfD)
  moreover have "r \<in> set (ListRules e)" "pr_id r = i"
    using assms by (auto simp: ListRules_order_rules set_order_rules GetRule_def engine_wf_def ran_def)
  ultimately have "map_of (rev (map (\<lambda>r. (pr_id r, rule_from_proto (rule_to_proto r))) (ListRules e))) i =
      Some (rule_from_proto (rule_to_proto r))"
    by (intro map_of_is_SomeI) (auto simp: rev_map[symmetric])
  then show ?thesis
    by (simp add: comp_def rule_over_wire)
qed




text \<open>
  C21. A connection survives the wire.  What the controller decodes from the message that the agent
  builds has every field the two connection types share unchanged; the narrower numbers are widened
  for the message and narrowed again without loss.
\<close>

theorem connection_wire_roundtrip:
  "connection_from_proto (connection_to_proto x) =
     \<lparr>cn_client_wl = xc_client_wl x, cn_server_wl = xc_server_wl x,
      cn_client_ip = xc_client_ip x, cn_server_ip = xc_server_ip x,
      cn_client_port = xc_client_port x, cn_server_port = xc_server_port x,
      cn_ip_proto = xc_ip_proto x, cn_application = xc_application x,
      cn_bytes = xc_bytes x, cn_sessions = xc_sessions x,
      cn_first_seen_at = xc_first_seen_at x, cn_last_seen_at = xc_last_seen_at x,
      cn_threat_id = xc_threat_id x, cn_severity = xc_severity x,
      cn_policy_action = xc_policy_action x, cn_policy_id = xc_policy_id x,
      cn_ingress = xc_ingress x, cn_external_peer = xc_external_peer x, cn_local_peer = xc_local_peer x\<rparr>"
  by (simp add: connection_from_proto_def connection_to_proto_def ucast_ucast_widen)

lemma ifaces_over_wire:
  assumes "gwf (xw_ifaces wl)"
  shows "gget (wl_ifaces (workload_from_proto (workload_to_proto wl))) n =
    map_option (map (\<lambda>a. \<lparr>ia_ip = ParseIP (IP_String (xi_ip a)), ia_scope = xi_scope a\<rparr>)) (gget (xw_ifaces wl) n)"
proof -
  let ?f = "map (\<lambda>a. \<lparr>ia_ip = ParseIP (IP_String (xi_ip a)), ia_scope = xi_scope a\<rparr>)"
  have "map_of (rev (map (\<lambda>(n, as). (n, ?f as)) (xw_ifaces wl))) n = map_option ?f (gget (xw_ifaces wl) n)"
    using assms by (subst map_of_rev_distinct) (simp_all add: case_prod_unfold comp_def map_of_map[unfolded case_prod_unfold])
  then show ?thesis
    by (simp add: workload_from_proto_def workload_to_proto_def Let_def fold_map gget_fold_gput comp_def case_prod_unfold
        iface_addrs_def addr_to_proto_def)
qed

text \<open>
  C20. A workload report.  A connected client that reports a workload as added gets no error, and the
  controller then returns the workload with its names, host, state and mode, and with the interfaces
  by name; an IPv4 address arrives as the same address although it travels as text.  Reporting it as
  deleted removes it.
\<close>

theorem workload_report:
  assumes "cl_connected c" and "gwf (xw_ifaces wl)"
    and "Client_ReportWorkload (ctl_workload now) ''add'' wl k c = (err, k1)"
    and "Client_ReportWorkload (ctl_workload now') ''delete'' wl k1 c = (err', k2)"
  shows "err = None \<and> err' = None \<and> GetWorkload (ct_cache k2) (xw_id wl) = None \<and>
    (\<exists>cw. GetWorkload (ct_cache k1) (xw_id wl) = Some cw \<and>
      (wl_id cw, wl_name cw, wl_domain cw, wl_host_id cw, wl_host_name cw, wl_service cw, wl_running cw) =
      (xw_id wl, xw_name wl, xw_domain wl, xw_host_id wl, xw_host_name wl, xw_service wl, xw_running wl) \<and>
      wl_policy_mode cw = (if xw_policy_mode wl = APolicyModeProtect then PolicyModeProtect else PolicyModeMonitor) \<and>
      (\<forall>n. map_option length (gget (wl_ifaces cw) n) = map_option length (gget (xw_ifaces wl) n)) \<and>
      (\<forall>n as cas i v. gget (xw_ifaces wl) n = Some as \<longrightarrow> gget (wl_ifaces cw) n = Some cas \<longrightarrow> i < length as \<longrightarrow>
         To4 (xi_ip (as ! i)) = Some v \<longrightarrow> To4 (ia_ip (cas ! i)) = Some v \<and> ia_scope (cas ! i) = xi_scope (as ! i)))"
proof -
  let ?cw = "workload_from_proto (workload_to_proto wl)"
  have k1: "err = None" "ct_cache k1 = AddWorkload now ?cw (ct_cache k)"
    using assms(1,3)
    by (auto simp: Client_ReportWorkload_def report_result_def ctl_workload_def Server_ReportWorkload_def
        UpdateWorkloadFromProto_Some)
  moreover have "err' = None" "ct_cache k2 = DeleteWorkload (xw_id wl) (ct_cache k1)"
    using assms(1,4)
    by (auto simp: Client_ReportWorkload_def report_result_def ctl_workload_def Server_ReportWorkload_def
        workload_to_proto_def)
  moreover have "wl_id ?cw = xw_id wl"
    by (simp add: workload_from_proto_def workload_to_proto_def Let_def)
  ultimately have res: "err = None" "err' = None" "GetWorkload (ct_cache k2) (xw_id wl) = None"
      "GetWorkload (ct_cache k1) (xw_id wl) = Some ?cw"
    by (simp_all add: GetWorkload_AddWorkload GetWorkload_DeleteWorkload)
  have "To4 (ParseIP (IP_String a)) = Some v" if "To4 a = Some v" for a v
    using that by (simp add: ParseIP_IP_String To4_length To4_v4_in_v6)
  then show ?thesis
    using res
    by (auto simp: ifaces_over_wire[OF assms(2)] option.map_comp comp_def)
       (simp_all add: workload_from_proto_def workload_to_proto_def Let_def APolicyModeProtect_def)
qed


definition workload0 :: AWorkload where
  "workload0 = \<lparr>xw_id = ''w1'', xw_name = ''web'', xw_host_id = ''h1'', xw_host_name = ''node'', xw_domain = ''d'',
     xw_service = ''s'', xw_policy_mode = APolicyModeProtect, xw_running = True, xw_pid = 42,
     xw_ifaces = [(''eth0'', [\<lparr>xi_ip = [172, 17, 0, 2], xi_ipnet = \<lparr>net_ip = [172, 17, 0, 0], net_mask = [255, 255, 0, 0]\<rparr>,
       xi_scope = ''global'', xi_gateway = ''''\<rparr>])]\<rparr>"

theorem workload_report_witness:
  "\<exists>cw. GetWorkload (ct_cache (snd (Client_ReportWorkload (ctl_workload 1) ''add'' workload0 (controller_setup 18400)
       ((NewClient ''localhost:18400'' ''a1'' ''h1'' ''node'' ''0.1.0'')\<lparr>cl_connected := True\<rparr>)))) ''w1'' = Some cw \<and>
     wl_name cw = ''web'' \<and> wl_policy_mode cw = PolicyModeProtect"
proof -
  let ?c = "(NewClient ''localhost:18400'' ''a1'' ''h1'' ''node'' ''0.1.0'')\<lparr>cl_connected := True\<rparr>"
  obtain err k1 where k1: "Client_ReportWorkload (ctl_workload 1) ''add'' workload0 (controller_setup 18400) ?c = (err, k1)"
    by (rule prod.exhaust)
  obtain err' k2 where k2: "Client_ReportWorkload (ctl_workload 2) ''delete'' workload0 k1 ?c = (err', k2)"
    by (rule prod.exhaust)
  have "cl_connected ?c" "gwf (xw_ifaces workload0)" "xw_id workload0 = ''w1''" "xw_name workload0 = ''web''"
    "xw_policy_mode workload0 = APolicyModeProtect"
    by (simp_all add: workload0_def)
  with workload_report[OF _ _ k1 k2] k1 show ?thesis
    by auto
qed

end
